(* ===== verification/Prelude.thy ===== *)
theory Prelude
  imports Main "HOL-Library.Word" "HOL-Library.AList" "HOL-Library.Char_ord"
    "HOL-Library.List_Lexorder"
begin

text \<open>
  The vocabulary every component shares: the machine types, the part of Rust's standard
  library the gateway uses (results and options, byte strings, hash and ordered maps, saturating
  and checked arithmetic), and the generic lemmas about them. A Rust \<open>str\<close>, \<open>String\<close> or
  \<open>Vec<u8>\<close> is a \<^typ>\<open>string\<close>: the list of its bytes (UTF-8 for text), so \<open>len\<close>
  counts bytes as Rust does.
\<close>

named_theorems result_simps \<open>unfolding of the error monad\<close>
named_theorems json_simps \<open>accessors of JSON values\<close>

type_synonym bytes = string
type_synonym u64 = "64 word"
type_synonym u32 = "32 word"

section \<open>Results and options\<close>

text \<open>\<open>Result<T, E>\<close> is \<open>'e + 'a\<close>, \<open>Inl\<close> the error; the \<open>?\<close> operator is \<open>and_then\<close>.\<close>

definition and_then :: "'e + 'a \<Rightarrow> ('a \<Rightarrow> 'e + 'b) \<Rightarrow> 'e + 'b" where
  "and_then r f = (case r of Inl e \<Rightarrow> Inl e | Inr x \<Rightarrow> f x)"

definition ok_or :: "'e \<Rightarrow> 'a option \<Rightarrow> 'e + 'a" where
  "ok_or e x = (case x of None \<Rightarrow> Inl e | Some y \<Rightarrow> Inr y)"

definition map_err :: "('e \<Rightarrow> 'f) \<Rightarrow> 'e + 'a \<Rightarrow> 'f + 'a" where
  "map_err f r = (case r of Inl e \<Rightarrow> Inl (f e) | Inr x \<Rightarrow> Inr x)"

definition res_ok :: "'e + 'a \<Rightarrow> 'a option" where
  "res_ok r = (case r of Inl _ \<Rightarrow> None | Inr x \<Rightarrow> Some x)"

definition ensure :: "bool \<Rightarrow> 'e \<Rightarrow> 'e + unit" where
  "ensure b e = (if b then Inr () else Inl e)"

text \<open>Collecting an iterator of results stops at the first error.\<close>

fun try_map :: "('a \<Rightarrow> 'e + 'b) \<Rightarrow> 'a list \<Rightarrow> 'e + 'b list" where
  "try_map f [] = Inr []"
| "try_map f (x # xs) =
     (case f x of Inl e \<Rightarrow> Inl e
      | Inr y \<Rightarrow> (case try_map f xs of Inl e \<Rightarrow> Inl e | Inr ys \<Rightarrow> Inr (y # ys)))"

section \<open>Integers\<close>

definition checked_add :: "u64 \<Rightarrow> u64 \<Rightarrow> u64 option" where
  "checked_add a b = (if unat a + unat b < 2 ^ 64 then Some (a + b) else None)"

definition saturating_add :: "u64 \<Rightarrow> u64 \<Rightarrow> u64" where
  "saturating_add a b = (if unat a + unat b < 2 ^ 64 then a + b else - 1)"

section \<open>Byte strings\<close>

abbreviation code :: "char \<Rightarrow> nat" where
  "code c \<equiv> of_char c"

definition is_ascii :: "string \<Rightarrow> bool" where
  "is_ascii s = list_all (\<lambda>c. code c < 128) s"

definition is_ascii_digit :: "char \<Rightarrow> bool" where
  "is_ascii_digit c = (48 \<le> code c \<and> code c \<le> 57)"

definition is_lower_hex :: "char \<Rightarrow> bool" where
  "is_lower_hex c = (is_ascii_digit c \<or> 97 \<le> code c \<and> code c \<le> 102)"

definition is_ascii_hexdigit :: "char \<Rightarrow> bool" where
  "is_ascii_hexdigit c = (is_lower_hex c \<or> 65 \<le> code c \<and> code c \<le> 70)"

definition lower_char :: "char \<Rightarrow> char" where
  "lower_char c = (if 65 \<le> code c \<and> code c \<le> 90 then char_of (code c + 32) else c)"

definition to_ascii_lowercase :: "string \<Rightarrow> string" where
  "to_ascii_lowercase s = map lower_char s"

definition eq_ignore_ascii_case :: "string \<Rightarrow> string \<Rightarrow> bool" where
  "eq_ignore_ascii_case a b = (to_ascii_lowercase a = to_ascii_lowercase b)"

fun strip_prefix :: "string \<Rightarrow> string \<Rightarrow> string option" where
  "strip_prefix [] s = Some s"
| "strip_prefix (p # ps) [] = None"
| "strip_prefix (p # ps) (c # cs) = (if p = c then strip_prefix ps cs else None)"

definition starts_with :: "string \<Rightarrow> string \<Rightarrow> bool" where
  "starts_with p s = (strip_prefix p s \<noteq> None)"

definition ends_with :: "string \<Rightarrow> string \<Rightarrow> bool" where
  "ends_with p s = starts_with (rev p) (rev s)"

text \<open>\<open>split_once\<close>: the text before and after the first occurrence of a pattern.\<close>

fun split_once :: "string \<Rightarrow> string \<Rightarrow> (string \<times> string) option" where
  "split_once p [] = (if p = [] then Some ([], []) else None)"
| "split_once p (c # cs) =
     (case strip_prefix p (c # cs) of
        Some rest \<Rightarrow> Some ([], rest)
      | None \<Rightarrow> (case split_once p cs of None \<Rightarrow> None | Some (a, b) \<Rightarrow> Some (c # a, b)))"

definition contains_str :: "string \<Rightarrow> string \<Rightarrow> bool" where
  "contains_str p s = (split_once p s \<noteq> None)"

text \<open>
  \<open>str::trim\<close> removes Unicode white space. On UTF-8 bytes a white-space character is one of
  the sequences below; the encoding is self-synchronising, so matching them at either end of a
  valid string is exact.
\<close>

definition ws_seqs :: "string list" where
  "ws_seqs =
     [[CHR 0x09], [CHR 0x0A], [CHR 0x0B], [CHR 0x0C], [CHR 0x0D], [CHR 0x20],
      [CHR 0xC2, CHR 0x85], [CHR 0xC2, CHR 0xA0], [CHR 0xE1, CHR 0x9A, CHR 0x80]]
     @ map (\<lambda>c. [CHR 0xE2, CHR 0x80, c])
        [CHR 0x80, CHR 0x81, CHR 0x82, CHR 0x83, CHR 0x84, CHR 0x85, CHR 0x86, CHR 0x87, CHR 0x88,
         CHR 0x89, CHR 0x8A, CHR 0xA8, CHR 0xA9, CHR 0xAF]
     @ [[CHR 0xE2, CHR 0x81, CHR 0x9F], [CHR 0xE3, CHR 0x80, CHR 0x80]]"

fun strip_any :: "string list \<Rightarrow> string \<Rightarrow> string option" where
  "strip_any [] s = None"
| "strip_any (p # ps) s = (case strip_prefix p s of Some r \<Rightarrow> Some r | None \<Rightarrow> strip_any ps s)"

lemma strip_prefix_Some: "strip_prefix p s = Some r \<longleftrightarrow> s = p @ r"
  by (induction p s rule: strip_prefix.induct) auto

lemma strip_any_shorter: "strip_any ps s = Some r \<Longrightarrow> [] \<notin> set ps \<Longrightarrow> length r < length s"
  by (induction ps) (auto simp: strip_prefix_Some neq_Nil_conv split: option.splits)

function trim_while :: "string list \<Rightarrow> string \<Rightarrow> string" where
  "trim_while ps [] = []"
| "trim_while ps (c # cs) =
     (if [] \<in> set ps then c # cs
      else (case strip_any ps (c # cs) of None \<Rightarrow> c # cs | Some r \<Rightarrow> trim_while ps r))"
  by pat_completeness auto
termination
  by (relation "measure (\<lambda>(ps, s). length s)") (auto dest: strip_any_shorter)

declare trim_while.simps [simp del]

definition trim_start :: "string \<Rightarrow> string" where
  "trim_start s = trim_while ws_seqs s"

definition trim_end :: "string \<Rightarrow> string" where
  "trim_end s = rev (trim_while (map rev ws_seqs) (rev s))"

definition trim :: "string \<Rightarrow> string" where
  "trim s = trim_end (trim_start s)"

definition trim_end_matches :: "char \<Rightarrow> string \<Rightarrow> string" where
  "trim_end_matches c s = rev (dropWhile (\<lambda>x. x = c) (rev s))"

definition contains_whitespace :: "string \<Rightarrow> bool" where
  "contains_whitespace s = list_ex (\<lambda>p. contains_str p s) ws_seqs"

section \<open>Maps\<close>

text \<open>
  A \<open>HashMap\<close> is an association list with distinct keys: its order stands for the iteration
  order, which Rust leaves unspecified, so a theorem about every list is one about every order. A
  \<open>HashSet\<close> is a list without duplicates. A \<open>BTreeMap\<close> keeps its keys in ascending order.
\<close>

abbreviation hm_get :: "('k \<times> 'v) list \<Rightarrow> 'k \<Rightarrow> 'v option" where
  "hm_get m k \<equiv> map_of m k"

abbreviation hm_insert :: "'k \<Rightarrow> 'v \<Rightarrow> ('k \<times> 'v) list \<Rightarrow> ('k \<times> 'v) list" where
  "hm_insert k v m \<equiv> AList.update k v m"

abbreviation hm_remove :: "'k \<Rightarrow> ('k \<times> 'v) list \<Rightarrow> ('k \<times> 'v) list" where
  "hm_remove k m \<equiv> AList.delete k m"

abbreviation hm_wf :: "('k \<times> 'v) list \<Rightarrow> bool" where
  "hm_wf m \<equiv> distinct (map fst m)"

fun bt_put :: "'k::linorder \<Rightarrow> 'v \<Rightarrow> ('k \<times> 'v) list \<Rightarrow> ('k \<times> 'v) list" where
  "bt_put k v [] = [(k, v)]"
| "bt_put k v ((k', v') # m) =
     (if k < k' then (k, v) # (k', v') # m
      else if k = k' then (k, v) # m
      else (k', v') # bt_put k v m)"

abbreviation bt_wf :: "('k::linorder \<times> 'v) list \<Rightarrow> bool" where
  "bt_wf m \<equiv> sorted_wrt (<) (map fst m)"

section \<open>Lemmas\<close>

lemma and_then_simps [simp, result_simps]:
  "and_then (Inl e) f = Inl e" "and_then (Inr x) f = f x"
  by (simp_all add: and_then_def)

lemma ok_or_simps [simp, result_simps]:
  "ok_or e None = Inl e" "ok_or e (Some x) = Inr x"
  by (simp_all add: ok_or_def)

lemma map_err_simps [simp, result_simps]:
  "map_err f (Inl e) = Inl (f e)" "map_err f (Inr x) = Inr x"
  by (simp_all add: map_err_def)

lemma res_ok_simps [simp, result_simps]:
  "res_ok (Inl e) = None" "res_ok (Inr x) = Some x"
  by (simp_all add: res_ok_def)

lemma ensure_simps [simp, result_simps]:
  "ensure True e = Inr ()" "ensure False e = Inl e"
  by (simp_all add: ensure_def)

lemma and_then_Inr_iff: "and_then r f = Inr y \<longleftrightarrow> (\<exists>x. r = Inr x \<and> f x = Inr y)"
  by (cases r) auto

lemma and_then_Inl_iff: "and_then r f = Inl e \<longleftrightarrow> r = Inl e \<or> (\<exists>x. r = Inr x \<and> f x = Inl e)"
  by (cases r) auto

lemma ok_or_Inr_iff: "ok_or e x = Inr y \<longleftrightarrow> x = Some y"
  by (cases x) auto

lemma ok_or_Inl_iff: "ok_or e x = Inl e' \<longleftrightarrow> x = None \<and> e' = e"
  by (cases x) auto

lemma map_err_Inr_iff: "map_err f r = Inr y \<longleftrightarrow> r = Inr y"
  by (cases r) auto

lemma map_err_Inl_iff: "map_err f r = Inl e \<longleftrightarrow> (\<exists>e'. r = Inl e' \<and> e = f e')"
  by (cases r) auto

lemma res_ok_Some_iff: "res_ok r = Some x \<longleftrightarrow> r = Inr x"
  by (cases r) auto

lemma ensure_Inr_iff: "ensure b e = Inr u \<longleftrightarrow> b"
  by (cases b) auto

lemma ensure_Inl_iff: "ensure b e = Inl e' \<longleftrightarrow> \<not> b \<and> e' = e"
  by (cases b) auto

lemmas result_iffs =
  and_then_Inr_iff and_then_Inl_iff ok_or_Inr_iff ok_or_Inl_iff
  map_err_Inr_iff map_err_Inl_iff res_ok_Some_iff ensure_Inr_iff ensure_Inl_iff

lemma try_map_Inr_iff:
  "try_map f xs = Inr ys \<longleftrightarrow> list_all2 (\<lambda>x y. f x = Inr y) xs ys"
proof (induction xs arbitrary: ys)
  case (Cons x xs)
  have "(\<exists>y zs. ys = y # zs \<and> f x = Inr y \<and> try_map f xs = Inr zs) \<longleftrightarrow> try_map f (x # xs) = Inr ys"
    by (auto split: sum.splits)
  then show ?case by (simp add: Cons.IH list_all2_Cons1 del: try_map.simps)
qed auto

lemma try_map_total:
  "(\<forall>x \<in> set xs. \<exists>y. f x = Inr y) \<Longrightarrow> \<exists>ys. try_map f xs = Inr ys"
  by (induction xs) (auto split: sum.splits)

lemma try_map_cong:
  "(\<And>x. x \<in> set xs \<Longrightarrow> f x = g x) \<Longrightarrow> try_map f xs = try_map g xs"
  by (induction xs) (auto split: sum.splits)

lemma checked_add_Some: "checked_add a b = Some c \<Longrightarrow> unat c = unat a + unat b"
  by (auto simp: checked_add_def unat_word_ariths split: if_splits)

lemma saturating_add_unat: "unat (saturating_add a b) = min (unat a + unat b) (2 ^ 64 - 1)"
proof (cases "unat a + unat b < 2 ^ 64")
  case True
  then have "unat (a + b) = unat a + unat b"
    by (simp add: unat_word_ariths)
  with True show ?thesis by (simp add: saturating_add_def)
next
  case False
  then show ?thesis by (simp add: saturating_add_def unsigned_minus_1_eq_mask mask_eq_exp_minus_1)
qed

lemma saturating_add_ge: "a \<le> saturating_add a b"
proof -
  have "unat a < 2 ^ 64" using unsigned_less [of a] by simp
  then show ?thesis by (simp add: word_le_nat_alt saturating_add_unat)
qed

lemma strip_prefix_append [simp]: "strip_prefix p (p @ r) = Some r"
  by (simp add: strip_prefix_Some)

lemma split_once_Some: "split_once p s = Some (a, b) \<Longrightarrow> s = a @ p @ b"
proof (induction p s arbitrary: a rule: split_once.induct)
  case (2 p c cs)
  then show ?case by (auto simp: strip_prefix_Some split: option.splits)
qed (auto split: if_splits)

lemma split_once_None: "split_once p s = None \<Longrightarrow> s \<noteq> a @ p @ b"
proof (induction s arbitrary: a)
  case (Cons c cs)
  show ?case
  proof
    assume s: "c # cs = a @ p @ b"
    then have "a = [] \<Longrightarrow> strip_prefix p (c # cs) = Some b"
      by (simp add: strip_prefix_Some)
    with Cons.prems have "a \<noteq> []" by auto
    with s obtain a' where "cs = a' @ p @ b" by (cases a) auto
    with Cons show False by (auto split: option.splits)
  qed
qed auto

lemma contains_str_iff: "contains_str p s \<longleftrightarrow> (\<exists>a b. s = a @ p @ b)"
  unfolding contains_str_def using split_once_Some split_once_None by (metis option.exhaust surj_pair)

lemma map_of_bt_put [simp]: "map_of (bt_put k v m) = (map_of m)(k \<mapsto> v)"
  by (induction m) (auto simp: fun_eq_iff)

lemma keys_bt_put [simp]: "fst ` set (bt_put k v m) = insert k (fst ` set m)"
  unfolding dom_map_of_conv_image_fst [symmetric] by simp

lemma bt_put_wf [simp]: "bt_wf m \<Longrightarrow> bt_wf (bt_put k v m)"
proof (induction m)
  case (Cons a m)
  then show ?case
    using keys_bt_put [of k v m] by (cases a) (fastforce simp: set_map)
qed simp

lemma bt_wf_distinct: "bt_wf m \<Longrightarrow> hm_wf m"
  by (simp add: strict_sorted_iff)

lemma map_of_hm_insert [simp]: "map_of (AList.update k v m) = (map_of m)(k \<mapsto> v)"
  by (simp add: update_conv')

lemma map_of_hm_remove [simp]: "map_of (AList.delete k m) = (map_of m)(k := None)"
  by (simp add: delete_conv')

lemma hm_wf_insert [simp]: "hm_wf m \<Longrightarrow> hm_wf (AList.update k v m)"
  by (simp add: distinct_update)

lemma hm_wf_remove [simp]: "hm_wf m \<Longrightarrow> hm_wf (AList.delete k m)"
  by (simp add: distinct_delete)

section \<open>Deadline buckets\<close>

text \<open>A \<open>BTreeMap<u64, HashSet<String>>\<close> from deadlines to the ids that lapse then. A bucket is created on first
  use and removed when its last id goes.\<close>

type_synonym buckets = "(u64 \<times> string list) list"

definition set_insert :: "'a \<Rightarrow> 'a list \<Rightarrow> 'a list" where
  "set_insert x xs = (if x \<in> set xs then xs else xs @ [x])"

definition bucket_list :: "buckets \<Rightarrow> u64 \<Rightarrow> string list" where
  "bucket_list m t = (case map_of m t of Some ids \<Rightarrow> ids | None \<Rightarrow> [])"

definition bucket_add :: "u64 \<Rightarrow> string \<Rightarrow> buckets \<Rightarrow> buckets" where
  "bucket_add t x m = bt_put t (set_insert x (bucket_list m t)) m"

definition bucket_drop :: "u64 \<Rightarrow> string \<Rightarrow> buckets \<Rightarrow> buckets" where
  "bucket_drop t x m =
     (case map_of m t of
        None \<Rightarrow> m
      | Some ids \<Rightarrow>
          let ids = removeAll x ids
          in if ids = [] then AList.delete t m else bt_put t ids m)"

definition bucket :: "buckets \<Rightarrow> u64 \<Rightarrow> string set" where
  "bucket m t = (case map_of m t of Some ids \<Rightarrow> set ids | None \<Rightarrow> {})"

definition buckets_wf :: "buckets \<Rightarrow> bool" where
  "buckets_wf m = (bt_wf m \<and> (\<forall>t ids. map_of m t = Some ids \<longrightarrow> ids \<noteq> [] \<and> distinct ids))"

lemma set_insert_simps [simp]: "set (set_insert x xs) = insert x (set xs)" "distinct xs \<Longrightarrow> distinct (set_insert x xs)"
  "set_insert x xs \<noteq> []"
  by (auto simp: set_insert_def)

lemma bt_delete_wf: "bt_wf m \<Longrightarrow> bt_wf (AList.delete k m)"
  by (simp add: AList.delete_eq sorted_wrt_map sorted_wrt_filter)

lemma removeAll_Nil: "removeAll x xs = [] \<longleftrightarrow> set xs \<subseteq> {x}"
  by (auto simp: removeAll_filter_not_eq filter_empty_conv)

lemma set_bucket_list [simp]: "set (bucket_list m t) = bucket m t"
  by (cases "map_of m t") (simp_all add: bucket_def bucket_list_def)

lemma bucket_Nil [simp]: "bucket [] t = {}"
  by (simp add: bucket_def)

lemma bucket_add: "bucket (bucket_add t x m) u = (if u = t then insert x (bucket m t) else bucket m u)"
  by (cases "u = t") (simp_all add: bucket_add_def bucket_def [of "bt_put _ _ _"] bucket_def [of m u])

lemma bucket_drop: "bucket (bucket_drop t x m) u = (if u = t then bucket m t - {x} else bucket m u)"
  by (cases "map_of m t") (auto simp: bucket_def bucket_drop_def Let_def removeAll_Nil)

lemma bucket_delete: "bucket (AList.delete t m) u = (if u = t then {} else bucket m u)"
  by (simp add: bucket_def)

lemma buckets_wf_add: "buckets_wf m \<Longrightarrow> buckets_wf (bucket_add t x m)"
  by (auto simp: buckets_wf_def bucket_add_def bucket_list_def split: option.splits if_splits)

lemma buckets_wf_drop: "buckets_wf m \<Longrightarrow> buckets_wf (bucket_drop t x m)"
  by (auto simp: buckets_wf_def bucket_drop_def Let_def bt_delete_wf distinct_removeAll split: option.splits if_splits)

lemma buckets_wf_delete: "buckets_wf m \<Longrightarrow> buckets_wf (AList.delete t m)"
  by (auto simp: buckets_wf_def bt_delete_wf split: if_splits)

lemma buckets_wf_Nil [simp]: "buckets_wf []"
  by (simp add: buckets_wf_def)

lemma bucket_key: "x \<in> bucket m t \<Longrightarrow> t \<in> fst ` set m"
  by (auto simp: bucket_def split: option.splits) (metis fst_conv image_eqI map_of_SomeD)

end
