(* ===== verification/Json.thy ===== *)
theory Json
  imports Prelude "HOL-Library.Countable"
begin

text \<open>
  JSON values as the gateway handles them (\<open>serde_json::Value\<close> with \<open>preserve_order\<close>): an
  object is its members in insertion order, a number is an unsigned or negative 64-bit integer or
  a float, kept as its printed text. The accessors are the documented ones; parsing, printing,
  hashing and the encodings are operations of other packages and are fields of \<open>lib\<close>, the
  parameter every definition that needs them takes. What the proofs rely on of them is stated by
  the predicates at the end.
\<close>

datatype jnum = PosInt u64 | NegInt int | Float string

datatype json =
    JNull
  | JBool bool
  | JNumber jnum
  | JString string
  | JArray "json list"
  | JObject "(string \<times> json) list"

section \<open>Accessors\<close>

fun jget :: "json \<Rightarrow> string \<Rightarrow> json option" where
  "jget (JObject m) k = map_of m k"
| "jget _ k = None"

fun as_str :: "json \<Rightarrow> string option" where
  "as_str (JString s) = Some s"
| "as_str _ = None"

fun as_bool :: "json \<Rightarrow> bool option" where
  "as_bool (JBool b) = Some b"
| "as_bool _ = None"

fun as_u64 :: "json \<Rightarrow> u64 option" where
  "as_u64 (JNumber (PosInt n)) = Some n"
| "as_u64 _ = None"

fun as_array :: "json \<Rightarrow> json list option" where
  "as_array (JArray xs) = Some xs"
| "as_array _ = None"

definition is_object :: "json \<Rightarrow> bool" where
  "is_object v = (case v of JObject _ \<Rightarrow> True | _ \<Rightarrow> False)"

definition jget_str :: "json \<Rightarrow> string \<Rightarrow> string option" where
  "jget_str v k = Option.bind (jget v k) as_str"

text \<open>Assigning a member of an object, and \<open>Map::remove\<close>, which under \<open>preserve_order\<close> moves
  the last member into the place of the removed one.\<close>

fun jset :: "json \<Rightarrow> string \<Rightarrow> json \<Rightarrow> json" where
  "jset (JObject m) k v = JObject (AList.update k v m)"
| "jset other k v = other"

fun obj_remove :: "string \<Rightarrow> (string \<times> json) list \<Rightarrow> (string \<times> json) list" where
  "obj_remove k [] = []"
| "obj_remove k ((k', v) # m) =
     (if k = k' then (if m = [] then [] else last m # butlast m)
      else (k', v) # obj_remove k m)"

text \<open>Every object of the value has distinct member names, as a parsed or built value has.\<close>

fun jwf :: "json \<Rightarrow> bool" where
  "jwf (JArray xs) = list_all jwf xs"
| "jwf (JObject m) = (hm_wf m \<and> list_all (\<lambda>(k, v). jwf v) m)"
| "jwf _ = True"

section \<open>Operations of other packages\<close>

record lib =
  sha256 :: "bytes \<Rightarrow> bytes"
  sha384 :: "bytes \<Rightarrow> bytes"
  hex_encode :: "bytes \<Rightarrow> string"
  hex_decode :: "string \<Rightarrow> bytes option"
  b64_encode :: "bytes \<Rightarrow> string"
  b64_decode :: "string \<Rightarrow> bytes option"
  to_vec :: "json \<Rightarrow> bytes"
  from_slice :: "bytes \<Rightarrow> json option"

definition sha256_len :: "'x lib_scheme \<Rightarrow> bool" where
  "sha256_len L = (\<forall>b. length (sha256 L b) = 32)"

definition sha384_len :: "'x lib_scheme \<Rightarrow> bool" where
  "sha384_len L = (\<forall>b. length (sha384 L b) = 48)"

definition hex_ok :: "'x lib_scheme \<Rightarrow> bool" where
  "hex_ok L = (\<forall>b. length (hex_encode L b) = 2 * length b \<and> list_all is_lower_hex (hex_encode L b)
     \<and> hex_decode L (hex_encode L b) = Some b)"

definition b64_ok :: "'x lib_scheme \<Rightarrow> bool" where
  "b64_ok L = (\<forall>b s. b64_decode L (b64_encode L b) = Some b \<and>
     (b64_decode L s = Some b \<longrightarrow> b64_encode L b = s))"

definition to_vec_inj :: "'x lib_scheme \<Rightarrow> bool" where
  "to_vec_inj L = inj (to_vec L)"

text \<open>Two different inputs with the same digest.\<close>

definition collision :: "(bytes \<Rightarrow> bytes) \<Rightarrow> bytes \<Rightarrow> bytes \<Rightarrow> bool" where
  "collision h x y = (x \<noteq> y \<and> h x = h y)"

section \<open>Lemmas\<close>

instance jnum :: countable
  by countable_datatype

instance json :: countable
  by countable_datatype

lemma hm_wf_map_of: "hm_wf m \<Longrightarrow> (k, v) \<in> set m \<longleftrightarrow> map_of m k = Some v"
  by (simp add: map_of_eq_Some_iff)

lemma hex_ok_inj: "hex_ok L \<Longrightarrow> hex_encode L a = hex_encode L b \<longleftrightarrow> a = b"
  unfolding hex_ok_def by (metis option.inject)

lemma set_obj_remove:
  "hm_wf m \<Longrightarrow> set (obj_remove k m) = {(k', v) \<in> set m. k' \<noteq> k}"
proof (induction k m rule: obj_remove.induct)
  case (2 k k' v m)
  show ?case
  proof (cases "k = k' \<and> m \<noteq> []")
    case True
    then obtain l b where m: "m = b @ [l]" by (cases m rule: rev_cases) auto
    with True 2(2) show ?thesis by (auto simp: image_iff)
  next
    case False
    with 2 show ?thesis by auto
  qed
qed simp

lemma obj_remove_wf: "hm_wf m \<Longrightarrow> hm_wf (obj_remove k m)"
proof (induction k m rule: obj_remove.induct)
  case (2 k k' v m)
  show ?case
  proof (cases "k = k' \<and> m \<noteq> []")
    case True
    then obtain l b where m: "m = b @ [l]" by (cases m rule: rev_cases) auto
    with True 2(2) show ?thesis by auto
  next
    case False
    with 2 set_obj_remove [of m k] show ?thesis by force
  qed
qed simp

lemma obj_remove_map_of:
  assumes "hm_wf m"
  shows "map_of (obj_remove k m) = (map_of m)(k := None)"
proof
  fix x
  have "map_of (obj_remove k m) x = Some v \<longleftrightarrow> ((map_of m)(k := None)) x = Some v" for v
    using assms by (auto simp: obj_remove_wf set_obj_remove simp flip: hm_wf_map_of)
  then show "map_of (obj_remove k m) x = ((map_of m)(k := None)) x"
    by (metis option.exhaust)
qed

end
