(* ===== verification/Samples.thy ===== *)
theory Samples
  imports Json
begin

text \<open>
  A concrete instance of the operations of other packages, used by the witnesses only: real
  hexadecimal (also in the place of Base64), a printer that is injective, and stand-in digests
  of the right length.
\<close>

definition hex_digit :: "nat \<Rightarrow> char" where
  "hex_digit n = (if n < 10 then char_of (48 + n) else char_of (87 + n))"

definition hex_value :: "char \<Rightarrow> nat option" where
  "hex_value c =
     (if is_ascii_digit c then Some (code c - 48)
      else if 97 \<le> code c \<and> code c \<le> 102 then Some (code c - 87)
      else if 65 \<le> code c \<and> code c \<le> 70 then Some (code c - 55) else None)"

definition sample_hex :: "bytes \<Rightarrow> string" where
  "sample_hex b = concat (map (\<lambda>c. [hex_digit (code c div 16), hex_digit (code c mod 16)]) b)"

fun sample_unhex :: "string \<Rightarrow> bytes option" where
  "sample_unhex [] = Some []"
| "sample_unhex [c] = None"
| "sample_unhex (c # d # s) =
     (case (hex_value c, hex_value d, sample_unhex s) of
        (Some h, Some l, Some r) \<Rightarrow> Some (char_of (16 * h + l) # r)
      | _ \<Rightarrow> None)"

definition sample_pad :: "nat \<Rightarrow> bytes \<Rightarrow> bytes" where
  "sample_pad n b = take n (b @ replicate n (CHR 0x00))"

definition sample_unb64 :: "string \<Rightarrow> bytes option" where
  "sample_unb64 s = (case sample_unhex s of Some b \<Rightarrow> if sample_hex b = s then Some b else None | None \<Rightarrow> None)"

definition sample_lib :: lib where
  "sample_lib = \<lparr>sha256 = sample_pad 32, sha384 = sample_pad 48, hex_encode = sample_hex,
     hex_decode = sample_unhex, b64_encode = sample_hex, b64_decode = sample_unb64,
     to_vec = (\<lambda>v. replicate (to_nat v) (CHR ''x'')), from_slice = (\<lambda>b. Some (from_nat (length b)))\<rparr>"

lemma hex_digit_cases:
  assumes "n < 16"
  shows "is_lower_hex (hex_digit n) \<and> hex_value (hex_digit n) = Some n"
proof -
  from assms have "n \<in> {0..<16}" by simp
  also have "{0..<16::nat} = {0,1,2,3,4,5,6,7,8,9,10,11,12,13,14,15}" by code_simp
  finally show ?thesis
    by (auto simp: hex_digit_def hex_value_def is_lower_hex_def is_ascii_digit_def)
qed

lemma code_bound: "code c < 256"
  by (metis mod_less_divisor of_char_mod_256 zero_less_numeral)

lemma sample_hex_facts:
  "length (sample_hex b) = 2 * length b \<and> list_all is_lower_hex (sample_hex b)
   \<and> sample_unhex (sample_hex b) = Some b"
proof (induction b)
  case (Cons c b)
  have "code c div 16 < 16" "code c mod 16 < 16" using code_bound [of c] by (simp_all add: div_less_iff_less_mult)
  moreover have "char_of (16 * (code c div 16) + code c mod 16) = c" by (simp add: mult_div_mod_eq)
  ultimately show ?case using Cons hex_digit_cases by (simp add: sample_hex_def)
qed (simp add: sample_hex_def)

lemma sample_lib_laws:
  "sha256_len sample_lib" "sha384_len sample_lib" "hex_ok sample_lib" "b64_ok sample_lib"
  "to_vec_inj sample_lib"
  by (auto simp: sample_unb64_def sample_lib_def sha256_len_def sha384_len_def hex_ok_def b64_ok_def
      to_vec_inj_def sample_hex_facts sample_pad_def inj_def replicate_eq_replicate min_def
      split: option.splits if_splits)

end
