(* ===== verification/Jcs.thy ===== *)
theory Jcs
  imports Samples
begin

text \<open>
  Canonical JSON (\<open>crates/aci-protocol/src/digest.rs\<close>): digests over bytes and the JCS form
  that every keyset, session and receipt digest is taken over. \<open>jcs_sorted\<close> orders the
  members of every object by name and refuses what JCS would print differently (a float, a member
  name outside ASCII). The lemmas show when it succeeds, that its result is in canonical order, and
  that two values have the same JCS bytes exactly when they differ only in member order.
\<close>

section \<open>Digests\<close>

definition sha256_hex :: "'x lib_scheme \<Rightarrow> bytes \<Rightarrow> string" where
  "sha256_hex L payload = ''sha256:'' @ hex_encode L (sha256 L payload)"

definition sha256_bare_hex :: "'x lib_scheme \<Rightarrow> bytes \<Rightarrow> string" where
  "sha256_bare_hex L payload = hex_encode L (sha256 L payload)"

definition sha256_raw :: "'x lib_scheme \<Rightarrow> bytes \<Rightarrow> bytes" where
  "sha256_raw L payload = sha256 L payload"

section \<open>Canonicalisation\<close>

datatype jcs_error = NonIntegerNumber string | NonAsciiFieldName string

lemma json_member_size [termination_simp]:
  "(k, v) \<in> set m \<Longrightarrow> size v < Suc (size_list (size_prod (\<lambda>_. 0) size) m)"
  by (induction m) auto

declare try_map_cong [fundef_cong]

fun jcs_sorted :: "json \<Rightarrow> jcs_error + json" where
  "jcs_sorted (JObject m) =
     map_sum id JObject
       (try_map (\<lambda>(key, v).
           if \<not> is_ascii key then Inl (NonAsciiFieldName key)
           else map_sum id (Pair key) (jcs_sorted v))
         (sort_key fst m))"
| "jcs_sorted (JArray items) = map_sum id JArray (try_map jcs_sorted items)"
| "jcs_sorted (JNumber (Float n)) = Inl (NonIntegerNumber n)"
| "jcs_sorted other = Inr other"

definition jcs_bytes :: "'x lib_scheme \<Rightarrow> json \<Rightarrow> jcs_error + bytes" where
  "jcs_bytes L v = and_then (jcs_sorted v) (\<lambda>s. Inr (to_vec L s))"

section \<open>What canonical means\<close>

text \<open>The Appendix A constraints: integer numbers and ASCII member names, at every depth.\<close>

fun jcs_ok :: "json \<Rightarrow> bool" where
  "jcs_ok (JObject m) = list_all (\<lambda>(k, v). is_ascii k \<and> jcs_ok v) m"
| "jcs_ok (JArray xs) = list_all jcs_ok xs"
| "jcs_ok (JNumber (Float n)) = False"
| "jcs_ok _ = True"

text \<open>Members of every object in ascending order of their names.\<close>

fun jcs_canonical :: "json \<Rightarrow> bool" where
  "jcs_canonical (JObject m) = (sorted (map fst m) \<and> list_all (\<lambda>(k, v). jcs_canonical v) m)"
| "jcs_canonical (JArray xs) = list_all jcs_canonical xs"
| "jcs_canonical _ = True"

text \<open>Equal up to the order of object members, at every depth.\<close>

inductive same_value :: "json \<Rightarrow> json \<Rightarrow> bool" where
  same_object: "dom (map_of m) = dom (map_of m') \<Longrightarrow>
     (\<And>k v w. map_of m k = Some v \<Longrightarrow> map_of m' k = Some w \<Longrightarrow> same_value v w) \<Longrightarrow>
     same_value (JObject m) (JObject m')"
| same_array: "list_all2 same_value xs ys \<Longrightarrow> same_value (JArray xs) (JArray ys)"
| same_null: "same_value JNull JNull"
| same_bool: "same_value (JBool b) (JBool b)"
| same_number: "same_value (JNumber n) (JNumber n)"
| same_string: "same_value (JString s) (JString s)"
monos list_all2_mono

inductive_simps same_value_object: "same_value (JObject m) w"
inductive_simps same_value_array: "same_value (JArray xs) w"
inductive_simps same_value_leaf:
  "same_value JNull w" "same_value (JBool b) w" "same_value (JNumber n) w" "same_value (JString s) w"

section \<open>Lemmas\<close>

lemma map_sum_Inr_iff: "map_sum f g r = Inr y \<longleftrightarrow> (\<exists>x. r = Inr x \<and> y = g x)"
  by (cases r) auto

lemma try_map_list_all2:
  "list_all2 (\<lambda>x y. f x = g y) xs ys \<Longrightarrow> try_map f xs = try_map g ys"
  by (induction rule: list_all2_induct) (auto split: sum.splits)

lemma try_map_ex:
  "(\<exists>ys. try_map f xs = Inr ys) \<longleftrightarrow> (\<forall>x \<in> set xs. \<exists>y. f x = Inr y)"
proof (induction xs)
  case (Cons x xs)
  have "(\<exists>ys. try_map f (x # xs) = Inr ys) \<longleftrightarrow> (\<exists>y. f x = Inr y) \<and> (\<exists>ys. try_map f xs = Inr ys)"
    by (auto split: sum.splits)
  with Cons show ?case by simp
qed simp

lemma jcs_sorted_ok_iff: "(\<exists>s. jcs_sorted v = Inr s) \<longleftrightarrow> jcs_ok v"
proof (induction v rule: jcs_sorted.induct)
  case (1 m)
  have "(\<exists>y. (case x of (key, v) \<Rightarrow> if \<not> is_ascii key then Inl (NonAsciiFieldName key)
      else map_sum id (Pair key) (jcs_sorted v)) = Inr y) \<longleftrightarrow> (case x of (k, v) \<Rightarrow> is_ascii k \<and> jcs_ok v)"
    if "x \<in> set m" for x
  proof (cases x rule: prod.exhaust)
    case (Pair k v)
    have IH: "is_ascii k \<Longrightarrow> (\<exists>s. jcs_sorted v = Inr s) \<longleftrightarrow> jcs_ok v"
      by (rule 1) (use that Pair in auto)
    show ?thesis
      by (cases "is_ascii k") (simp_all add: Pair map_sum_Inr_iff IH)
  qed
  then show ?case
    by (simp add: map_sum_Inr_iff try_map_ex list_all_iff)
next
  case (2 items)
  then show ?case by (auto simp: map_sum_Inr_iff try_map_ex list_all_iff)
qed auto

lemma jcs_sorted_object:
  "jcs_sorted (JObject m) = Inr s \<longleftrightarrow>
     (\<exists>ms. s = JObject ms \<and> list_all2 (\<lambda>(k, v) (k', v'). k' = k \<and> is_ascii k \<and> jcs_sorted v = Inr v')
        (sort_key fst m) ms)"
proof -
  have "(\<lambda>x y. (case x of (k, v) \<Rightarrow>
          if \<not> is_ascii k then Inl (NonAsciiFieldName k) else map_sum id (Pair k) (jcs_sorted v)) = Inr y)
      = (\<lambda>(k, v) (k', v'). k' = k \<and> is_ascii k \<and> jcs_sorted v = Inr v')"
    by (auto simp: fun_eq_iff map_sum_Inr_iff)
  then show ?thesis
    by (auto simp: map_sum_Inr_iff try_map_Inr_iff)
qed

lemma jcs_sorted_array:
  "jcs_sorted (JArray xs) = Inr s \<longleftrightarrow>
     (\<exists>ys. s = JArray ys \<and> list_all2 (\<lambda>x y. jcs_sorted x = Inr y) xs ys)"
  by (auto simp: map_sum_Inr_iff try_map_Inr_iff)

lemma jcs_sorted_leaf:
  "jcs_sorted w = Inr JNull \<longleftrightarrow> w = JNull"
  "jcs_sorted w = Inr (JBool b) \<longleftrightarrow> w = JBool b"
  "jcs_sorted w = Inr (JNumber n) \<longleftrightarrow> w = JNumber n \<and> (\<forall>f. n \<noteq> Float f)"
  "jcs_sorted w = Inr (JString s) \<longleftrightarrow> w = JString s"
  by (cases w rule: jcs_sorted.cases; auto simp: jcs_sorted_object jcs_sorted_array
      simp del: jcs_sorted.simps(1,2))+

lemma list_all2_fst:
  "list_all2 (\<lambda>(k, v) (k', v'). k' = k \<and> P k v v') xs ys \<Longrightarrow> map fst ys = map fst xs"
  by (induction rule: list_all2_induct) auto

lemma list_all2_keyed:
  assumes "list_all2 (\<lambda>(k, v) (k', v'). k' = k \<and> P k v v') xs ys" and "hm_wf xs"
  shows "map_of xs k = Some v \<Longrightarrow> \<exists>v'. map_of ys k = Some v' \<and> P k v v'"
  using assms by (induction rule: list_all2_induct) (auto split: if_splits)

lemma list_all2_member:
  "list_all2 (\<lambda>(k, v) (k', v'). k' = k \<and> P k v v') xs ys \<Longrightarrow> (k, u) \<in> set ys \<Longrightarrow>
     \<exists>v. (k, v) \<in> set xs \<and> P k v u"
  by (induction rule: list_all2_induct) auto

lemma list_all2_set2: "list_all2 P xs ys \<Longrightarrow> y \<in> set ys \<Longrightarrow> \<exists>x \<in> set xs. P x y"
  by (induction rule: list_all2_induct) auto

lemma hm_wf_sort: "hm_wf (sort_key fst m) = hm_wf m"
  by (simp add: distinct_map)

lemma map_of_sort: "hm_wf m \<Longrightarrow> map_of (sort_key fst m) = map_of m"
  using map_of_inject_set [of "sort_key fst m" m] by (simp add: hm_wf_sort)

lemma sort_key_fst_keys:
  assumes "hm_wf m" and "hm_wf m'" and "dom (map_of m) = dom (map_of m')"
  shows "map fst (sort_key fst m) = map fst (sort_key fst m')"
  using assms
  by (intro sorted_distinct_set_unique)
    (simp_all add: hm_wf_sort dom_map_of_conv_image_fst)

lemma sort_key_fst_aligned:
  assumes "hm_wf m" and "hm_wf m'" and "dom (map_of m) = dom (map_of m')"
  shows "list_all2 (\<lambda>(k, v) (k', w). k' = k \<and> map_of m k = Some v \<and> map_of m' k = Some w)
    (sort_key fst m) (sort_key fst m')"
proof -
  let ?a = "sort_key fst m" and ?b = "sort_key fst m'"
  have keys: "map fst ?a = map fst ?b" by (rule sort_key_fst_keys [OF assms])
  have "length ?a = length ?b" using keys map_eq_imp_length_eq by blast
  moreover have "fst (?a ! i) = fst (?b ! i) \<and> map_of m (fst (?a ! i)) = Some (snd (?a ! i))
      \<and> map_of m' (fst (?b ! i)) = Some (snd (?b ! i))" if "i < length ?a" for i
    using that keys assms nth_mem [of i ?a] nth_mem [of i ?b] \<open>length ?a = length ?b\<close>
    by (metis length_map map_of_eq_Some_iff nth_map prod.collapse set_sort)
  ultimately show ?thesis
    by (simp add: list_all2_conv_all_nth case_prod_beta) metis
qed

lemma same_value_jcs_sorted:
  "same_value v w \<Longrightarrow> jwf v \<Longrightarrow> jwf w \<Longrightarrow> jcs_sorted v = jcs_sorted w"
proof (induction rule: same_value.induct)
  case (same_object m m')
  have "jcs_sorted v = jcs_sorted w" if "map_of m k = Some v" "map_of m' k = Some w" for k v w
    using same_object.IH [OF that] same_object.prems that [THEN map_of_SomeD]
    by (force simp: list_all_iff)
  then have "list_all2 (\<lambda>x y. (case x of (key, v) \<Rightarrow> if \<not> is_ascii key
        then Inl (NonAsciiFieldName key) else map_sum id (Pair key) (jcs_sorted v)) =
      (case y of (key, v) \<Rightarrow> if \<not> is_ascii key
        then Inl (NonAsciiFieldName key) else map_sum id (Pair key) (jcs_sorted v)))
      (sort_key fst m) (sort_key fst m')"
    using same_object by (intro list_all2_mono [OF sort_key_fst_aligned]) auto
  then show ?case by (simp add: try_map_list_all2)
next
  case (same_array xs ys)
  then have "list_all2 (\<lambda>x y. jcs_sorted x = jcs_sorted y) xs ys"
    by (auto simp: list_all2_conv_all_nth list_all_length)
  then show ?case by (simp add: try_map_list_all2)
qed auto

lemma jcs_sorted_same_value:
  "jcs_sorted v = Inr s \<Longrightarrow> jcs_sorted w = Inr s \<Longrightarrow> jwf v \<Longrightarrow> jwf w \<Longrightarrow> same_value v w"
proof (induction v arbitrary: s w rule: jcs_sorted.induct)
  case (1 m)
  from 1(2) obtain ms where s: "s = JObject ms"
    and m: "list_all2 (\<lambda>(k, v) (k', v'). k' = k \<and> is_ascii k \<and> jcs_sorted v = Inr v') (sort_key fst m) ms"
    unfolding jcs_sorted_object by blast
  from 1(3) s obtain m' where w: "w = JObject m'"
    and m': "list_all2 (\<lambda>(k, v) (k', v'). k' = k \<and> is_ascii k \<and> jcs_sorted v = Inr v') (sort_key fst m') ms"
    by (cases w rule: jcs_sorted.cases) (auto simp: jcs_sorted_object jcs_sorted_array simp del: jcs_sorted.simps(1,2))
  have "map fst (sort_key fst m) = map fst (sort_key fst m')"
    using list_all2_fst [OF m] list_all2_fst [OF m'] by simp
  then have "set (map fst (sort_key fst m)) = set (map fst (sort_key fst m'))" by simp
  then have dom: "dom (map_of m) = dom (map_of m')"
    by (simp add: dom_map_of_conv_image_fst)
  have "same_value v v'" if v: "map_of m k = Some v" and v': "map_of m' k = Some v'" for k v v'
  proof -
    from 1(4) v obtain u where u: "map_of ms k = Some u" "is_ascii k" "jcs_sorted v = Inr u"
      using list_all2_keyed [OF m, of k v] by (auto simp: hm_wf_sort map_of_sort)
    from 1(5) w v' u have "jcs_sorted v' = Inr u"
      using list_all2_keyed [OF m', of k v'] by (auto simp: hm_wf_sort map_of_sort)
    with u v v' 1(4,5) w 1(1) [of "(k, v)" k v] show ?thesis
      by (force simp: list_all_iff dest!: map_of_SomeD)
  qed
  with dom w show ?case by (auto intro: same_value.intros)
next
  case (2 xs)
  then obtain zs where s: "s = JArray zs" "list_all2 (\<lambda>x y. jcs_sorted x = Inr y) xs zs"
    unfolding jcs_sorted_array by blast
  with 2(3) obtain ys where w: "w = JArray ys" "list_all2 (\<lambda>x y. jcs_sorted x = Inr y) ys zs"
    by (cases w rule: jcs_sorted.cases) (auto simp: jcs_sorted_object jcs_sorted_array simp del: jcs_sorted.simps(1,2))
  with s 2 have "list_all2 same_value xs ys"
    by (auto simp: list_all2_conv_all_nth list_all_length)
  with w show ?case by (auto intro: same_value.intros)
qed (auto simp: jcs_sorted_leaf intro: same_value.intros)

lemma same_value_refl: "same_value v v"
proof (induction v)
  case (JObject m)
  have "same_value v w" if "map_of m k = Some v" "map_of m k = Some w" for k v w
    using that JObject [of "(k, v)" v] map_of_SomeD [of m k v] by auto
  then show ?case by (auto intro: same_value.intros)
qed (auto intro!: same_value.intros simp: list_all2_same)

lemma jcs_bytes_same_members:
  assumes "map_of m = map_of m'" and "jwf (JObject m)" and "jwf (JObject m')"
  shows "jcs_bytes L (JObject m) = jcs_bytes L (JObject m')"
proof -
  have "same_value (JObject m) (JObject m')"
    using assms(1) by (auto intro!: same_value.intros same_value_refl)
  with assms(2,3) show ?thesis by (simp only: jcs_bytes_def same_value_jcs_sorted)
qed

lemma jcs_sorted_idem: "jcs_sorted v = Inr s \<Longrightarrow> jcs_canonical s \<and> jcs_sorted s = Inr s"
proof (induction v arbitrary: s rule: jcs_sorted.induct)
  case (1 m)
  from 1(2) obtain ms where s: "s = JObject ms"
    and m: "list_all2 (\<lambda>(k, v) (k', v'). k' = k \<and> is_ascii k \<and> jcs_sorted v = Inr v') (sort_key fst m) ms"
    unfolding jcs_sorted_object by blast
  have keys: "map fst ms = map fst (sort_key fst m)" by (rule list_all2_fst [OF m])
  then have sorted: "sorted (map fst ms)" by simp
  have members: "is_ascii k \<and> jcs_canonical u \<and> jcs_sorted u = Inr u" if "(k, u) \<in> set ms" for k u
  proof -
    from list_all2_member [OF m that]
    obtain v where "(k, v) \<in> set (sort_key fst m)" "is_ascii k" "jcs_sorted v = Inr u" by blast
    with 1(1) show ?thesis by blast
  qed
  have "list_all2 (\<lambda>(k, v) (k', v'). k' = k \<and> is_ascii k \<and> jcs_sorted v = Inr v') ms ms"
    using members by (force simp: list_all2_same)
  with s sorted members show ?case
    by (auto simp: jcs_sorted_object sort_key_id_if_sorted list_all_iff simp del: jcs_sorted.simps)
next
  case (2 xs)
  then obtain ys where s: "s = JArray ys" and ys: "list_all2 (\<lambda>x y. jcs_sorted x = Inr y) xs ys"
    unfolding jcs_sorted_array by blast
  have "jcs_canonical y \<and> jcs_sorted y = Inr y" if "y \<in> set ys" for y
    using list_all2_set2 [OF ys that] 2(1) by blast
  with s show ?case
    by (auto simp: jcs_sorted_array list_all2_same list_all_iff simp del: jcs_sorted.simps)
qed auto

lemma jcs_sorted_jwf: "jcs_sorted v = Inr s \<Longrightarrow> jwf v \<Longrightarrow> jwf s"
proof (induction v arbitrary: s rule: jcs_sorted.induct)
  case (1 m)
  from 1(2) obtain ms where s: "s = JObject ms"
    and m: "list_all2 (\<lambda>(k, v) (k', v'). k' = k \<and> is_ascii k \<and> jcs_sorted v = Inr v') (sort_key fst m) ms"
    unfolding jcs_sorted_object by blast
  have "hm_wf ms" using 1(3) list_all2_fst [OF m] by (simp add: hm_wf_sort)
  moreover have "jwf u" if "(k, u) \<in> set ms" for k u
  proof -
    from list_all2_member [OF m that]
    obtain v where "(k, v) \<in> set (sort_key fst m)" "is_ascii k" "jcs_sorted v = Inr u" by blast
    with 1(1,3) show ?thesis by (force simp: list_all_iff)
  qed
  ultimately show ?case using s by (auto simp: list_all_iff)
next
  case (2 xs)
  then obtain ys where "s = JArray ys" "list_all2 (\<lambda>x y. jcs_sorted x = Inr y) xs ys"
    unfolding jcs_sorted_array by blast
  with 2 show ?case
    by (auto simp: list_all_iff dest: list_all2_set2)
qed auto

lemma jcs_bytes_same_value:
  assumes "to_vec_inj L" and "jwf v" and "jwf w" and "jcs_bytes L v = Inr b" and "jcs_bytes L w = Inr b"
  shows "same_value v w"
proof -
  from assms(4) obtain s where s: "jcs_sorted v = Inr s" "b = to_vec L s"
    by (auto simp: jcs_bytes_def result_iffs)
  with assms(1,5) have "jcs_sorted w = Inr s"
    by (auto simp: jcs_bytes_def result_iffs to_vec_inj_def inj_eq)
  with s assms(2,3) show ?thesis by (blast intro: jcs_sorted_same_value)
qed

text \<open>Canonicalisation succeeds exactly on the values that meet the Appendix A constraints (no
  float, no member name outside ASCII, at any depth); its result has every object's members in
  ascending order of their names, is the same value up to member order, and is a fixed point.\<close>

theorem jcs_sorted_correct:
  assumes "jwf v"
  shows "(\<exists>s. jcs_sorted v = Inr s) = jcs_ok v \<and>
    (\<forall>s. jcs_sorted v = Inr s \<longrightarrow> jcs_canonical s \<and> same_value v s \<and> jcs_sorted s = Inr s)"
  using assms jcs_sorted_ok_iff jcs_sorted_idem jcs_sorted_jwf jcs_sorted_same_value by blast

theorem jcs_sorted_correct_witness:
  "jcs_canonical (JObject [(''a'', JBool True), (''b'', JNull)]) \<and>
   same_value (JObject [(''b'', JNull), (''a'', JBool True)]) (JObject [(''a'', JBool True), (''b'', JNull)])"
proof -
  have "jwf (JObject [(''b'', JNull), (''a'', JBool True)])" by simp
  moreover have "jcs_sorted (JObject [(''b'', JNull), (''a'', JBool True)])
      = Inr (JObject [(''a'', JBool True), (''b'', JNull)])"
    by code_simp
  ultimately show ?thesis using jcs_sorted_correct by blast
qed

text \<open>C18: Two values get the same JCS bytes, and so the same digest, exactly when they are equal up to
  the order of object members: member order never changes a digest, and nothing else is lost.\<close>

theorem jcs_bytes_eq_iff:
  assumes "to_vec_inj L" and "jwf v" and "jwf w" and "jcs_ok v"
  shows "jcs_bytes L v = jcs_bytes L w \<longleftrightarrow> same_value v w"
proof -
  from assms(4) obtain s where s: "jcs_sorted v = Inr s" using jcs_sorted_ok_iff by blast
  have "jcs_bytes L v = jcs_bytes L w \<longleftrightarrow> jcs_sorted w = Inr s"
    using s assms(1) by (cases "jcs_sorted w") (auto simp: jcs_bytes_def to_vec_inj_def inj_eq)
  with s assms(2,3) show ?thesis
    using same_value_jcs_sorted jcs_sorted_same_value by metis
qed

theorem jcs_bytes_eq_iff_witness:
  "jcs_bytes sample_lib (JObject [(''b'', JNull), (''a'', JBool True)])
     \<noteq> jcs_bytes sample_lib (JObject [(''a'', JBool True), (''b'', JBool True)])"
proof -
  let ?m = "[(''b'', JNull), (''a'', JBool True)]" and ?m' = "[(''a'', JBool True), (''b'', JBool True)]"
  have "\<not> same_value (JObject ?m) (JObject ?m')"
  proof
    assume "same_value (JObject ?m) (JObject ?m')"
    then have "same_value v w" if "map_of ?m k = Some v" "map_of ?m' k = Some w" for k v w
      using that unfolding same_value_object by blast
    from this [of "''b''" JNull "JBool True"] show False by (simp add: same_value_leaf)
  qed
  moreover have "jwf (JObject ?m)" "jwf (JObject ?m')" "jcs_ok (JObject ?m)"
    by (simp_all add: is_ascii_def)
  ultimately show ?thesis using jcs_bytes_eq_iff [OF sample_lib_laws(5)] by blast
qed

end
