(* ===== verification/Protocol.thy ===== *)
theory Protocol
  imports Jcs
begin

text \<open>
  The ACI wire types and the attestation statement (\<open>crates/aci-protocol/src/types.rs\<close>,
  \<open>identity.rs\<close> and \<open>receipt.rs\<close>): the workload keyset and its TLS candidates for a
  host, the attestation report, the statement bytes a TEE quote binds, and the bytes a receipt
  signature covers. The lemmas show that the statement determines the keyset digest and the nonce
  it was built from, and that a receipt's signature member never enters its own signing input.
\<close>

section \<open>Types\<close>

record keyed_public_key =
  key_id :: string
  algo :: string
  public_key_hex :: string

record tls_spki =
  spki_sha256_hex :: string
  spki_domain :: "string option"

record workload_keyset =
  subject :: "string option"
  not_after :: u64
  receipt_signing_keys :: "keyed_public_key list"
  e2ee_public_keys :: "keyed_public_key list"
  tls_public_keys :: "tls_spki list"

record source_provenance =
  repo_url :: "string option"
  repo_commit :: "string option"
  image_digest :: "string option"
  image_provenance :: "json option"

record service_capabilities =
  supported_e2ee_versions :: "string list"
  supported_multipart_constraint_endpoints :: "string list"
  serving :: string

record attestation_envelope =
  tee_type :: string
  env_workload_keyset :: json
  report_data_hex :: string
  env_source_provenance :: source_provenance
  env_evidence :: json

record attestation_report =
  api_version :: string
  report_keyset_digest :: string
  attestation :: attestation_envelope
  report_service_capabilities :: service_capabilities

definition is_expired_at :: "workload_keyset \<Rightarrow> u64 \<Rightarrow> bool" where
  "is_expired_at ks now_secs = (now_secs \<ge> not_after ks)"

definition tls_keys_for_host :: "workload_keyset \<Rightarrow> string \<Rightarrow> tls_spki list" where
  "tls_keys_for_host ks host =
     (let host = trim_end_matches (CHR ''.'') (trim host)
      in filter (\<lambda>key. case spki_domain key of
            Some domain \<Rightarrow> eq_ignore_ascii_case (trim_end_matches (CHR ''.'') (trim domain)) host
          | None \<Rightarrow> True) (tls_public_keys ks))"

definition source_is_unknown :: "source_provenance \<Rightarrow> bool" where
  "source_is_unknown sp = (repo_url sp = None \<and> repo_commit sp = None \<and> image_digest sp = None
     \<and> image_provenance sp = None)"

definition default_capabilities :: service_capabilities where
  "default_capabilities = \<lparr>supported_e2ee_versions = [],
     supported_multipart_constraint_endpoints = [], serving = ''aggregator''\<rparr>"

section \<open>The attestation statement\<close>

datatype statement_error = KeysetDigest | Nonce

definition REPORT_DATA_PURPOSE :: string where
  "REPORT_DATA_PURPOSE = ''aci.report_data.v1''"

definition NONCE_LEN :: nat where
  "NONCE_LEN = 64"

definition workload_keyset_digest :: "'x lib_scheme \<Rightarrow> json \<Rightarrow> jcs_error + string" where
  "workload_keyset_digest L keyset = and_then (jcs_bytes L keyset) (\<lambda>b. Inr (sha256_hex L b))"

definition is_valid_nonce :: "string \<Rightarrow> bool" where
  "is_valid_nonce nonce = (length nonce = NONCE_LEN \<and> list_all is_lower_hex nonce)"

definition attestation_statement :: "string \<Rightarrow> string option \<Rightarrow> statement_error + bytes" where
  \<open>attestation_statement keyset_digest nonce =
     (let hex = (case strip_prefix ''sha256:'' keyset_digest of Some h \<Rightarrow> h | None \<Rightarrow> [])
      in if length hex \<noteq> 64 \<or> \<not> list_all is_lower_hex hex then Inl KeysetDigest
         else and_then
           (case nonce of
              Some n \<Rightarrow> if is_valid_nonce n then Inr (''"'' @ n @ ''"'') else Inl Nonce
            | None \<Rightarrow> Inr ''null'')
           (\<lambda>nonce_member.
              Inr (''{"keyset_digest":"'' @ keyset_digest @ ''","nonce":'' @ nonce_member
                @ '',"purpose":"'' @ REPORT_DATA_PURPOSE @ ''"}'')))\<close>

definition report_data :: "'x lib_scheme \<Rightarrow> bytes \<Rightarrow> bytes" where
  "report_data L statement = sha256_raw L statement"

definition report_data_slot :: "bytes \<Rightarrow> bytes" where
  "report_data_slot rd = take 32 rd @ replicate 32 (CHR 0x00)"

section \<open>Receipt signing input\<close>

definition receipt_signing_input :: "'x lib_scheme \<Rightarrow> json \<Rightarrow> jcs_error + bytes" where
  "receipt_signing_input L document =
     (case document of
        JObject m \<Rightarrow> jcs_bytes L (JObject (obj_remove ''signature'' m))
      | _ \<Rightarrow> jcs_bytes L document)"

section \<open>Lemmas\<close>

definition valid_digest :: "string \<Rightarrow> bool" where
  "valid_digest d = (\<exists>h. d = ''sha256:'' @ h \<and> length h = 64 \<and> list_all is_lower_hex h)"

definition valid_nonce_opt :: "string option \<Rightarrow> bool" where
  "valid_nonce_opt n = (case n of None \<Rightarrow> True | Some x \<Rightarrow> is_valid_nonce x)"

definition nonce_member :: "string option \<Rightarrow> string" where
  \<open>nonce_member n = (case n of None \<Rightarrow> ''null'' | Some x \<Rightarrow> ''"'' @ x @ ''"'')\<close>

lemma attestation_statement_Inr:
  "attestation_statement d n = Inr s \<longleftrightarrow> valid_digest d \<and> valid_nonce_opt n \<and>
     s = ''{\"keyset_digest\":\"'' @ d @ ''\",\"nonce\":'' @ nonce_member n
         @ '',\"purpose\":\"'' @ REPORT_DATA_PURPOSE @ ''\"}''"
proof (cases "strip_prefix ''sha256:'' d")
  case None
  then have "\<not> valid_digest d"
    unfolding valid_digest_def by (metis option.distinct(1) strip_prefix_Some)
  with None show ?thesis by (simp add: attestation_statement_def)
next
  case (Some h)
  then have "d = ''sha256:'' @ h" by (simp only: strip_prefix_Some)
  then have "valid_digest d \<longleftrightarrow> length h = 64 \<and> list_all is_lower_hex h"
    by (auto simp: valid_digest_def)
  with Some show ?thesis
    by (auto simp: attestation_statement_def valid_nonce_opt_def nonce_member_def result_iffs
        split: option.splits if_splits)
qed

lemma valid_digest_length: "valid_digest d \<Longrightarrow> length d = 71"
  by (auto simp: valid_digest_def)

lemma nonce_member_inj:
  assumes "valid_nonce_opt n" and "valid_nonce_opt n'"
    and "nonce_member n @ r = nonce_member n' @ r'"
  shows "n = n'"
proof (cases n; cases n')
  fix x y assume "n = Some x" "n' = Some y"
  with assms show ?thesis by (simp add: nonce_member_def valid_nonce_opt_def is_valid_nonce_def)
qed (use assms in \<open>auto simp: nonce_member_def\<close>)

lemma sha256_hex_valid: "sha256_len L \<Longrightarrow> hex_ok L \<Longrightarrow> valid_digest (sha256_hex L b)"
  by (auto simp: valid_digest_def sha256_hex_def sha256_len_def hex_ok_def)

text \<open>The attestation statement is built exactly when the digest is \<open>sha256:\<close> and 64 lowercase
  hex characters and the nonce, if any, is 64 lowercase hex characters; otherwise the error names
  the offending input, the digest first.\<close>

theorem attestation_statement_accepts:
  "((\<exists>s. attestation_statement d n = Inr s) = (valid_digest d \<and> valid_nonce_opt n)) \<and>
   (attestation_statement d n = Inl KeysetDigest) = (\<not> valid_digest d) \<and>
   (attestation_statement d n = Inl Nonce) = (valid_digest d \<and> \<not> valid_nonce_opt n)"
proof (cases "strip_prefix ''sha256:'' d")
  case None
  then have "\<not> valid_digest d"
    unfolding valid_digest_def by (metis option.distinct(1) strip_prefix_Some)
  with None show ?thesis by (simp add: attestation_statement_def)
next
  case (Some h)
  then have "d = ''sha256:'' @ h" by (simp only: strip_prefix_Some)
  then have "valid_digest d \<longleftrightarrow> length h = 64 \<and> list_all is_lower_hex h"
    by (auto simp: valid_digest_def)
  with Some show ?thesis
    by (cases n) (auto simp: attestation_statement_def valid_nonce_opt_def)
qed

lemma attestation_statement_determines:
  assumes "attestation_statement d n = Inr s" and "attestation_statement d' n' = Inr s"
  shows "d = d' \<and> n = n'"
proof -
  from assms have v: "valid_digest d" "valid_digest d'" "valid_nonce_opt n" "valid_nonce_opt n'"
    by (simp_all add: attestation_statement_Inr)
  from assms have "d @ ''\",\"nonce\":'' @ nonce_member n @ '',\"purpose\":\"'' @ REPORT_DATA_PURPOSE @ ''\"}''
      = d' @ ''\",\"nonce\":'' @ nonce_member n' @ '',\"purpose\":\"'' @ REPORT_DATA_PURPOSE @ ''\"}''"
    by (simp add: attestation_statement_Inr)
  then have "d = d'" and "nonce_member n @ '',\"purpose\":\"'' @ REPORT_DATA_PURPOSE @ ''\"}''
      = nonce_member n' @ '',\"purpose\":\"'' @ REPORT_DATA_PURPOSE @ ''\"}''"
    using valid_digest_length [OF v(1)] valid_digest_length [OF v(2)] by (simp_all add: append_eq_append_conv)
  with nonce_member_inj [OF v(3,4)] show ?thesis by blast
qed

text \<open>The statement bytes a quote binds determine the keyset digest and the nonce they were built
  from: no digest and no nonce can be chosen so that another pair yields the same bytes.\<close>

theorem attestation_statement_inj:
  assumes "attestation_statement d n = Inr s" and "attestation_statement d' n' = Inr s"
  shows "d = d' \<and> n = n'"
  using assms by (rule attestation_statement_determines)

theorem attestation_statement_inj_witness:
  "attestation_statement (''sha256:'' @ replicate 64 (CHR ''a'')) None
     \<noteq> attestation_statement (''sha256:'' @ replicate 64 (CHR ''a'')) (Some (replicate 64 (CHR ''b'')))"
proof
  let ?d = "''sha256:'' @ replicate 64 (CHR ''a'')"
  assume eq: "attestation_statement ?d None = attestation_statement ?d (Some (replicate 64 (CHR ''b'')))"
  have "valid_digest ?d"
    by (simp add: valid_digest_def is_lower_hex_def is_ascii_digit_def list_all_iff)
  then obtain s where "attestation_statement ?d None = Inr s"
    by (simp add: attestation_statement_Inr valid_nonce_opt_def)
  with eq show False using attestation_statement_inj [of ?d None s ?d "Some (replicate 64 (CHR ''b''))"] by simp
qed

lemma jwf_obj_remove:
  "jwf (JObject m) \<Longrightarrow> jwf (JObject (obj_remove k m))"
  by (auto simp: obj_remove_wf set_obj_remove list_all_iff)

lemma jwf_update_remove:
  "jwf (JObject m) \<Longrightarrow> jwf (JObject (obj_remove k (AList.update k x m)))"
proof -
  assume wf: "jwf (JObject m)"
  let ?m = "AList.update k x m"
  have m: "hm_wf m" "hm_wf ?m" using wf by simp_all
  have "(k', v) \<in> set m" if "(k', v) \<in> set ?m" "k' \<noteq> k" for k' v
  proof -
    from that(1) m(2) have "map_of ?m k' = Some v" by (simp only: hm_wf_map_of)
    with that(2) have "map_of m k' = Some v" by simp
    then show ?thesis by (rule map_of_SomeD)
  qed
  with wf m show ?thesis
    by (auto simp: obj_remove_wf set_obj_remove list_all_iff)
qed

lemma receipt_signing_input_signature:
  assumes "jwf (JObject m)"
  shows "receipt_signing_input L (JObject (AList.update ''signature'' x m))
     = receipt_signing_input L (JObject m)"
proof -
  from assms have "hm_wf m" by simp
  then have "map_of (obj_remove ''signature'' (AList.update ''signature'' x m))
      = map_of (obj_remove ''signature'' m)"
    by (simp add: obj_remove_map_of)
  from jcs_bytes_same_members [OF this jwf_update_remove [OF assms] jwf_obj_remove [OF assms]]
  show ?thesis by (simp only: receipt_signing_input_def json.case)
qed

end
