(* ===== verification/Report.thy ===== *)
theory Report
  imports Protocol
begin

text \<open>
  Report binding (\<open>crates/aci-verify/src/report.rs\<close> and \<open>lib.rs\<close>): the chain keyset JCS,
  keyset digest, statement, report data, and the gate a relying party runs over it. The lemmas show
  what an accepted report guarantees, that the 32 report-data bytes a quote carries determine the
  keyset and the nonce unless SHA-256 collides, and that the gate accepts an honestly built report.
  Parsing the keyset object into its type is \<open>parse_keyset\<close>, a parameter.
\<close>

section \<open>Hex\<close>

datatype hex_fault = BadHex | WrongLength nat

definition decode_hex :: "'x lib_scheme \<Rightarrow> string \<Rightarrow> hex_fault + bytes" where
  "decode_hex L v =
     (let v = (case strip_prefix ''0x'' v of Some r \<Rightarrow> r | None \<Rightarrow> v)
      in ok_or BadHex (hex_decode L v))"

definition decode_hex_32 :: "'x lib_scheme \<Rightarrow> string \<Rightarrow> hex_fault + bytes" where
  "decode_hex_32 L v =
     and_then (decode_hex L v) (\<lambda>b. if length b = 32 then Inr b else Inl (WrongLength (length b)))"

section \<open>The binding chain\<close>

datatype keyset_fault = NotCanonical jcs_error | NotParsed | KeyInTwoRoles string

datatype report_error =
    UnsupportedApiVersion string
  | InvalidKeyset keyset_fault
  | WorkloadKeysetDigestMismatch string string
  | ReportDataMismatch string string
  | InvalidReportDataHex hex_fault
  | InvalidNonce statement_error
  | KeysetExpired

record report_binding =
  rb_keyset_digest :: string
  rb_keyset :: workload_keyset
  rb_report_data :: bytes
  rb_statement :: bytes
  rb_keyset_jcs :: bytes

record validated_report =
  vr_keyset_digest :: string
  vr_keyset :: workload_keyset
  vr_report_data :: bytes
  vr_evidence :: "json option"

definition sha256_hex_raw :: "'x lib_scheme \<Rightarrow> bytes \<Rightarrow> string" where
  "sha256_hex_raw L b = hex_encode L (sha256_raw L b)"

definition verify_report_binding ::
  "'x lib_scheme \<Rightarrow> (json \<Rightarrow> workload_keyset option) \<Rightarrow> attestation_report \<Rightarrow> string option
     \<Rightarrow> report_error + report_binding" where
  "verify_report_binding L parse_keyset report nonce =
     and_then (map_err (\<lambda>e. InvalidKeyset (NotCanonical e))
         (jcs_bytes L (env_workload_keyset (attestation report)))) (\<lambda>keyset_jcs.
     let keyset_digest = ''sha256:'' @ sha256_hex_raw L keyset_jcs in
     and_then (ensure (keyset_digest = report_keyset_digest report)
         (WorkloadKeysetDigestMismatch keyset_digest (report_keyset_digest report))) (\<lambda>_.
     and_then (ok_or (InvalidKeyset NotParsed)
         (parse_keyset (env_workload_keyset (attestation report)))) (\<lambda>keyset.
     and_then (map_err InvalidNonce (attestation_statement keyset_digest nonce)) (\<lambda>statement.
     let rdata = report_data L statement in
     and_then (map_err InvalidReportDataHex
         (decode_hex_32 L (report_data_hex (attestation report)))) (\<lambda>reported.
     and_then (ensure (reported = rdata)
         (ReportDataMismatch (hex_encode L rdata) (hex_encode L reported))) (\<lambda>_.
     Inr \<lparr>rb_keyset_digest = keyset_digest, rb_keyset = keyset, rb_report_data = rdata,
          rb_statement = statement, rb_keyset_jcs = keyset_jcs\<rparr>))))))"

definition raw_evidence :: "'x lib_scheme \<Rightarrow> bytes \<Rightarrow> string \<Rightarrow> string option \<Rightarrow> json" where
  "raw_evidence L data content_type source_url =
     (let evidence = JObject [(''digest'', JString (sha256_hex L data)),
            (''data'', JString (''data:'' @ content_type @ '';base64,'' @ b64_encode L data))]
      in case source_url of
           None \<Rightarrow> evidence
         | Some u \<Rightarrow> jset evidence ''source_url'' (JString u))"

definition validate_aci_report_binding ::
  "'x lib_scheme \<Rightarrow> (json \<Rightarrow> workload_keyset option) \<Rightarrow> attestation_report \<Rightarrow> string option \<Rightarrow> u64
     \<Rightarrow> bytes option \<Rightarrow> report_error + validated_report" where
  "validate_aci_report_binding L parse_keyset report nonce now_secs raw_body =
     (if api_version report \<noteq> ''aci/1'' then Inl (UnsupportedApiVersion (api_version report))
      else and_then (verify_report_binding L parse_keyset report nonce) (\<lambda>b.
        let keyset = rb_keyset b in
        if is_expired_at keyset now_secs then Inl KeysetExpired
        else case List.find (\<lambda>signing. list_ex (\<lambda>e2ee. public_key_hex e2ee = public_key_hex signing)
                (e2ee_public_keys keyset)) (receipt_signing_keys keyset) of
            Some signing \<Rightarrow> Inl (InvalidKeyset (KeyInTwoRoles (key_id signing)))
          | None \<Rightarrow>
              Inr \<lparr>vr_keyset_digest = rb_keyset_digest b, vr_keyset = keyset,
                   vr_report_data = rb_report_data b,
                   vr_evidence = map_option (\<lambda>body. raw_evidence L body ''application/json'' None) raw_body\<rparr>))"

section \<open>Lemmas\<close>

lemma verify_report_binding_Inr:
  "verify_report_binding L P report nonce = Inr b \<longleftrightarrow>
     jcs_bytes L (env_workload_keyset (attestation report)) = Inr (rb_keyset_jcs b) \<and>
     rb_keyset_digest b = sha256_hex L (rb_keyset_jcs b) \<and>
     rb_keyset_digest b = report_keyset_digest report \<and>
     P (env_workload_keyset (attestation report)) = Some (rb_keyset b) \<and>
     attestation_statement (rb_keyset_digest b) nonce = Inr (rb_statement b) \<and>
     rb_report_data b = sha256 L (rb_statement b) \<and>
     decode_hex_32 L (report_data_hex (attestation report)) = Inr (rb_report_data b)"
  by (cases b) (auto simp: verify_report_binding_def result_iffs Let_def sha256_hex_def sha256_raw_def
      sha256_hex_raw_def report_data_def)

lemma find_None_roles:
  "List.find (\<lambda>s. list_ex (\<lambda>e. f e = f s) es) ss = None \<longleftrightarrow> f ` set ss \<inter> f ` set es = {}"
  by (auto simp: find_None_iff list_ex_iff image_iff) metis

lemma validate_aci_report_binding_Inr:
  "validate_aci_report_binding L P report nonce now body = Inr v \<longleftrightarrow>
     api_version report = ''aci/1'' \<and>
     (\<exists>b. verify_report_binding L P report nonce = Inr b \<and>
        now < not_after (rb_keyset b) \<and>
        public_key_hex ` set (receipt_signing_keys (rb_keyset b))
          \<inter> public_key_hex ` set (e2ee_public_keys (rb_keyset b)) = {} \<and>
        v = \<lparr>vr_keyset_digest = rb_keyset_digest b, vr_keyset = rb_keyset b,
             vr_report_data = rb_report_data b,
             vr_evidence = map_option (\<lambda>d. raw_evidence L d ''application/json'' None) body\<rparr>)"
  unfolding validate_aci_report_binding_def
  by (auto simp: result_iffs Let_def is_expired_at_def find_None_roles not_le
      split: option.splits if_splits)

lemma lower_hex_no_0x: "list_all is_lower_hex s \<Longrightarrow> strip_prefix ''0x'' s = None"
  by (cases s rule: list.exhaust; cases "tl s")
    (auto simp: is_lower_hex_def is_ascii_digit_def)

lemma decode_hex_encode: "hex_ok L \<Longrightarrow> decode_hex L (hex_encode L b) = Inr b"
  by (simp add: decode_hex_def hex_ok_def lower_hex_no_0x)

lemma decode_hex_32_encode: "hex_ok L \<Longrightarrow> length b = 32 \<Longrightarrow> decode_hex_32 L (hex_encode L b) = Inr b"
  by (simp add: decode_hex_32_def decode_hex_encode)

lemma sha256_hex_inj:
  "hex_ok L \<Longrightarrow> sha256_hex L a = sha256_hex L b \<Longrightarrow> a = b \<or> collision (sha256 L) a b"
  by (auto simp: sha256_hex_def hex_ok_inj collision_def)

lemma honest_report_binds:
  assumes "hex_ok L" and "sha256_len L"
    and "workload_keyset_digest L (env_workload_keyset (attestation report)) = Inr (report_keyset_digest report)"
    and "P (env_workload_keyset (attestation report)) = Some ks"
    and "attestation_statement (report_keyset_digest report) nonce = Inr s"
    and "report_data_hex (attestation report) = hex_encode L (report_data L s)"
  shows "\<exists>j. verify_report_binding L P report nonce = Inr \<lparr>rb_keyset_digest = report_keyset_digest report,
      rb_keyset = ks, rb_report_data = report_data L s, rb_statement = s, rb_keyset_jcs = j\<rparr>"
proof -
  from assms(3) obtain j where "jcs_bytes L (env_workload_keyset (attestation report)) = Inr j"
    and "report_keyset_digest report = sha256_hex L j"
    by (auto simp: workload_keyset_digest_def result_iffs)
  moreover have "decode_hex_32 L (report_data_hex (attestation report)) = Inr (sha256 L s)"
    using assms(1,2,6) by (simp add: report_data_def sha256_raw_def decode_hex_32_encode sha256_len_def)
  ultimately show ?thesis
    using assms(4,5) by (auto simp: verify_report_binding_Inr report_data_def sha256_raw_def)
qed

text \<open>A concrete report, for the witnesses.\<close>

definition sample_keyset :: workload_keyset where
  "sample_keyset = \<lparr>subject = None, not_after = 2000, receipt_signing_keys = [\<lparr>key_id = ''r1'',
     algo = ''ed25519'', public_key_hex = ''aa''\<rparr>], e2ee_public_keys = [], tls_public_keys = []\<rparr>"

definition sample_digest :: string where
  "sample_digest = sha256_hex sample_lib (to_vec sample_lib JNull)"

definition sample_statement :: bytes where
  \<open>sample_statement = ''{"keyset_digest":"'' @ sample_digest @ ''","nonce":'' @ ''null''
     @ '',"purpose":"'' @ REPORT_DATA_PURPOSE @ ''"}''\<close>

definition sample_report :: attestation_report where
  "sample_report = \<lparr>api_version = ''aci/1'', report_keyset_digest = sample_digest,
     attestation = \<lparr>tee_type = ''tdx'', env_workload_keyset = JNull,
       report_data_hex = hex_encode sample_lib (report_data sample_lib sample_statement),
       env_source_provenance = \<lparr>repo_url = None, repo_commit = None, image_digest = None,
         image_provenance = None\<rparr>, env_evidence = JNull\<rparr>,
     report_service_capabilities = default_capabilities\<rparr>"

definition sample_validated :: validated_report where
  "sample_validated = \<lparr>vr_keyset_digest = sample_digest, vr_keyset = sample_keyset,
     vr_report_data = report_data sample_lib sample_statement, vr_evidence = None\<rparr>"

lemma sample_facts:
  "workload_keyset_digest sample_lib JNull = Inr sample_digest"
  "attestation_statement sample_digest None = Inr sample_statement"
  by (simp_all add: workload_keyset_digest_def jcs_bytes_def sample_digest_def attestation_statement_Inr
      sha256_hex_valid sample_lib_laws valid_nonce_opt_def nonce_member_def sample_statement_def)

lemma sample_report_binds:
  "\<exists>j. verify_report_binding sample_lib (\<lambda>_. Some sample_keyset) sample_report None =
     Inr \<lparr>rb_keyset_digest = sample_digest, rb_keyset = sample_keyset,
       rb_report_data = report_data sample_lib sample_statement, rb_statement = sample_statement,
       rb_keyset_jcs = j\<rparr>"
  using honest_report_binds [of sample_lib sample_report "\<lambda>_. Some sample_keyset" sample_keyset None sample_statement]
  by (simp add: sample_lib_laws sample_facts sample_report_def)

lemma sample_report_validates:
  "validate_aci_report_binding sample_lib (\<lambda>_. Some sample_keyset) sample_report None 0 None
     = Inr sample_validated"
proof -
  obtain j where "verify_report_binding sample_lib (\<lambda>_. Some sample_keyset) sample_report None =
     Inr \<lparr>rb_keyset_digest = sample_digest, rb_keyset = sample_keyset,
       rb_report_data = report_data sample_lib sample_statement, rb_statement = sample_statement,
       rb_keyset_jcs = j\<rparr>"
    using sample_report_binds by blast
  then show ?thesis
    by (simp add: validate_aci_report_binding_Inr sample_validated_def)
      (simp add: sample_report_def sample_keyset_def)
qed

text \<open>C1: What acceptance of an attestation report guarantees: the version is \<open>aci/1\<close>, the digest is
  the SHA-256 of the served keyset's JCS bytes and is the one the report claims, the report data is
  the SHA-256 of the statement over that digest and the caller's nonce and is what the report
  carries, the keyset has not expired, and no key serves both the receipt and the E2EE role.\<close>

theorem validate_report_sound:
  assumes "validate_aci_report_binding L P report nonce now body = Inr v"
  shows "api_version report = ''aci/1'' \<and>
    P (env_workload_keyset (attestation report)) = Some (vr_keyset v) \<and>
    (\<exists>j s. jcs_bytes L (env_workload_keyset (attestation report)) = Inr j \<and>
       vr_keyset_digest v = sha256_hex L j \<and> report_keyset_digest report = sha256_hex L j \<and>
       attestation_statement (vr_keyset_digest v) nonce = Inr s \<and>
       vr_report_data v = sha256 L s \<and>
       decode_hex_32 L (report_data_hex (attestation report)) = Inr (vr_report_data v)) \<and>
    now < not_after (vr_keyset v) \<and>
    public_key_hex ` set (receipt_signing_keys (vr_keyset v))
      \<inter> public_key_hex ` set (e2ee_public_keys (vr_keyset v)) = {}"
proof -
  from assms obtain b where "verify_report_binding L P report nonce = Inr b"
    and "api_version report = ''aci/1''" and "now < not_after (rb_keyset b)"
    and "public_key_hex ` set (receipt_signing_keys (rb_keyset b))
      \<inter> public_key_hex ` set (e2ee_public_keys (rb_keyset b)) = {}"
    and "vr_keyset_digest v = rb_keyset_digest b" and "vr_keyset v = rb_keyset b"
    and "vr_report_data v = rb_report_data b"
    unfolding validate_aci_report_binding_Inr by auto
  then show ?thesis unfolding verify_report_binding_Inr by metis
qed

theorem validate_report_sound_witness:
  "validate_aci_report_binding sample_lib (\<lambda>_. Some sample_keyset) sample_report None 0 None = Inr sample_validated
   \<and> api_version sample_report = ''aci/1'' \<and> 0 < not_after (vr_keyset sample_validated)"
  using sample_report_validates validate_report_sound [OF sample_report_validates] by blast

text \<open>C6: The report data a quote carries binds the keyset and the nonce: if two reports are accepted
  with the same report data, they were checked against the same nonce and carry the same keyset up to
  member order, or the two statements or the two canonical keysets are a SHA-256 collision. In
  particular a report accepted for one nonce is not accepted for another.\<close>

theorem report_data_binds_keyset_and_nonce:
  assumes "hex_ok L" and "to_vec_inj L"
    and "jwf (env_workload_keyset (attestation report))" and "jwf (env_workload_keyset (attestation report'))"
    and "verify_report_binding L P report nonce = Inr b"
    and "verify_report_binding L P report' nonce' = Inr b'"
    and "rb_report_data b = rb_report_data b'"
  shows "nonce = nonce' \<and> same_value (env_workload_keyset (attestation report))
      (env_workload_keyset (attestation report'))
    \<or> collision (sha256 L) (rb_statement b) (rb_statement b')
    \<or> collision (sha256 L) (rb_keyset_jcs b) (rb_keyset_jcs b')"
proof (cases "rb_statement b = rb_statement b'")
  case True
  have "valid_digest (rb_keyset_digest b) \<and> valid_digest (rb_keyset_digest b')"
    using assms(5,6) by (auto simp: verify_report_binding_Inr attestation_statement_Inr)
  have eq: "rb_keyset_digest b = rb_keyset_digest b' \<and> nonce = nonce'"
    using attestation_statement_determines True assms(5,6) by (auto simp: verify_report_binding_Inr)
  then have "rb_keyset_jcs b = rb_keyset_jcs b' \<or> collision (sha256 L) (rb_keyset_jcs b) (rb_keyset_jcs b')"
    using assms(1,5,6) by (auto simp: verify_report_binding_Inr dest!: sha256_hex_inj)
  with eq assms show ?thesis
    by (auto simp: verify_report_binding_Inr intro: jcs_bytes_same_value)
next
  case False
  with assms(5-7) show ?thesis by (auto simp: verify_report_binding_Inr collision_def)
qed

theorem report_data_binds_keyset_and_nonce_witness:
  "\<exists>b. verify_report_binding sample_lib (\<lambda>_. Some sample_keyset) sample_report None = Inr b \<and>
     (None = (None :: string option) \<and> same_value (env_workload_keyset (attestation sample_report))
        (env_workload_keyset (attestation sample_report))
      \<or> collision (sha256 sample_lib) (rb_statement b) (rb_statement b)
      \<or> collision (sha256 sample_lib) (rb_keyset_jcs b) (rb_keyset_jcs b))"
proof -
  obtain b where b: "verify_report_binding sample_lib (\<lambda>_. Some sample_keyset) sample_report None = Inr b"
    using sample_report_binds by blast
  have "jwf (env_workload_keyset (attestation sample_report))" by (simp add: sample_report_def)
  from report_data_binds_keyset_and_nonce [OF sample_lib_laws(3,5) this this b b] b
  show ?thesis by blast
qed

text \<open>A report built as the gateway builds it is accepted: for a keyset within the constraints and
  not expired, with keys kept apart by role, and a nonce of the required form, the report that
  carries the keyset's digest and the hex of the statement's SHA-256 passes the gate, with that
  digest, keyset and report data as the result.\<close>

lemma honest_report_accepted:
  assumes "hex_ok L" and "sha256_len L"
    and "api_version report = ''aci/1''"
    and "workload_keyset_digest L (env_workload_keyset (attestation report)) = Inr (report_keyset_digest report)"
    and "P (env_workload_keyset (attestation report)) = Some ks"
    and "attestation_statement (report_keyset_digest report) nonce = Inr s"
    and "report_data_hex (attestation report) = hex_encode L (report_data L s)"
    and "now < not_after ks"
    and "public_key_hex ` set (receipt_signing_keys ks) \<inter> public_key_hex ` set (e2ee_public_keys ks) = {}"
  shows "validate_aci_report_binding L P report nonce now None =
    Inr \<lparr>vr_keyset_digest = report_keyset_digest report, vr_keyset = ks,
         vr_report_data = report_data L s, vr_evidence = None\<rparr>"
proof -
  from assms obtain j where "verify_report_binding L P report nonce = Inr \<lparr>rb_keyset_digest = report_keyset_digest report,
      rb_keyset = ks, rb_report_data = report_data L s, rb_statement = s, rb_keyset_jcs = j\<rparr>"
    using honest_report_binds by metis
  with assms(3,8,9) show ?thesis by (simp add: validate_aci_report_binding_Inr)
qed

lemma honest_report_accepted_witness:
  "validate_aci_report_binding sample_lib (\<lambda>_. Some sample_keyset) sample_report None 1999 None = Inr sample_validated"
  using honest_report_accepted [of sample_lib sample_report "\<lambda>_. Some sample_keyset" sample_keyset None
      sample_statement 1999]
  by (simp add: sample_lib_laws sample_facts sample_report_def sample_validated_def)
    (simp add: sample_keyset_def)

end
