(* ===== verification/Dstack.thy ===== *)
theory Dstack
  imports Report Samples
begin

text \<open>
  dstack measurements and key custody (\<open>crates/aci-verify/src/dstack.rs\<close>): replaying the event log
  into RTMR3, the events looked up in it, the compose hash and the app id, and the KMS signature
  chain behind the receipt key. Parsing the log text is \<open>parse_log\<close>; the secp256k1 operations are
  the fields of \<open>kms\<close>. The lemmas show what a replay that matches a quote determines (and what it
  does not), that a lookup is the unique event before \<open>system-ready\<close>, and what an accepted compose
  measurement or custody chain establishes.
\<close>

section \<open>The event log\<close>

definition DSTACK_RUNTIME_EVENT_TYPE :: u32 where
  "DSTACK_RUNTIME_EVENT_TYPE = 0x08000001"

record dstack_event_log =
  imr :: u32
  event_type :: u32
  digest :: string
  event :: string
  event_payload :: string

datatype event_log_fault = LogHex hex_fault | MultipleEvents string | RtmrNot48

datatype dstack_error =
    MissingEventLog
  | EventLogUnparsable string
  | EventLogInvalid event_log_fault
  | RequiresTdxQuote
  | Rtmr3Mismatch
  | EventLogRejected event_log_fault
  | NoSuchEvent string
  | PayloadHex hex_fault
  | ComposeHashNot32
  | MissingAppCompose
  | AppComposeMismatch

text \<open>\<open>to_ne_bytes\<close> of a \<open>u32\<close> on the little-endian targets the gateway runs on.\<close>

definition to_ne_bytes :: "u32 \<Rightarrow> bytes" where
  "to_ne_bytes w = map (\<lambda>i. char_of (unat (drop_bit (8 * i) w) mod 256)) [0, 1, 2, 3]"

definition dstack_event_digest :: "'x lib_scheme \<Rightarrow> dstack_event_log \<Rightarrow> event_log_fault + bytes" where
  "dstack_event_digest L e =
     (if event_type e \<noteq> DSTACK_RUNTIME_EVENT_TYPE then map_err LogHex (decode_hex L (digest e))
      else and_then (map_err LogHex (decode_hex L (event_payload e))) (\<lambda>payload.
        Inr (sha384 L (to_ne_bytes (event_type e) @ '':'' @ event e @ '':'' @ payload))))"

text \<open>\<open>digest.resize(48, 0)\<close>, reached for shorter digests only.\<close>

definition pad48 :: "bytes \<Rightarrow> bytes" where
  "pad48 d = (if length d < 48 then d @ replicate (48 - length d) (CHR 0x00) else d)"

fun replay_loop :: "'x lib_scheme \<Rightarrow> bytes \<Rightarrow> dstack_event_log list \<Rightarrow> event_log_fault + bytes" where
  "replay_loop L mr [] = Inr mr"
| "replay_loop L mr (e # es) =
     and_then (dstack_event_digest L e) (\<lambda>d. replay_loop L (sha384 L (mr @ pad48 d)) es)"

definition replay_dstack_rtmr ::
  "'x lib_scheme \<Rightarrow> dstack_event_log list \<Rightarrow> u32 \<Rightarrow> event_log_fault + bytes" where
  "replay_dstack_rtmr L events i =
     and_then (replay_loop L (replicate 48 (CHR 0x00)) (filter (\<lambda>e. imr e = i) events)) (\<lambda>mr.
     if length mr = 48 then Inr mr else Inl RtmrNot48)"

definition verify_dstack_event_log ::
  "'x lib_scheme \<Rightarrow> (string \<Rightarrow> string + dstack_event_log list) \<Rightarrow> json \<Rightarrow> bytes option
     \<Rightarrow> dstack_error + dstack_event_log list" where
  "verify_dstack_event_log L parse_log evidence quote_rtmr3 =
     and_then (ok_or MissingEventLog (jget_str evidence ''event_log'')) (\<lambda>event_log.
     and_then (map_err EventLogUnparsable (parse_log event_log)) (\<lambda>events.
     and_then (map_err EventLogInvalid (replay_dstack_rtmr L events 3)) (\<lambda>rtmr3.
     and_then (ok_or RequiresTdxQuote quote_rtmr3) (\<lambda>q.
     if rtmr3 \<noteq> q then Inl Rtmr3Mismatch else Inr events))))"

section \<open>Looking events up\<close>

definition is_runtime_event :: "string \<Rightarrow> dstack_event_log \<Rightarrow> bool" where
  "is_runtime_event name e = (imr e = 3 \<and> event_type e = DSTACK_RUNTIME_EVENT_TYPE \<and> event e = name)"

definition runtime_event_before_system_ready ::
  "dstack_event_log list \<Rightarrow> string \<Rightarrow> event_log_fault + dstack_event_log option" where
  "runtime_event_before_system_ready events event_name =
     (case filter (is_runtime_event event_name)
         (takeWhile (\<lambda>e. \<not> is_runtime_event ''system-ready'' e) events) of
        [] \<Rightarrow> Inr None
      | [e] \<Rightarrow> Inr (Some e)
      | _ \<Rightarrow> Inl (MultipleEvents event_name))"

definition dstack_rtmr3_event ::
  "dstack_event_log list \<Rightarrow> string \<Rightarrow> event_log_fault + dstack_event_log option" where
  "dstack_rtmr3_event events event_name = runtime_event_before_system_ready events event_name"

definition verify_dstack_app_compose :: "'x lib_scheme \<Rightarrow> json \<Rightarrow> bytes \<Rightarrow> dstack_error + unit" where
  "verify_dstack_app_compose L evidence measured =
     and_then (ok_or MissingAppCompose (jget_str evidence ''app_compose'')) (\<lambda>app_compose.
     if sha256 L app_compose \<noteq> measured then Inl AppComposeMismatch else Inr ())"

definition verify_dstack_compose_measurement ::
  "'x lib_scheme \<Rightarrow> json \<Rightarrow> dstack_event_log list \<Rightarrow> dstack_error + string" where
  "verify_dstack_compose_measurement L evidence events =
     and_then (map_err EventLogRejected (dstack_rtmr3_event events ''compose-hash'')) (\<lambda>found.
     and_then (ok_or (NoSuchEvent ''compose-hash'') found) (\<lambda>measured.
     and_then (map_err PayloadHex (decode_hex L (event_payload measured))) (\<lambda>h.
     and_then (if length h = 32 then Inr h else Inl ComposeHashNot32) (\<lambda>measured_hash.
     and_then (verify_dstack_app_compose L evidence measured_hash) (\<lambda>_.
     Inr (hex_encode L measured_hash))))))"

definition dstack_app_id :: "'x lib_scheme \<Rightarrow> dstack_event_log list \<Rightarrow> dstack_error + bytes" where
  "dstack_app_id L events =
     and_then (map_err EventLogRejected (dstack_rtmr3_event events ''app-id'')) (\<lambda>found.
     and_then (ok_or (NoSuchEvent ''app-id'') found) (\<lambda>e.
     map_err PayloadHex (decode_hex L (event_payload e))))"

section \<open>Key custody\<close>

text \<open>The operations of the secp256k1 package: recovery ids, 64-byte signatures, key recovery over a
  Keccak-256 digest of the message, and SEC1 encodings (\<open>sec1\<close> is the compressed form).\<close>

record ('s, 'k) kms =
  recovery_id :: "nat \<Rightarrow> nat option"
  signature_of :: "bytes \<Rightarrow> string + 's"
  recover_key :: "bytes \<Rightarrow> 's \<Rightarrow> nat \<Rightarrow> string + 'k"
  sec1 :: "'k \<Rightarrow> bytes"
  key_of_sec1 :: "bytes \<Rightarrow> string + 'k"

datatype custody_fault =
    NoProvider
  | NoKeys
  | NoField string
  | WrongPurpose string
  | NoSignatureChain
  | ChainLength nat
  | ChainEntryNotString nat
  | CustodyHex hex_fault

datatype chain_fault =
    SignatureLength nat
  | InvalidRecoveryId nat
  | InvalidSignature string
  | RecoveryFailed string
  | KeyHex hex_fault
  | InvalidPublicKey string

datatype custody_error =
    MissingKeyCustody
  | UnsupportedKeyCustodyProvider string
  | InvalidKeyCustody custody_fault
  | MissingReceiptKeyCustody
  | ReceiptKeyCustodyMismatch
  | KmsSignatureChain chain_fault

record receipt_custody =
  cu_provider :: string
  cu_receipt_public_key :: string
  cu_purpose :: string
  cu_kms_public_key :: string
  cu_app_public_key :: string
  cu_root_public_key :: string

definition recover_k256_public_key :: "('s, 'k) kms \<Rightarrow> bytes \<Rightarrow> bytes \<Rightarrow> chain_fault + 'k" where
  "recover_k256_public_key K message signature =
     (if length signature \<noteq> 65 then Inl (SignatureLength (length signature))
      else let b = code (signature ! 64);
               b' = (if 27 \<le> b \<and> b \<le> 30 then b - 27 else b)
      in and_then (ok_or (InvalidRecoveryId b) (recovery_id K b')) (\<lambda>recid.
         and_then (map_err InvalidSignature (signature_of K (take 64 signature))) (\<lambda>sig.
         map_err RecoveryFailed (recover_key K message sig recid))))"

definition compressed_k256_public_key_hex ::
  "'x lib_scheme \<Rightarrow> ('s, 'k) kms \<Rightarrow> string \<Rightarrow> chain_fault + string" where
  "compressed_k256_public_key_hex L K key_hex =
     and_then (map_err KeyHex (decode_hex L key_hex)) (\<lambda>public_key.
     and_then (map_err InvalidPublicKey (key_of_sec1 K public_key)) (\<lambda>key.
     Inr (hex_encode L (sec1 K key))))"

definition chain_signature :: "'x lib_scheme \<Rightarrow> json list \<Rightarrow> nat \<Rightarrow> custody_error + bytes" where
  "chain_signature L signature_chain index =
     and_then (ok_or (InvalidKeyCustody (ChainEntryNotString index)) (as_str (signature_chain ! index))) (\<lambda>s.
     map_err (\<lambda>e. InvalidKeyCustody (CustodyHex e)) (decode_hex L s))"

definition RECEIPT_PURPOSE :: string where
  "RECEIPT_PURPOSE = ''aci.receipt.ed25519.v1''"

definition custody_field :: "json \<Rightarrow> string \<Rightarrow> custody_error + string" where
  "custody_field receipt name = ok_or (InvalidKeyCustody (NoField name)) (jget_str receipt name)"

text \<open>The first half of \<open>verify_dstack_kms_receipt_custody\<close>: the custody entry of the receipt key.\<close>

definition receipt_custody_entry :: "json \<Rightarrow> custody_error + json" where
  "receipt_custody_entry evidence =
     and_then (ok_or MissingKeyCustody (jget evidence ''key_custody'')) (\<lambda>key_custody.
     and_then (ok_or (InvalidKeyCustody NoProvider) (jget_str key_custody ''provider'')) (\<lambda>provider.
     if provider \<noteq> ''dstack-kms'' then Inl (UnsupportedKeyCustodyProvider provider)
     else and_then (ok_or (InvalidKeyCustody NoKeys)
         (Option.bind (jget key_custody ''keys'') as_array)) (\<lambda>keys.
     ok_or MissingReceiptKeyCustody (find (\<lambda>key. jget_str key ''role'' = Some ''receipt'') keys))))"

definition verify_dstack_kms_receipt_custody ::
  "'x lib_scheme \<Rightarrow> ('s, 'k) kms \<Rightarrow> json \<Rightarrow> workload_keyset \<Rightarrow> bytes \<Rightarrow> custody_error + receipt_custody" where
  "verify_dstack_kms_receipt_custody L K evidence keyset app_id =
     and_then (receipt_custody_entry evidence) (\<lambda>receipt.
     and_then (custody_field receipt ''public_key'') (\<lambda>public_key.
     if \<not> list_ex (\<lambda>key. public_key_hex key = public_key) (receipt_signing_keys keyset)
     then Inl ReceiptKeyCustodyMismatch
     else and_then (custody_field receipt ''kms_public_key'') (\<lambda>kms_public_key.
     and_then (custody_field receipt ''purpose'') (\<lambda>purpose.
     if purpose \<noteq> RECEIPT_PURPOSE then Inl (InvalidKeyCustody (WrongPurpose purpose))
     else and_then (ok_or (InvalidKeyCustody NoSignatureChain)
         (Option.bind (jget receipt ''signature_chain'') as_array)) (\<lambda>signature_chain.
     if length signature_chain \<noteq> 2 then Inl (InvalidKeyCustody (ChainLength (length signature_chain)))
     else and_then (chain_signature L signature_chain 0) (\<lambda>purpose_signature.
     and_then (chain_signature L signature_chain 1) (\<lambda>app_signature.
     and_then (map_err KmsSignatureChain (compressed_k256_public_key_hex L K kms_public_key)) (\<lambda>kms_compressed.
     and_then (map_err KmsSignatureChain (recover_k256_public_key K
         (purpose @ '':'' @ kms_compressed) purpose_signature)) (\<lambda>app_public_key.
     and_then (map_err KmsSignatureChain (recover_k256_public_key K
         (''dstack-kms-issued'' @ '':'' @ app_id @ sec1 K app_public_key) app_signature)) (\<lambda>root_public_key.
     and_then (map_err (\<lambda>e. InvalidKeyCustody (CustodyHex e)) (decode_hex L public_key)) (\<lambda>pk.
     Inr \<lparr>cu_provider = ''dstack-kms'', cu_receipt_public_key = hex_encode L pk, cu_purpose = purpose,
          cu_kms_public_key = kms_compressed, cu_app_public_key = hex_encode L (sec1 K app_public_key),
          cu_root_public_key = hex_encode L (sec1 K root_public_key)\<rparr>)))))))))))"

section \<open>What a lookup returns\<close>

text \<open>Position \<open>i\<close> of the log holds a runtime event with the name, and neither it nor an earlier
  position holds \<open>system-ready\<close>.\<close>

definition candidate :: "dstack_event_log list \<Rightarrow> string \<Rightarrow> nat \<Rightarrow> bool" where
  "candidate events name i = (i < length events \<and> is_runtime_event name (events ! i)
     \<and> (\<forall>j \<le> i. \<not> is_runtime_event ''system-ready'' (events ! j)))"

lemma candidate_Cons:
  "candidate (e # es) name i \<longleftrightarrow> \<not> is_runtime_event ''system-ready'' e \<and>
     (case i of 0 \<Rightarrow> is_runtime_event name e | Suc j \<Rightarrow> candidate es name j)"
  by (auto simp: candidate_def less_Suc_eq_0_disj all_conj_distrib split: nat.splits)
     (auto simp: nth_Cons split: nat.splits)

lemma filter_Cons_candidates:
  "map ((!) (e # es)) (filter (candidate (e # es) name) [0..<length (e # es)]) =
    (if is_runtime_event ''system-ready'' e then []
     else (if is_runtime_event name e then [e] else [])
       @ map ((!) es) (filter (candidate es name) [0..<length es]))"
proof -
  have "[0..<length (e # es)] = 0 # map Suc [0..<length es]"
    by (simp add: map_Suc_upt upt_conv_Cons del: upt_Suc)
  then show ?thesis
    by (simp add: candidate_Cons filter_map o_def)
qed

lemma lookup_candidates:
  "filter (is_runtime_event name) (takeWhile (\<lambda>e. \<not> is_runtime_event ''system-ready'' e) events)
     = map ((!) events) (filter (candidate events name) [0..<length events])"
proof (induction events)
  case (Cons e es)
  then show ?case by (simp only: filter_Cons_candidates) simp
qed simp

lemma event_lookup_cases:
  "(runtime_event_before_system_ready events name = Inr None \<longleftrightarrow> (\<nexists>i. candidate events name i)) \<and>
   (runtime_event_before_system_ready events name = Inr (Some e) \<longleftrightarrow>
      (\<exists>i. candidate events name i \<and> events ! i = e \<and> (\<nexists>j. j \<noteq> i \<and> candidate events name j))) \<and>
   (runtime_event_before_system_ready events name = Inl (MultipleEvents name) \<longleftrightarrow>
      (\<exists>i j. i \<noteq> j \<and> candidate events name i \<and> candidate events name j))"
proof -
  define idx where "idx = filter (candidate events name) [0..<length events]"
  have set_idx: "candidate events name i \<longleftrightarrow> i \<in> set idx" for i
    by (auto simp: idx_def candidate_def)
  have dist: "distinct idx" by (simp add: idx_def)
  have eq: "runtime_event_before_system_ready events name =
     (case map ((!) events) idx of [] \<Rightarrow> Inr None | [e] \<Rightarrow> Inr (Some e) | _ \<Rightarrow> Inl (MultipleEvents name))"
    by (simp add: runtime_event_before_system_ready_def lookup_candidates idx_def)
  consider "idx = []" | i where "idx = [i]" | i j k where "idx = i # j # k"
    by (metis list.exhaust)
  then show ?thesis
  proof cases
    case (3 i j k)
    with dist have "i \<noteq> j" by simp
    then have "\<not> (\<exists>i \<in> set idx. \<nexists>j. j \<noteq> i \<and> j \<in> set idx)" using 3 by (metis list.set_intros)
    with 3 \<open>i \<noteq> j\<close> show ?thesis unfolding set_idx eq by auto
  qed (auto simp: set_idx eq)
qed

lemma lookup_unique:
  "runtime_event_before_system_ready events name = Inr (Some e) \<Longrightarrow>
    \<exists>i. candidate events name i \<and> events ! i = e \<and> (\<nexists>j. j \<noteq> i \<and> candidate events name j)"
  using event_lookup_cases [of events name e] by blast

text \<open>The event lookup is decided by the positions before \<open>system-ready\<close> that carry the name: none
  gives no event, exactly one gives that event, and two or more are always an error. Nothing at or after
  \<open>system-ready\<close> matters.\<close>

theorem runtime_event_lookup:
  "(runtime_event_before_system_ready events name = Inr None \<longleftrightarrow> (\<nexists>i. candidate events name i)) \<and>
   (runtime_event_before_system_ready events name = Inr (Some e) \<longleftrightarrow>
      (\<exists>i. candidate events name i \<and> events ! i = e \<and> (\<nexists>j. j \<noteq> i \<and> candidate events name j))) \<and>
   (runtime_event_before_system_ready events name = Inl (MultipleEvents name) \<longleftrightarrow>
      (\<exists>i j. i \<noteq> j \<and> candidate events name i \<and> candidate events name j))"
  by (rule event_lookup_cases)

section \<open>What a replay determines\<close>

definition zero48 :: bytes where
  "zero48 = replicate 48 (CHR 0x00)"

lemma length_zero48 [simp]: "length zero48 = 48"
  by (simp add: zero48_def)

lemma replay_loop_append:
  "replay_loop L mr (xs @ ys) = and_then (replay_loop L mr xs) (\<lambda>m. replay_loop L m ys)"
  by (induction xs arbitrary: mr) (auto simp: and_then_def split: sum.splits)

lemma replay_loop_length:
  assumes "sha384_len L" and "replay_loop L mr es = Inr r" and "length mr = 48"
  shows "length r = 48"
  using assms(2,3)
proof (induction es arbitrary: mr)
  case (Cons e es)
  then obtain d where "replay_loop L (sha384 L (mr @ pad48 d)) es = Inr r" by (auto simp: result_iffs)
  then show ?case using Cons.IH assms(1) by (simp add: sha384_len_def)
qed simp

lemma replay_loop_snoc:
  "replay_loop L mr (es @ [e]) = Inr r \<longleftrightarrow>
    (\<exists>m d. replay_loop L mr es = Inr m \<and> dstack_event_digest L e = Inr d \<and> r = sha384 L (m @ pad48 d))"
  by (auto simp: replay_loop_append result_iffs)

definition measured_digests :: "'x lib_scheme \<Rightarrow> dstack_event_log list \<Rightarrow> bytes list" where
  "measured_digests L es = map (\<lambda>e. case dstack_event_digest L e of Inr d \<Rightarrow> pad48 d | Inl _ \<Rightarrow> []) es"

text \<open>The messages a replay gives to SHA-384: those of its runtime events and those of the chain.\<close>

definition event_inputs :: "'x lib_scheme \<Rightarrow> dstack_event_log \<Rightarrow> bytes set" where
  "event_inputs L e =
     (if event_type e \<noteq> DSTACK_RUNTIME_EVENT_TYPE then {}
      else case decode_hex L (event_payload e) of Inl _ \<Rightarrow> {}
        | Inr payload \<Rightarrow> {to_ne_bytes (event_type e) @ '':'' @ event e @ '':'' @ payload})"

fun chain_inputs :: "'x lib_scheme \<Rightarrow> bytes \<Rightarrow> dstack_event_log list \<Rightarrow> bytes set" where
  "chain_inputs L mr [] = {}"
| "chain_inputs L mr (e # es) =
     (case dstack_event_digest L e of Inl _ \<Rightarrow> {}
      | Inr d \<Rightarrow> insert (mr @ pad48 d) (chain_inputs L (sha384 L (mr @ pad48 d)) es))"

definition replay_inputs :: "'x lib_scheme \<Rightarrow> dstack_event_log list \<Rightarrow> bytes set" where
  "replay_inputs L events = (let es = filter (\<lambda>e. imr e = 3) events
     in chain_inputs L zero48 es \<union> (\<Union>e \<in> set es. event_inputs L e))"

text \<open>SHA-384 neither collides on these messages nor maps one of them to the start value.\<close>

definition sha384_safe :: "'x lib_scheme \<Rightarrow> bytes set \<Rightarrow> bool" where
  "sha384_safe L M = ((\<forall>x \<in> M. \<forall>y \<in> M. \<not> collision (sha384 L) x y) \<and> (\<forall>x \<in> M. sha384 L x \<noteq> zero48))"

lemma sha384_eqD: "sha384 L x = sha384 L y \<Longrightarrow> sha384_safe L M \<Longrightarrow> x \<in> M \<Longrightarrow> y \<in> M \<Longrightarrow> x = y"
  by (auto simp: sha384_safe_def collision_def)

lemma chain_inputs_snoc:
  assumes "replay_loop L mr es = Inr m" and "dstack_event_digest L e = Inr d"
  shows "chain_inputs L mr (es @ [e]) = insert (m @ pad48 d) (chain_inputs L mr es)"
  using assms by (induction es arbitrary: mr) (auto simp: result_iffs)

lemma replay_loop_inj:
  assumes len: "sha384_len L" and ok: "sha384_safe L M"
    and "replay_loop L zero48 xs = Inr r" and "replay_loop L zero48 ys = Inr r"
    and "chain_inputs L zero48 xs \<subseteq> M" and "chain_inputs L zero48 ys \<subseteq> M"
  shows "measured_digests L xs = measured_digests L ys"
  using assms(3-6)
proof (induction xs arbitrary: ys r rule: rev_induct)
  case Nil
  then have "replay_loop L zero48 ys = Inr zero48" by simp
  with Nil(4) have "ys = []"
    using ok by (cases ys rule: rev_cases)
      (auto simp: replay_loop_snoc chain_inputs_snoc sha384_safe_def dest: sym)
  then show ?case by simp
next
  case (snoc x xs)
  then obtain m d where x: "replay_loop L zero48 xs = Inr m" "dstack_event_digest L x = Inr d"
    "r = sha384 L (m @ pad48 d)" by (auto simp: replay_loop_snoc)
  have xM: "m @ pad48 d \<in> M" "chain_inputs L zero48 xs \<subseteq> M"
    using snoc.prems(3) by (auto simp: chain_inputs_snoc [OF x(1,2)])
  note IH = snoc.IH
  show ?case
  proof (cases ys rule: rev_cases)
    case Nil
    with snoc.prems(2) x(3) have "sha384 L (m @ pad48 d) = zero48" by simp
    with ok xM show ?thesis by (auto simp: sha384_safe_def)
  next
    case (snoc ys' y)
    with snoc.prems(2) obtain m' d' where y: "replay_loop L zero48 ys' = Inr m'"
      "dstack_event_digest L y = Inr d'" "r = sha384 L (m' @ pad48 d')" by (auto simp: replay_loop_snoc)
    have yM: "m' @ pad48 d' \<in> M" "chain_inputs L zero48 ys' \<subseteq> M"
      using snoc snoc.prems(4) by (auto simp: chain_inputs_snoc [OF y(1,2)])
    have "m @ pad48 d = m' @ pad48 d'"
      by (rule sha384_eqD [OF _ ok xM(1) yM(1)]) (use x(3) y(3) in simp)
    moreover have "length m = 48" "length m' = 48"
      by (simp_all add: replay_loop_length [OF len x(1)] replay_loop_length [OF len y(1)])
    ultimately have eq: "m = m'" "pad48 d = pad48 d'" by auto
    then have "measured_digests L xs = measured_digests L ys'"
      by (intro IH [OF x(1) _ xM(2) yM(2)]) (simp add: y(1))
    with snoc x(2) y(2) eq show ?thesis by (simp add: measured_digests_def)
  qed
qed

lemma verify_dstack_event_log_Inr:
  "verify_dstack_event_log L parse_log evidence q = Inr events \<longleftrightarrow>
    (\<exists>text r. jget_str evidence ''event_log'' = Some text \<and> parse_log text = Inr events \<and> q = Some r \<and>
       replay_loop L zero48 (filter (\<lambda>e. imr e = 3) events) = Inr r \<and> length r = 48)"
  by (auto simp: verify_dstack_event_log_def replay_dstack_rtmr_def zero48_def result_iffs split: if_splits)

text \<open>A log in which every RTMR3 entry is a runtime event with a colon-free name, the shape the guest
  agent writes.\<close>

definition plain_log :: "dstack_event_log list \<Rightarrow> bool" where
  "plain_log events = list_all (\<lambda>e. imr e = 3 \<longrightarrow>
     event_type e = DSTACK_RUNTIME_EVENT_TYPE \<and> CHR '':'' \<notin> set (event e)) events"

definition measured_events :: "'x lib_scheme \<Rightarrow> dstack_event_log list \<Rightarrow> (string \<times> (hex_fault + bytes)) list" where
  "measured_events L events =
     map (\<lambda>e. (event e, decode_hex L (event_payload e))) (filter (\<lambda>e. imr e = 3) events)"

definition looked_up_payload ::
  "'x lib_scheme \<Rightarrow> dstack_event_log list \<Rightarrow> string \<Rightarrow> event_log_fault + (hex_fault + bytes) option" where
  "looked_up_payload L events name =
     map_sum id (map_option (\<lambda>e. decode_hex L (event_payload e))) (dstack_rtmr3_event events name)"

lemma colon_split:
  assumes "xs @ c # as = ys @ c # bs" and "c \<notin> set xs" and "c \<notin> set ys"
  shows "xs = ys \<and> as = bs"
  using assms
proof (induction xs arbitrary: ys)
  case Nil
  then show ?case by (cases ys) auto
next
  case (Cons x xs)
  then show ?case by (cases ys) auto
qed

lemma runtime_digest_message:
  assumes "sha384_len L" and "sha384_safe L M" and "event_inputs L x \<subseteq> M" and "event_inputs L y \<subseteq> M"
    and ty: "event_type x = DSTACK_RUNTIME_EVENT_TYPE" "event_type y = DSTACK_RUNTIME_EVENT_TYPE"
    and dig: "dstack_event_digest L x = Inr a" "dstack_event_digest L y = Inr b" "pad48 a = pad48 b"
  shows "\<exists>p q. decode_hex L (event_payload x) = Inr p \<and> decode_hex L (event_payload y) = Inr q \<and>
    event x @ '':'' @ p = event y @ '':'' @ q"
proof -
  let ?m = "\<lambda>e p. to_ne_bytes DSTACK_RUNTIME_EVENT_TYPE @ '':'' @ event e @ '':'' @ p"
  obtain p q where p: "decode_hex L (event_payload x) = Inr p" "a = sha384 L (?m x p)"
    and q: "decode_hex L (event_payload y) = Inr q" "b = sha384 L (?m y q)"
    using ty dig by (auto simp: dstack_event_digest_def result_iffs)
  then have "a = b" using assms by (simp add: pad48_def sha384_len_def)
  moreover have "?m x p \<in> M" "?m y q \<in> M" using assms(3,4) ty p(1) q(1) by (auto simp: event_inputs_def)
  ultimately have "?m x p = ?m y q" using sha384_eqD [OF _ assms(2)] p(2) q(2) by blast
  then show ?thesis using p q by simp
qed

text \<open>What RTMR3 fixes of two entries at the same place: the digest it was extended by and, of runtime
  events, the text \<open>name:payload\<close> (where the name ends is fixed only if names have no colon).\<close>

definition same_measured :: "'x lib_scheme \<Rightarrow> dstack_event_log \<Rightarrow> dstack_event_log \<Rightarrow> bool" where
  "same_measured L x y =
     (map_sum id pad48 (dstack_event_digest L x) = map_sum id pad48 (dstack_event_digest L y) \<and>
      (event_type x = DSTACK_RUNTIME_EVENT_TYPE \<and> event_type y = DSTACK_RUNTIME_EVENT_TYPE \<longrightarrow>
        (\<exists>p q. decode_hex L (event_payload x) = Inr p \<and> decode_hex L (event_payload y) = Inr q \<and>
           event x @ '':'' @ p = event y @ '':'' @ q)))"

lemma replay_loop_digests:
  "replay_loop L mr es = Inr r \<Longrightarrow> e \<in> set es \<Longrightarrow> \<exists>d. dstack_event_digest L e = Inr d"
  by (induction es arbitrary: mr) (auto simp: result_iffs)

lemma measured_entries_determined:
  assumes "sha384_len L" and "sha384_safe L (replay_inputs L xs \<union> replay_inputs L ys)"
    and "replay_loop L zero48 (filter (\<lambda>e. imr e = 3) xs) = Inr r"
    and "replay_loop L zero48 (filter (\<lambda>e. imr e = 3) ys) = Inr r"
  shows "list_all2 (same_measured L) (filter (\<lambda>e. imr e = 3) xs) (filter (\<lambda>e. imr e = 3) ys)"
proof -
  let ?f = "filter (\<lambda>e. imr e = 3)"
  have "measured_digests L (?f xs) = measured_digests L (?f ys)"
    by (rule replay_loop_inj [OF assms]) (auto simp: replay_inputs_def Let_def)
  then have len: "length (?f xs) = length (?f ys)"
    and nth: "\<And>i. i < length (?f xs) \<Longrightarrow> measured_digests L (?f xs) ! i = measured_digests L (?f ys) ! i"
    by (auto simp: measured_digests_def dest: map_eq_imp_length_eq)
  show ?thesis
  proof (rule list_all2_all_nthI [OF len])
    fix i assume "i < length (?f xs)"
    then have i: "?f xs ! i \<in> set (?f xs)" "?f ys ! i \<in> set (?f ys)" "i < length (?f xs)" "i < length (?f ys)"
      using len by (auto intro!: nth_mem simp del: set_filter)
    then obtain a b where ab: "dstack_event_digest L (?f xs ! i) = Inr a" "dstack_event_digest L (?f ys ! i) = Inr b"
      using assms(3,4) replay_loop_digests by meson
    moreover from this have "pad48 a = pad48 b" using nth [OF i(3)] i by (simp add: measured_digests_def)
    moreover have "event_inputs L (?f xs ! i) \<subseteq> replay_inputs L xs \<union> replay_inputs L ys"
      "event_inputs L (?f ys ! i) \<subseteq> replay_inputs L xs \<union> replay_inputs L ys"
      using i(1,2) unfolding replay_inputs_def Let_def by blast+
    ultimately show "same_measured L (?f xs ! i) (?f ys ! i)"
      using runtime_digest_message [OF assms(1,2), of "?f xs ! i" "?f ys ! i" a b] by (simp add: same_measured_def)
  qed
qed

lemma same_measured_plain:
  assumes "same_measured L x y"
    and "event_type x = DSTACK_RUNTIME_EVENT_TYPE" "event_type y = DSTACK_RUNTIME_EVENT_TYPE"
    and "CHR '':'' \<notin> set (event x)" "CHR '':'' \<notin> set (event y)"
  shows "event x = event y \<and> decode_hex L (event_payload x) = decode_hex L (event_payload y)"
  using assms colon_split [of "event x" "CHR '':''" _ "event y"] by (auto simp: same_measured_def)

lemma measured_events_plain:
  assumes "list_all2 (same_measured L) (filter (\<lambda>e. imr e = 3) xs) (filter (\<lambda>e. imr e = 3) ys)"
    and "plain_log xs" and "plain_log ys"
  shows "measured_events L xs = measured_events L ys"
proof -
  let ?plain = "\<lambda>e. event_type e = DSTACK_RUNTIME_EVENT_TYPE \<and> CHR '':'' \<notin> set (event e)"
  let ?m = "\<lambda>e. (event e, decode_hex L (event_payload e))"
  have "map ?m as = map ?m bs"
    if "list_all2 (same_measured L) as bs" "list_all ?plain as" "list_all ?plain bs" for as bs
    using that by (induction rule: list_all2_induct) (auto dest: same_measured_plain)
  from this [OF assms(1)] assms(2,3) show ?thesis
    by (simp add: measured_events_def plain_log_def list_all_iff)
qed

lemma looked_up_payload_measured:
  assumes "plain_log xs"
  shows "looked_up_payload L xs name =
    (case filter (\<lambda>p. fst p = name) (takeWhile (\<lambda>p. fst p \<noteq> ''system-ready'') (measured_events L xs)) of
       [] \<Rightarrow> Inr None | [p] \<Rightarrow> Inr (Some (snd p)) | _ \<Rightarrow> Inl (MultipleEvents name))"
proof -
  have "filter (\<lambda>p. fst p = name) (takeWhile (\<lambda>p. fst p \<noteq> ''system-ready'') (measured_events L xs))
    = map (\<lambda>e. (event e, decode_hex L (event_payload e))) (filter (is_runtime_event name)
        (takeWhile (\<lambda>e. \<not> is_runtime_event ''system-ready'' e) xs))"
    using assms
    by (induction xs) (auto simp: measured_events_def is_runtime_event_def plain_log_def)
  then show ?thesis
    by (simp add: looked_up_payload_def dstack_rtmr3_event_def runtime_event_before_system_ready_def
        split: list.splits)
qed


text \<open>Concrete logs for the theorems above and below: the stand-in for SHA-384 keeps the last 48 bytes
  of its input.\<close>

definition sample_tail_lib :: lib where
  "sample_tail_lib = sample_lib\<lparr>sha384 := (\<lambda>b. sample_pad 48 (rev b))\<rparr>"

definition sample_event :: "string \<Rightarrow> string \<Rightarrow> string \<Rightarrow> dstack_event_log" where
  "sample_event d name payload = \<lparr>imr = 3, event_type = DSTACK_RUNTIME_EVENT_TYPE, digest = d,
     event = name, event_payload = payload\<rparr>"

definition sample_log :: "string \<Rightarrow> dstack_event_log list" where
  "sample_log d = [sample_event d ''app-id'' ''0xab'']"

definition sample_parse_log :: "string \<Rightarrow> string + dstack_event_log list" where
  "sample_parse_log text = Inr (sample_log text)"

definition sample_log_evidence :: "string \<Rightarrow> json" where
  "sample_log_evidence text = JObject [(''event_log'', JString text)]"

lemma sample_tail_lib_len: "sha384_len sample_tail_lib"
  by (auto simp: sha384_len_def sample_tail_lib_def sample_pad_def)

lemma runtime_type_bytes:
  "to_ne_bytes DSTACK_RUNTIME_EVENT_TYPE = [CHR 0x01, CHR 0x00, CHR 0x00, CHR 0x08]"
  by (simp add: to_ne_bytes_def DSTACK_RUNTIME_EVENT_TYPE_def drop_bit_eq_div char_of_def bit_Suc_0_iff)

definition sample_message :: bytes where
  "sample_message = [CHR 0x01, CHR 0x00, CHR 0x00, CHR 0x08] @ '':app-id:'' @ [CHR 0xAB]"

definition sample_event_sha :: bytes where
  "sample_event_sha = sha384 sample_tail_lib sample_message"

lemma sample_decode: "decode_hex sample_tail_lib ''0xab'' = Inr [CHR 0xAB]"
  by code_simp

lemma sample_log_replay:
  "dstack_event_digest sample_tail_lib (sample_event d ''app-id'' ''0xab'') = Inr sample_event_sha"
  "event_inputs sample_tail_lib (sample_event d ''app-id'' ''0xab'') = {sample_message}"
  by (simp_all add: dstack_event_digest_def event_inputs_def sample_event_def sample_decode
      runtime_type_bytes sample_message_def sample_event_sha_def)

lemma sample_log_verified:
  "verify_dstack_event_log sample_tail_lib sample_parse_log (sample_log_evidence d)
     (Some (sha384 sample_tail_lib (zero48 @ pad48 sample_event_sha))) = Inr (sample_log d)"
  by (simp add: verify_dstack_event_log_Inr sample_log_evidence_def jget_str_def sample_parse_log_def
      sample_log_def sample_log_replay)
    (simp add: sample_event_def sample_log_replay sample_tail_lib_len [unfolded sha384_len_def])


section \<open>What a replay does not determine\<close>

text \<open>The same entry presented as a boot event: its measured digest is given literally, and name and
  payload no longer count.\<close>

definition disguise :: "'x lib_scheme \<Rightarrow> dstack_event_log \<Rightarrow> dstack_event_log" where
  "disguise L e =
     (if imr e = 3 \<and> event_type e = DSTACK_RUNTIME_EVENT_TYPE then
        (case dstack_event_digest L e of Inl _ \<Rightarrow> e
         | Inr d \<Rightarrow> e\<lparr>event_type := 0, digest := hex_encode L d\<rparr>)
      else e)"

lemma disguise_imr [simp]: "imr (disguise L e) = imr e"
  by (simp add: disguise_def split: sum.splits)

lemma disguise_digest:
  assumes "hex_ok L" and "imr e = 3"
  shows "dstack_event_digest L (disguise L e) = dstack_event_digest L e"
  using assms decode_hex_encode [OF assms(1)]
  by (auto simp: disguise_def dstack_event_digest_def DSTACK_RUNTIME_EVENT_TYPE_def split: sum.splits)

lemma disguise_hidden:
  assumes "imr e = 3 \<Longrightarrow> dstack_event_digest L e = Inr d"
  shows "\<not> is_runtime_event name (disguise L e)"
  using assms by (auto simp: disguise_def is_runtime_event_def DSTACK_RUNTIME_EVENT_TYPE_def)

lemma replay_loop_cong:
  assumes "list_all2 (\<lambda>x y. dstack_event_digest L x = dstack_event_digest L y) xs ys"
  shows "replay_loop L mr xs = replay_loop L mr ys"
  using assms by (induction xs ys arbitrary: mr rule: list_all2_induct) simp_all

lemma replay_loop_disguise:
  assumes "hex_ok L"
  shows "replay_loop L mr (filter (\<lambda>e. imr e = 3) (map (disguise L) pre @ post))
    = replay_loop L mr (filter (\<lambda>e. imr e = 3) (pre @ post))"
  using disguise_digest [OF assms]
  by (intro replay_loop_cong) (auto simp: filter_map o_def list_all2_map1 list_all2_append list_all2_same
      intro!: list_all2_appendI)

text \<open>C21: The quote does not fix where \<open>system-ready\<close> lies. Whoever writes the evidence can present any
  prefix of a verified log, the \<open>system-ready\<close> entry included, as boot events with the same digests:
  the log still verifies against the same quote, and every lookup then answers from the remaining
  entries alone, such as ones the application emitted after \<open>system-ready\<close>.\<close>

theorem system_ready_not_bound:
  assumes "hex_ok L"
    and "verify_dstack_event_log L parse_log evidence quote = Inr (pre @ post)"
    and "jget_str forged ''event_log'' = Some text"
    and "parse_log text = Inr (map (disguise L) pre @ post)"
  shows "verify_dstack_event_log L parse_log forged quote = Inr (map (disguise L) pre @ post) \<and>
    dstack_rtmr3_event (map (disguise L) pre @ post) name = dstack_rtmr3_event post name"
proof -
  let ?f = "filter (\<lambda>e. imr e = 3)"
  obtain r where r: "quote = Some r" "replay_loop L zero48 (?f (pre @ post)) = Inr r" "length r = 48"
    using assms(2) by (auto simp: verify_dstack_event_log_Inr)
  have hidden: "\<not> is_runtime_event n (disguise L e)" if "e \<in> set pre" for e n
  proof (cases "imr e = 3")
    case True
    with that have "e \<in> set (?f (pre @ post))" by simp
    with r(2) obtain d where "dstack_event_digest L e = Inr d" using replay_loop_digests by blast
    then show ?thesis by (rule disguise_hidden)
  qed (simp add: is_runtime_event_def)
  have "takeWhile (\<lambda>e. \<not> is_runtime_event ''system-ready'' e) (map (disguise L) pre @ post)
      = map (disguise L) pre @ takeWhile (\<lambda>e. \<not> is_runtime_event ''system-ready'' e) post"
    using hidden by (intro takeWhile_append2) auto
  moreover have "filter (is_runtime_event name) (map (disguise L) pre) = []"
    using hidden by (auto simp: filter_empty_conv)
  ultimately have "dstack_rtmr3_event (map (disguise L) pre @ post) name = dstack_rtmr3_event post name"
    by (simp add: dstack_rtmr3_event_def runtime_event_before_system_ready_def)
  then show ?thesis
    using assms(3,4) r replay_loop_disguise [OF assms(1)] by (auto simp: verify_dstack_event_log_Inr)
qed

definition sample_boundary :: "dstack_event_log list" where
  "sample_boundary = [sample_event [] ''system-ready'' []]"

definition sample_late :: "dstack_event_log list" where
  "sample_late = [sample_event [] ''app-id'' ''0xab'']"

definition sample_two_logs :: "string \<Rightarrow> string + dstack_event_log list" where
  "sample_two_logs text = Inr ((if text = ''honest'' then sample_boundary
     else map (disguise sample_lib) sample_boundary) @ sample_late)"

lemma sample_boundary_verified:
  "\<exists>quote. verify_dstack_event_log sample_lib sample_two_logs (sample_log_evidence ''honest'') quote
     = Inr (sample_boundary @ sample_late)"
proof -
  have "decode_hex sample_lib [] = Inr []" and "decode_hex sample_lib ''0xab'' = Inr [CHR 0xAB]" by code_simp+
  then have "\<exists>r. replay_loop sample_lib zero48 (filter (\<lambda>e. imr e = 3) (sample_boundary @ sample_late)) = Inr r"
    by (simp add: sample_boundary_def sample_late_def) (simp add: sample_event_def dstack_event_digest_def)
  then show ?thesis
    using replay_loop_length [OF sample_lib_laws(2)]
    by (auto simp: verify_dstack_event_log_Inr sample_log_evidence_def jget_str_def sample_two_logs_def)
qed

theorem system_ready_not_bound_witness:
  "\<exists>quote forged_log.
     verify_dstack_event_log sample_lib sample_two_logs (sample_log_evidence ''honest'') quote
       = Inr (sample_boundary @ sample_late) \<and>
     verify_dstack_event_log sample_lib sample_two_logs (sample_log_evidence ''forged'') quote = Inr forged_log \<and>
     dstack_rtmr3_event (sample_boundary @ sample_late) ''app-id'' = Inr None \<and>
     dstack_rtmr3_event forged_log ''app-id'' = Inr (Some (hd sample_late))"
proof -
  obtain quote where quote: "verify_dstack_event_log sample_lib sample_two_logs (sample_log_evidence ''honest'')
      quote = Inr (sample_boundary @ sample_late)"
    using sample_boundary_verified by blast
  have "jget_str (sample_log_evidence ''forged'') ''event_log'' = Some ''forged''"
    and "sample_two_logs ''forged'' = Inr (map (disguise sample_lib) sample_boundary @ sample_late)"
    by (simp_all add: sample_log_evidence_def jget_str_def sample_two_logs_def)
  note forged = system_ready_not_bound [OF sample_lib_laws(3) quote this, of "''app-id''"]
  have "dstack_rtmr3_event (sample_boundary @ sample_late) ''app-id'' = Inr None"
    and "dstack_rtmr3_event sample_late ''app-id'' = Inr (Some (hd sample_late))"
    by (simp_all add: dstack_rtmr3_event_def runtime_event_before_system_ready_def sample_boundary_def
        sample_late_def is_runtime_event_def sample_event_def)
  with quote forged show ?thesis by metis
qed

section \<open>The compose measurement and the custody chain\<close>

text \<open>An accepted compose measurement is the SHA-256 of the \<open>app_compose\<close> text in the evidence, in
  hex, and it is the payload of the only \<open>compose-hash\<close> event before \<open>system-ready\<close> in the log.\<close>

theorem compose_measurement_sound:
  assumes "verify_dstack_compose_measurement L evidence events = Inr h"
  shows "\<exists>app_compose i. jget_str evidence ''app_compose'' = Some app_compose \<and>
    h = sha256_bare_hex L app_compose \<and>
    candidate events ''compose-hash'' i \<and>
    decode_hex L (event_payload (events ! i)) = Inr (sha256 L app_compose) \<and>
    (\<nexists>j. j \<noteq> i \<and> candidate events ''compose-hash'' j)"
proof -
  obtain e compose where e: "runtime_event_before_system_ready events ''compose-hash'' = Inr (Some e)"
    and "decode_hex L (event_payload e) = Inr (sha256 L compose)"
    and "jget_str evidence ''app_compose'' = Some compose" and "h = hex_encode L (sha256 L compose)"
    using assms by (auto simp: verify_dstack_compose_measurement_def dstack_rtmr3_event_def
        verify_dstack_app_compose_def result_iffs split: if_splits)
  then show ?thesis
    using lookup_unique [OF e] by (auto simp: sha256_bare_hex_def)
qed

definition sample_compose_evidence :: json where
  "sample_compose_evidence = JObject [(''app_compose'', JString ''compose'')]"

definition sample_compose_log :: "dstack_event_log list" where
  "sample_compose_log = [sample_event [] ''compose-hash'' (sample_hex (sample_pad 32 ''compose'')),
     sample_event [] ''system-ready'' [], sample_event [] ''compose-hash'' ''00'']"

lemma sample_compose_measured:
  "verify_dstack_compose_measurement sample_lib sample_compose_evidence sample_compose_log
     = Inr (sample_hex (sample_pad 32 ''compose''))"
proof -
  have "dstack_rtmr3_event sample_compose_log ''compose-hash'' = Inr (Some (hd sample_compose_log))"
    by (simp add: dstack_rtmr3_event_def runtime_event_before_system_ready_def sample_compose_log_def
        is_runtime_event_def sample_event_def)
  moreover have "decode_hex sample_lib (sample_hex b) = Inr b" for b
    using decode_hex_encode [OF sample_lib_laws(3)] by (simp add: sample_lib_def)
  ultimately show ?thesis
    by (simp add: verify_dstack_compose_measurement_def sample_compose_log_def sample_event_def
        verify_dstack_app_compose_def sample_compose_evidence_def jget_str_def)
      (simp add: sample_lib_def sample_pad_def)
qed

theorem compose_measurement_sound_witness:
  "\<exists>app_compose i. jget_str sample_compose_evidence ''app_compose'' = Some app_compose \<and>
     candidate sample_compose_log ''compose-hash'' i \<and>
     decode_hex sample_lib (event_payload (sample_compose_log ! i)) = Inr (sha256 sample_lib app_compose)"
  using compose_measurement_sound [OF sample_compose_measured] by blast

text \<open>A key recovered from a 65-byte signature over a message: 64 bytes and a recovery id, plain or offset
  by 27.\<close>

definition recovered_from :: "('s, 'k) kms \<Rightarrow> bytes \<Rightarrow> bytes \<Rightarrow> 'k \<Rightarrow> bool" where
  "recovered_from K message signature key = (\<exists>rs v sig recid. signature = rs @ [v] \<and> length rs = 64 \<and>
     recovery_id K (if code v \<in> {27..30} then code v - 27 else code v) = Some recid \<and>
     signature_of K rs = Inr sig \<and> recover_key K message sig recid = Inr key)"

lemma recover_k256_public_key_Inr:
  "recover_k256_public_key K message signature = Inr key \<longleftrightarrow> recovered_from K message signature key"
proof (cases "length signature = 65")
  case True
  then obtain rs v where "signature = rs @ [v]" "length rs = 64"
    by (metis Suc_eq_plus1 append_butlast_last_id length_append_singleton add_right_imp_eq eval_nat_numeral(3)
        length_0_conv nat.discI)
  then show ?thesis
    by (auto simp: recover_k256_public_key_def recovered_from_def Let_def result_iffs nth_append)
qed (auto simp: recover_k256_public_key_def recovered_from_def)

lemma as_str_Some [simp]: "as_str v = Some s \<longleftrightarrow> v = JString s"
  by (cases v) auto

lemma as_array_Some [simp]: "as_array v = Some xs \<longleftrightarrow> v = JArray xs"
  by (cases v) auto

text \<open>The entry the evidence gives for the receipt key: the first one listed with that role.\<close>

lemma receipt_custody_entry_Inr:
  "receipt_custody_entry evidence = Inr entry \<longleftrightarrow> (\<exists>custody keys i.
     jget evidence ''key_custody'' = Some custody \<and> jget_str custody ''provider'' = Some ''dstack-kms'' \<and>
     jget custody ''keys'' = Some (JArray keys) \<and> i < length keys \<and> keys ! i = entry \<and>
     jget_str entry ''role'' = Some ''receipt'' \<and> (\<forall>j < i. jget_str (keys ! j) ''role'' \<noteq> Some ''receipt''))"
  by (auto simp: receipt_custody_entry_def result_iffs find_Some_iff bind_eq_Some_conv split: if_splits)

text \<open>What is checked of that entry.\<close>

lemma verify_custody_of_entry:
  "verify_dstack_kms_receipt_custody L K evidence keyset app_id = Inr c \<longleftrightarrow>
   (\<exists>entry public_key pk kms_hex kms_bytes kms_key s t sig_purpose sig_app app root.
      receipt_custody_entry evidence = Inr entry \<and>
      jget_str entry ''public_key'' = Some public_key \<and> decode_hex L public_key = Inr pk \<and>
      public_key \<in> public_key_hex ` set (receipt_signing_keys keyset) \<and>
      jget_str entry ''purpose'' = Some RECEIPT_PURPOSE \<and>
      jget_str entry ''kms_public_key'' = Some kms_hex \<and> decode_hex L kms_hex = Inr kms_bytes \<and>
      key_of_sec1 K kms_bytes = Inr kms_key \<and>
      jget entry ''signature_chain'' = Some (JArray [JString s, JString t]) \<and>
      decode_hex L s = Inr sig_purpose \<and> decode_hex L t = Inr sig_app \<and>
      recovered_from K (RECEIPT_PURPOSE @ '':'' @ hex_encode L (sec1 K kms_key)) sig_purpose app \<and>
      recovered_from K (''dstack-kms-issued:'' @ app_id @ sec1 K app) sig_app root \<and>
      c = \<lparr>cu_provider = ''dstack-kms'', cu_receipt_public_key = hex_encode L pk, cu_purpose = RECEIPT_PURPOSE,
        cu_kms_public_key = hex_encode L (sec1 K kms_key), cu_app_public_key = hex_encode L (sec1 K app),
        cu_root_public_key = hex_encode L (sec1 K root)\<rparr>)"
proof -
  have member: "list_ex (\<lambda>key. public_key_hex key = pk) ks \<longleftrightarrow> pk \<in> public_key_hex ` set ks" for pk ks
    by (auto simp: list_ex_iff)
  have length2: "length chain = 2 \<longleftrightarrow> (\<exists>a b. chain = [a, b])" for chain :: "json list"
    by (auto simp: length_Suc_conv numeral_2_eq_2)
  show ?thesis
    unfolding verify_dstack_kms_receipt_custody_def compressed_k256_public_key_hex_def custody_field_def
    by (rule iffI) (fastforce simp: member length2 chain_signature_def recover_k256_public_key_Inr result_iffs
        bind_eq_Some_conv split: if_splits)+
qed

text \<open>C9: The custody chain is accepted exactly when the evidence makes it out. The evidence names the
  dstack KMS as the keeper of its keys, and the first entry listed for the receipt role has: a public key
  that is a receipt signing key of the attested keyset; the receipt purpose; a KMS key; and a chain of two
  signatures. The app key is recovered from the first, over the purpose and the KMS key, and the root key
  from the second, over the measured app id and that app key. What is reported is these keys, in hex.\<close>

theorem receipt_custody_sound:
  "verify_dstack_kms_receipt_custody L K evidence keyset app_id = Inr c \<longleftrightarrow>
   (\<exists>custody keys i public_key pk kms_hex kms_bytes kms_key s t sig_purpose sig_app app root.
      jget evidence ''key_custody'' = Some custody \<and> jget_str custody ''provider'' = Some ''dstack-kms'' \<and>
      jget custody ''keys'' = Some (JArray keys) \<and> i < length keys \<and>
      jget_str (keys ! i) ''role'' = Some ''receipt'' \<and> (\<forall>j < i. jget_str (keys ! j) ''role'' \<noteq> Some ''receipt'') \<and>
      jget_str (keys ! i) ''public_key'' = Some public_key \<and> decode_hex L public_key = Inr pk \<and>
      public_key \<in> public_key_hex ` set (receipt_signing_keys keyset) \<and>
      jget_str (keys ! i) ''purpose'' = Some ''aci.receipt.ed25519.v1'' \<and>
      jget_str (keys ! i) ''kms_public_key'' = Some kms_hex \<and> decode_hex L kms_hex = Inr kms_bytes \<and>
      key_of_sec1 K kms_bytes = Inr kms_key \<and>
      jget (keys ! i) ''signature_chain'' = Some (JArray [JString s, JString t]) \<and>
      decode_hex L s = Inr sig_purpose \<and> decode_hex L t = Inr sig_app \<and>
      recovered_from K (''aci.receipt.ed25519.v1:'' @ hex_encode L (sec1 K kms_key)) sig_purpose app \<and>
      recovered_from K (''dstack-kms-issued:'' @ app_id @ sec1 K app) sig_app root \<and>
      c = \<lparr>cu_provider = ''dstack-kms'', cu_receipt_public_key = hex_encode L pk,
        cu_purpose = ''aci.receipt.ed25519.v1'', cu_kms_public_key = hex_encode L (sec1 K kms_key),
        cu_app_public_key = hex_encode L (sec1 K app), cu_root_public_key = hex_encode L (sec1 K root)\<rparr>)"
proof -
  have "RECEIPT_PURPOSE @ '':'' @ x = ''aci.receipt.ed25519.v1:'' @ x" for x by (simp add: RECEIPT_PURPOSE_def)
  then show ?thesis
    unfolding verify_custody_of_entry receipt_custody_entry_Inr by (simp only: RECEIPT_PURPOSE_def) blast
qed

definition sample_kms :: "(bytes, bytes) kms" where
  "sample_kms = \<lparr>recovery_id = (\<lambda>n. if n < 4 then Some n else None), signature_of = Inr,
     recover_key = (\<lambda>m s r. Inr (take 4 m)), sec1 = id, key_of_sec1 = Inr\<rparr>"

definition sample_custody_evidence :: json where
  "sample_custody_evidence = JObject [(''key_custody'', JObject [(''provider'', JString ''dstack-kms''),
     (''keys'', JArray [JObject [(''role'', JString ''receipt''), (''public_key'', JString ''11''),
        (''purpose'', JString RECEIPT_PURPOSE), (''kms_public_key'', JString ''22''),
        (''signature_chain'', JArray [JString (replicate 130 (CHR ''0'')), JString (replicate 130 (CHR ''0''))])]])])]"

definition sample_custody_keyset :: workload_keyset where
  "sample_custody_keyset = \<lparr>subject = None, not_after = 1000,
     receipt_signing_keys = [\<lparr>key_id = ''receipt'', algo = ''ed25519'', public_key_hex = ''11''\<rparr>],
     e2ee_public_keys = [], tls_public_keys = []\<rparr>"

theorem receipt_custody_sound_witness:
  "\<exists>c key. verify_dstack_kms_receipt_custody sample_lib sample_kms sample_custody_evidence sample_custody_keyset
      (replicate 20 (CHR 0x04)) = Inr c \<and>
     key \<in> set (receipt_signing_keys sample_custody_keyset) \<and>
     decode_hex sample_lib (public_key_hex key) = decode_hex sample_lib (cu_receipt_public_key c)"
proof -
  have "case verify_dstack_kms_receipt_custody sample_lib sample_kms sample_custody_evidence sample_custody_keyset
      (replicate 20 (CHR 0x04)) of Inr c \<Rightarrow> True | Inl _ \<Rightarrow> False"
    by code_simp
  then obtain c where c: "verify_dstack_kms_receipt_custody sample_lib sample_kms sample_custody_evidence
      sample_custody_keyset (replicate 20 (CHR 0x04)) = Inr c"
    by (auto split: sum.splits)
  from receipt_custody_sound [THEN iffD1, OF c] obtain public_key pk where
    "public_key \<in> public_key_hex ` set (receipt_signing_keys sample_custody_keyset)"
    "decode_hex sample_lib public_key = Inr pk" "cu_receipt_public_key c = hex_encode sample_lib pk"
    by (elim exE conjE) (rule that, assumption, assumption, simp)
  then show ?thesis using c decode_hex_encode [OF sample_lib_laws(3)] by fastforce
qed

end
