(* ===== verification/Receipt.thy ===== *)
theory Receipt
  imports Report Samples
begin

text \<open>
  Inference receipts (\<open>src/aci/receipt.rs\<close>): the event log of one request, the rules on its events, and
  the signed document. Key custody is a \<open>key_provider\<close>: the keys it lists and its signing operation are
  parameters (\<open>src/aci/keys.rs\<close> declares the interface). The lemmas show which logs can be built and
  finalised, and that the bytes signed are exactly those a verifier recomputes from the served document
  in any encoding.
\<close>

section \<open>Vocabulary\<close>

definition RECEIPT_API_VERSION :: string where "RECEIPT_API_VERSION = ''aci/1''"
definition EVENT_REQUEST_RECEIVED :: string where "EVENT_REQUEST_RECEIVED = ''request.received''"
definition EVENT_REQUEST_FORWARDED :: string where "EVENT_REQUEST_FORWARDED = ''request.forwarded''"
definition EVENT_UPSTREAM_VERIFIED :: string where "EVENT_UPSTREAM_VERIFIED = ''upstream.verified''"
definition EVENT_RESPONSE_RETURNED :: string where "EVENT_RESPONSE_RETURNED = ''response.returned''"
definition EVENT_MIDDLEWARE_FORWARDED :: string where "EVENT_MIDDLEWARE_FORWARDED = ''middleware.forwarded''"
definition EVENT_ROUTE_SELECTED :: string where "EVENT_ROUTE_SELECTED = ''route.selected''"
definition EVENT_RESPONSE_RECEIVED :: string where "EVENT_RESPONSE_RECEIVED = ''response.received''"
definition ALGO_ED25519 :: string where "ALGO_ED25519 = ''ed25519''"

definition LEGACY_ALGO_ED25519 :: string where
  "LEGACY_ALGO_ED25519 = ''ed25519''"

definition LEGACY_ALGO_ECDSA :: string where
  "LEGACY_ALGO_ECDSA = ''ecdsa''"

lemmas event_names = EVENT_REQUEST_RECEIVED_def EVENT_REQUEST_FORWARDED_def EVENT_UPSTREAM_VERIFIED_def
  EVENT_RESPONSE_RETURNED_def EVENT_MIDDLEWARE_FORWARDED_def EVENT_ROUTE_SELECTED_def
  EVENT_RESPONSE_RECEIVED_def

datatype key_error =
    UnknownReceiptKeyId string
  | UnknownE2eeKeyId string
  | UnsupportedAlgo string
  | Crypto string
  | QuoteFailure string

datatype receipt_error =
    FirstEventMustBeRequestReceived string
  | MissingRequiredEvent string
  | EmptyReceipt
  | ReservedField string
  | ReservedEventType string
  | Canonicalization jcs_error
  | InvalidSessionId string
  | Key key_error

text \<open>The operations of \<open>KeyProvider\<close> that a receipt uses.\<close>

record key_provider =
  receipt_keys :: "keyed_public_key list"
  sign_receipt :: "string \<Rightarrow> bytes \<Rightarrow> key_error + bytes"

datatype verification_result = Verified | Failed

definition result_str :: "verification_result \<Rightarrow> string" where
  "result_str r = (case r of Verified \<Rightarrow> ''verified'' | Failed \<Rightarrow> ''failed'')"

datatype channel_binding =
    TlsSpkiSha256 (cb_origin: string) (cb_spki: string)
  | E2eePublicKeySha256 (cb_provider: string) (cb_key_id: "string option") (algorithm: string) (public_key_sha256: string)
  | ProxyImageSha256 (cb_provider: string) (proxy_image_digest: string) (credential_sha256: string)

record upstream_verified_event =
  verification_round :: "bytes option"
  upstream_name :: string
  provider_type :: "string option"
  uv_model_id :: string
  url_origin :: "string option"
  verifier_id :: string
  uv_result :: verification_result
  required :: bool
  uv_reason :: "string option"
  uv_evidence :: "json option"
  channel_bindings :: "channel_binding list"
  provider_claims :: "json option"
  aci_identity :: "report_binding option"

record receipt_event =
  re_type :: string
  re_fields :: "(string \<times> json) list"

definition event_value :: "receipt_event \<Rightarrow> json" where
  "event_value e = JObject (foldl (\<lambda>m (k, v). AList.update k v m)
     [(''type'', JString (re_type e))] (re_fields e))"

record signed_receipt =
  sr_receipt_id :: string
  sr_chat_id :: "string option"
  sr_workload_keyset_digest :: string
  sr_document :: bytes
  sr_key_id :: string
  sr_signature_hex :: string

record receipt_builder =
  receipt_id :: string
  b_chat_id :: "string option"
  b_model :: "string option"
  b_workload_keyset_digest :: string
  b_endpoint :: string
  b_method :: string
  served_at :: u64
  events :: "receipt_event list"

section \<open>Building the log\<close>

definition builder_new ::
  "string \<Rightarrow> string option \<Rightarrow> string option \<Rightarrow> string \<Rightarrow> string \<Rightarrow> string \<Rightarrow> u64 \<Rightarrow> receipt_builder" where
  "builder_new rid chat model ksd ep meth at = \<lparr>receipt_id = rid, b_chat_id = chat, b_model = model,
     b_workload_keyset_digest = ksd, b_endpoint = ep, b_method = meth, served_at = at, events = []\<rparr>"

definition append_event ::
  "receipt_builder \<Rightarrow> string \<Rightarrow> (string \<times> json) list \<Rightarrow> receipt_error + receipt_builder" where
  "append_event b etype fs =
     (if events b = [] \<and> etype \<noteq> EVENT_REQUEST_RECEIVED then Inl (FirstEventMustBeRequestReceived etype)
      else if list_ex (\<lambda>k. k = ''type'') (map fst fs) then Inl (ReservedField ''type'')
      else Inr (b\<lparr>events := events b @ [\<lparr>re_type = etype, re_fields = fs\<rparr>]\<rparr>))"

definition append_hash :: "receipt_builder \<Rightarrow> string \<Rightarrow> string \<Rightarrow> receipt_error + receipt_builder" where
  "append_hash b etype body_hash = append_event b etype [(''body_hash'', JString body_hash)]"

definition append_body_hash ::
  "'x lib_scheme \<Rightarrow> receipt_builder \<Rightarrow> string \<Rightarrow> bytes \<Rightarrow> receipt_error + (receipt_builder \<times> string)" where
  "append_body_hash L b etype body =
     (let h = sha256_hex L body in and_then (append_hash b etype h) (\<lambda>b. Inr (b, h)))"

definition add_request_received where
  "add_request_received L b body = append_body_hash L b EVENT_REQUEST_RECEIVED body"

definition add_request_forwarded where
  "add_request_forwarded L b body = append_body_hash L b EVENT_REQUEST_FORWARDED body"

definition add_middleware_forwarded where
  "add_middleware_forwarded L b body = append_body_hash L b EVENT_MIDDLEWARE_FORWARDED body"

definition add_route_selected :: "receipt_builder \<Rightarrow> string \<Rightarrow> receipt_error + receipt_builder" where
  "add_route_selected b target = append_event b EVENT_ROUTE_SELECTED [(''target_route_id'', JString target)]"

definition is_session_id :: "string \<Rightarrow> bool" where
  "is_session_id s = (length s = 64 \<and> list_all is_lower_hex s)"

definition add_upstream_verified_with_session ::
  "receipt_builder \<Rightarrow> upstream_verified_event \<Rightarrow> string \<Rightarrow> receipt_error + receipt_builder" where
  "add_upstream_verified_with_session b event session_id =
     (if \<not> is_session_id session_id then Inl (InvalidSessionId session_id)
      else append_event b EVENT_UPSTREAM_VERIFIED
        [(''result'', JString (result_str Verified)), (''required'', JBool (required event)),
         (''model_id'', JString (uv_model_id event)), (''session_id'', JString session_id)])"

definition add_upstream_verified_failed ::
  "receipt_builder \<Rightarrow> string \<Rightarrow> string \<Rightarrow> bool \<Rightarrow> string option \<Rightarrow> receipt_error + receipt_builder" where
  "add_upstream_verified_failed b model_id reason req name =
     append_event b EVENT_UPSTREAM_VERIFIED
       ([(''result'', JString (result_str Failed)), (''required'', JBool req),
         (''model_id'', JString model_id), (''reason'', JString reason)]
        @ (case name of Some n \<Rightarrow> if n \<noteq> [] then [(''upstream_name'', JString n)] else [] | None \<Rightarrow> []))"

definition add_response_received where
  "add_response_received L b body = append_body_hash L b EVENT_RESPONSE_RECEIVED body"

definition add_response_received_hash :: "receipt_builder \<Rightarrow> string \<Rightarrow> receipt_error + receipt_builder" where
  "add_response_received_hash b h = append_hash b EVENT_RESPONSE_RECEIVED h"

definition add_response_returned where
  "add_response_returned L b wire = append_body_hash L b EVENT_RESPONSE_RETURNED wire"

definition add_response_returned_hash :: "receipt_builder \<Rightarrow> string \<Rightarrow> receipt_error + receipt_builder" where
  "add_response_returned_hash b h = append_hash b EVENT_RESPONSE_RETURNED h"

definition add_extension_event ::
  "receipt_builder \<Rightarrow> string \<Rightarrow> (string \<times> json) list \<Rightarrow> receipt_error + receipt_builder" where
  "add_extension_event b etype fs =
     (if etype \<in> {EVENT_REQUEST_RECEIVED, EVENT_REQUEST_FORWARDED, EVENT_UPSTREAM_VERIFIED, EVENT_RESPONSE_RETURNED}
      then Inl (ReservedEventType etype)
      else append_event b etype fs)"

definition set_chat_id :: "receipt_builder \<Rightarrow> string option \<Rightarrow> receipt_builder" where
  "set_chat_id b chat = b\<lparr>b_chat_id := chat\<rparr>"

definition field_str :: "receipt_event \<Rightarrow> string \<Rightarrow> string option" where
  "field_str e k = Option.bind (map_of (re_fields e) k) as_str"

fun set_first_verified_model :: "string \<Rightarrow> receipt_event list \<Rightarrow> receipt_event list" where
  "set_first_verified_model model [] = []"
| "set_first_verified_model model (e # es) =
     (if re_type e = EVENT_UPSTREAM_VERIFIED \<and> field_str e ''result'' = Some (result_str Verified)
      then e\<lparr>re_fields := AList.update ''model_id'' (JString model) (re_fields e)\<rparr> # es
      else e # set_first_verified_model model es)"

definition set_upstream_verified_model_id :: "receipt_builder \<Rightarrow> string option \<Rightarrow> receipt_builder" where
  "set_upstream_verified_model_id b model =
     (case model of None \<Rightarrow> b | Some m \<Rightarrow> b\<lparr>events := set_first_verified_model m (events b)\<rparr>)"

section \<open>Finalising\<close>

definition refused :: "receipt_event list \<Rightarrow> bool" where
  "refused es = list_ex (\<lambda>e. re_type e = EVENT_UPSTREAM_VERIFIED
     \<and> field_str e ''result'' = Some (result_str Failed)
     \<and> Option.bind (map_of (re_fields e) ''required'') as_bool = Some True) es"

definition has_event :: "string \<Rightarrow> receipt_event list \<Rightarrow> bool" where
  "has_event etype es = list_ex (\<lambda>e. re_type e = etype) es"

text \<open>The loop over the required events: the first one missing, if any.\<close>

definition missing_required :: "receipt_event list \<Rightarrow> string option" where
  "missing_required es =
     find (\<lambda>r. \<not> (r = EVENT_REQUEST_FORWARDED \<and> refused es) \<and> \<not> has_event r es)
       [EVENT_REQUEST_RECEIVED, EVENT_REQUEST_FORWARDED, EVENT_RESPONSE_RETURNED]"

definition nullable :: "string option \<Rightarrow> json" where
  "nullable s = (case s of None \<Rightarrow> JNull | Some s \<Rightarrow> JString s)"

definition payload_members :: "receipt_builder \<Rightarrow> (string \<times> json) list" where
  "payload_members b = [(''api_version'', JString RECEIPT_API_VERSION), (''receipt_id'', JString (receipt_id b)),
     (''chat_id'', nullable (b_chat_id b)), (''model'', nullable (b_model b)),
     (''workload_keyset_digest'', JString (b_workload_keyset_digest b)),
     (''endpoint'', JString (b_endpoint b)), (''method'', JString (b_method b)),
     (''served_at'', JNumber (PosInt (served_at b))), (''event_log'', JArray (map event_value (events b)))]"

definition finalize :: "'x lib_scheme \<Rightarrow> key_provider \<Rightarrow> receipt_builder \<Rightarrow> string \<Rightarrow> receipt_error + signed_receipt" where
  "finalize L keys b key =
     (if events b = [] then Inl EmptyReceipt
      else case missing_required (events b) of
        Some r \<Rightarrow> Inl (MissingRequiredEvent r)
      | None \<Rightarrow>
          and_then (ok_or (Key (UnknownReceiptKeyId key))
              (find (\<lambda>k. key_id k = key) (receipt_keys keys))) (\<lambda>receipt_key.
          if algo receipt_key \<noteq> ALGO_ED25519 then Inl (Key (UnsupportedAlgo (algo receipt_key)))
          else let m = AList.update ''key_id'' (JString (key_id receipt_key)) (payload_members b)
          in and_then (map_err Canonicalization (receipt_signing_input L (JObject m))) (\<lambda>input.
             and_then (map_err Key (sign_receipt keys (key_id receipt_key) input)) (\<lambda>signature.
             let signature_hex = hex_encode L signature;
                 document = JObject (AList.update ''signature'' (JString signature_hex) m)
             in and_then (map_err Canonicalization (jcs_bytes L document)) (\<lambda>bytes.
                Inr \<lparr>sr_receipt_id = receipt_id b, sr_chat_id = b_chat_id b,
                   sr_workload_keyset_digest = b_workload_keyset_digest b, sr_document = bytes,
                   sr_key_id = key_id receipt_key, sr_signature_hex = signature_hex\<rparr>)))))"

section \<open>Logs that can be built\<close>

text \<open>The builders a caller can reach. The fields of an extension event are a JSON object (a map whose
  values are well-formed), which is what the type \<open>Map<String, Value>\<close> guarantees.\<close>

inductive built :: "'x lib_scheme \<Rightarrow> receipt_builder \<Rightarrow> bool" for L where
  built_new: "built L (builder_new rid chat model ksd ep meth at)"
| built_body: "built L b \<Longrightarrow> append_body_hash L b etype body = Inr (b', h) \<Longrightarrow>
     etype \<in> {EVENT_REQUEST_RECEIVED, EVENT_REQUEST_FORWARDED, EVENT_MIDDLEWARE_FORWARDED,
       EVENT_RESPONSE_RECEIVED, EVENT_RESPONSE_RETURNED} \<Longrightarrow> built L b'"
| built_hash: "built L b \<Longrightarrow> append_hash b etype h = Inr b' \<Longrightarrow>
     etype \<in> {EVENT_RESPONSE_RECEIVED, EVENT_RESPONSE_RETURNED} \<Longrightarrow> built L b'"
| built_route: "built L b \<Longrightarrow> add_route_selected b target = Inr b' \<Longrightarrow> built L b'"
| built_verified: "built L b \<Longrightarrow> add_upstream_verified_with_session b event sid = Inr b' \<Longrightarrow> built L b'"
| built_failed: "built L b \<Longrightarrow> add_upstream_verified_failed b model reason req name = Inr b' \<Longrightarrow> built L b'"
| built_extension: "built L b \<Longrightarrow> jwf (JObject fs) \<Longrightarrow> add_extension_event b etype fs = Inr b' \<Longrightarrow> built L b'"
| built_chat: "built L b \<Longrightarrow> built L (set_chat_id b chat)"
| built_model: "built L b \<Longrightarrow> built L (set_upstream_verified_model_id b model)"

definition verification_ok :: "receipt_event \<Rightarrow> bool" where
  "verification_ok e =
     ((field_str e ''result'' = Some ''verified'' \<and>
        (case field_str e ''session_id'' of Some sid \<Rightarrow> is_session_id sid | None \<Rightarrow> False)) \<or>
      (field_str e ''result'' = Some ''failed'' \<and> field_str e ''reason'' \<noteq> None))"

text \<open>The shape the gateway's own operations give an event of a reserved type, which is more than an extension
  event could promise: exactly one body hash, or exactly the members of one of the two verdicts.\<close>

definition reserved_shape :: "receipt_event \<Rightarrow> bool" where
  "reserved_shape e =
     ((re_type e \<in> {EVENT_REQUEST_RECEIVED, EVENT_REQUEST_FORWARDED, EVENT_RESPONSE_RETURNED} \<longrightarrow>
         (case re_fields e of [(k, JString h)] \<Rightarrow> k = ''body_hash'' | _ \<Rightarrow> False)) \<and>
      (re_type e = EVENT_UPSTREAM_VERIFIED \<longrightarrow> verification_ok e \<and>
         map fst (re_fields e) \<in> set [[''result'', ''required'', ''model_id'', ''session_id''],
           [''result'', ''required'', ''model_id'', ''reason''],
           [''result'', ''required'', ''model_id'', ''reason'', ''upstream_name'']]))"

definition event_ok :: "receipt_event \<Rightarrow> bool" where
  "event_ok e = (jwf (JObject (re_fields e)) \<and> ''type'' \<notin> fst ` set (re_fields e) \<and> reserved_shape e)"

lemma event_ok_verification: "event_ok e \<Longrightarrow> re_type e = EVENT_UPSTREAM_VERIFIED \<Longrightarrow> verification_ok e"
  by (simp add: event_ok_def reserved_shape_def)

definition log_ok :: "receipt_event list \<Rightarrow> bool" where
  "log_ok es = (list_all event_ok es \<and> (es \<noteq> [] \<longrightarrow> re_type (hd es) = EVENT_REQUEST_RECEIVED))"

lemma append_event_Inr:
  "append_event b etype fs = Inr b' \<longleftrightarrow>
     (events b = [] \<longrightarrow> etype = EVENT_REQUEST_RECEIVED) \<and> ''type'' \<notin> fst ` set fs \<and>
     b' = b\<lparr>events := events b @ [\<lparr>re_type = etype, re_fields = fs\<rparr>]\<rparr>"
  by (auto simp: append_event_def list_ex_iff)

lemma append_event_ok:
  assumes "log_ok (events b)" and "append_event b etype fs = Inr b'"
    and "event_ok \<lparr>re_type = etype, re_fields = fs\<rparr>"
  shows "log_ok (events b')"
  using assms by (cases "events b") (auto simp: append_event_Inr log_ok_def)

lemma jwf_update: "jwf (JObject m) \<Longrightarrow> jwf v \<Longrightarrow> jwf (JObject (AList.update k v m))"
proof -
  assume m: "jwf (JObject m)" and v: "jwf v"
  let ?m = "AList.update k v m"
  have wf: "hm_wf m" "hm_wf ?m" using m by simp_all
  have "jwf w" if "(k', w) \<in> set ?m" for k' w
  proof -
    have "map_of ?m k' = Some w" using that wf(2) by (simp only: hm_wf_map_of)
    then have "w = v \<or> (k', w) \<in> set m" by (auto split: if_splits dest: map_of_SomeD)
    then show ?thesis using m v by (auto simp: list_all_iff)
  qed
  with wf(2) show ?thesis by (auto simp: list_all_iff)
qed

lemma set_first_verified_model_ok:
  assumes "log_ok es"
  shows "log_ok (set_first_verified_model model es)"
proof -
  have "list_all event_ok (set_first_verified_model model es)" if "list_all event_ok es" for es
    using that
  proof (induction es)
    case (Cons e es)
    then have ok: "event_ok e" by simp
    have "event_ok (e\<lparr>re_fields := AList.update ''model_id'' (JString model) (re_fields e)\<rparr>)"
      if "re_type e = EVENT_UPSTREAM_VERIFIED"
    proof -
      have "jwf (JObject (AList.update ''model_id'' (JString model) (re_fields e)))"
        using ok by (intro jwf_update) (simp_all add: event_ok_def)
      then show ?thesis
        using ok that
          by (auto simp: event_ok_def reserved_shape_def verification_ok_def field_str_def update_conv' dom_update
              update_keys event_names)
    qed
    then show ?case using Cons by auto
  qed simp
  moreover have "re_type (hd (set_first_verified_model model es)) = re_type (hd es)" if "es \<noteq> []"
    using that by (cases es) auto
  moreover have "set_first_verified_model model es = [] \<longleftrightarrow> es = []" by (cases es) auto
  ultimately show ?thesis using assms by (simp add: log_ok_def)
qed

lemma built_log_ok: "built L b \<Longrightarrow> log_ok (events b)"
proof (induction rule: built.induct)
  case (built_new rid chat model ksd ep meth at)
  then show ?case by (simp add: builder_new_def log_ok_def)
next
  case (built_body b etype body b' h)
  then have "append_event b etype [(''body_hash'', JString h)] = Inr b'"
    by (auto simp: append_body_hash_def append_hash_def Let_def result_iffs)
  then show ?case
    by (rule append_event_ok [OF built_body.IH]) (use built_body.hyps in \<open>auto simp: event_ok_def reserved_shape_def event_names\<close>)
next
  case (built_hash b etype h b')
  then show ?case
    by (intro append_event_ok [OF built_hash.IH]) (auto simp: append_hash_def event_ok_def reserved_shape_def event_names)
next
  case (built_route b target b')
  then show ?case
    by (intro append_event_ok [OF built_route.IH]) (auto simp: add_route_selected_def event_ok_def reserved_shape_def event_names)
next
  case (built_verified b event sid b')
  then show ?case
    by (intro append_event_ok [OF built_verified.IH])
      (auto simp: add_upstream_verified_with_session_def event_ok_def reserved_shape_def verification_ok_def
        field_str_def result_str_def event_names split: if_splits)
next
  case (built_failed b model reason req name b')
  from built_failed.hyps(2) [unfolded add_upstream_verified_failed_def] show ?case
    by (rule append_event_ok [OF built_failed.IH])
      (auto simp: event_ok_def reserved_shape_def verification_ok_def field_str_def result_str_def event_names
        split: option.splits)
next
  case (built_extension b fs etype b')
  then have "append_event b etype fs = Inr b'" and "etype \<notin> {EVENT_REQUEST_RECEIVED, EVENT_REQUEST_FORWARDED,
      EVENT_UPSTREAM_VERIFIED, EVENT_RESPONSE_RETURNED}"
    by (auto simp: add_extension_event_def split: if_splits)
  then show ?case
    by (intro append_event_ok [OF built_extension.IH])
      (use built_extension.hyps in \<open>auto simp: event_ok_def reserved_shape_def append_event_Inr\<close>)
next
  case (built_chat b chat)
  then show ?case by (simp add: set_chat_id_def)
next
  case (built_model b model)
  then show ?case
    by (auto simp: set_upstream_verified_model_id_def set_first_verified_model_ok split: option.splits)
qed

text \<open>A request that was received, forwarded and answered, and the key that signs its receipt.\<close>

definition sample_body_event :: "string \<Rightarrow> bytes \<Rightarrow> receipt_event" where
  "sample_body_event etype body =
     \<lparr>re_type = etype, re_fields = [(''body_hash'', JString (sha256_hex sample_lib body))]\<rparr>"

definition sample_builder :: "receipt_event list \<Rightarrow> receipt_builder" where
  "sample_builder es = (builder_new ''r1'' None None ''sha256:00'' ''/v1/messages'' ''POST'' 1700000000)\<lparr>events := es\<rparr>"

definition sample_events :: "receipt_event list" where
  "sample_events = [sample_body_event EVENT_REQUEST_RECEIVED ''ask'', sample_body_event EVENT_REQUEST_FORWARDED ''ask'',
     sample_body_event EVENT_RESPONSE_RETURNED ''answer'']"

definition sample_signer :: key_provider where
  "sample_signer = \<lparr>receipt_keys = [\<lparr>key_id = ''k1'', algo = ''ed25519'', public_key_hex = ''00''\<rparr>],
     sign_receipt = (\<lambda>k input. Inr (sample_pad 64 input))\<rparr>"

lemma sample_built_step:
  assumes "built sample_lib (sample_builder es)" and "es = [] \<longrightarrow> etype = EVENT_REQUEST_RECEIVED"
    and "etype \<in> {EVENT_REQUEST_RECEIVED, EVENT_REQUEST_FORWARDED, EVENT_RESPONSE_RETURNED}"
  shows "built sample_lib (sample_builder (es @ [sample_body_event etype body]))"
  using assms
  by (intro built_body [OF assms(1), of etype body _ "sha256_hex sample_lib body"])
    (auto simp: append_body_hash_def append_hash_def append_event_def Let_def sample_builder_def sample_body_event_def
      builder_new_def)

lemma sample_built: "built sample_lib (sample_builder sample_events)"
proof -
  have "built sample_lib (sample_builder [])"
    by (simp add: sample_builder_def builder_new_def) (rule built_new [unfolded builder_new_def])
  from sample_built_step [OF this, of EVENT_REQUEST_RECEIVED "''ask''"]
  have "built sample_lib (sample_builder [sample_body_event EVENT_REQUEST_RECEIVED ''ask''])" by simp
  from sample_built_step [OF this, of EVENT_REQUEST_FORWARDED "''ask''"]
  have "built sample_lib (sample_builder [sample_body_event EVENT_REQUEST_RECEIVED ''ask'',
      sample_body_event EVENT_REQUEST_FORWARDED ''ask''])" by simp
  from sample_built_step [OF this, of EVENT_RESPONSE_RETURNED "''answer''"]
  show ?thesis by (simp add: sample_events_def)
qed



section \<open>What a signature covers\<close>

lemma foldl_update_fresh:
  assumes "distinct (map fst fs)" and "fst ` set acc \<inter> fst ` set fs = {}"
  shows "foldl (\<lambda>m (k, v). AList.update k v m) acc fs = acc @ fs"
  using assms
proof (induction fs arbitrary: acc)
  case (Cons p fs)
  obtain k v where p: "p = (k, v)" by (cases p rule: prod.exhaust)
  have "AList.update k v acc = acc @ [(k, v)]" if "k \<notin> fst ` set acc"
    using that by (induction acc) auto
  with Cons.prems p have "AList.update k v acc = acc @ [(k, v)]" by auto
  moreover have "foldl (\<lambda>m (k, v). AList.update k v m) (acc @ [(k, v)]) fs = (acc @ [(k, v)]) @ fs"
    using Cons.prems p by (intro Cons.IH) auto
  ultimately show ?case using p by simp
qed simp

lemma event_value_members:
  "event_ok e \<Longrightarrow> event_value e = JObject ((''type'', JString (re_type e)) # re_fields e)"
  unfolding event_value_def event_ok_def by (subst foldl_update_fresh) auto

lemma payload_jwf:
  assumes "log_ok (events b)"
  shows "jwf (JObject (AList.update ''key_id'' (JString k) (payload_members b)))"
proof -
  have "jwf (event_value e)" if "e \<in> set (events b)" for e
  proof -
    have "event_ok e" using that assms by (simp add: log_ok_def list_all_iff)
    then show ?thesis by (simp add: event_value_members) (simp add: event_ok_def image_image)
  qed
  then show ?thesis
    by (auto simp: payload_members_def nullable_def list_all_iff split: option.splits)
qed

inductive_cases same_value_objectE: "same_value (JObject m) v"

lemma signing_input_same_value:
  assumes "same_value (JObject m) v" and "jwf (JObject m)" and "jwf v"
  shows "receipt_signing_input L v = receipt_signing_input L (JObject m)"
proof -
  obtain m' where v: "v = JObject m'" and dom: "dom (map_of m) = dom (map_of m')"
    and vals: "\<And>k x y. map_of m k = Some x \<Longrightarrow> map_of m' k = Some y \<Longrightarrow> same_value x y"
    using assms(1) by (rule same_value_objectE) (rule that, assumption, assumption, blast)
  let ?r = "obj_remove ''signature''"
  have maps: "map_of (?r m) = (map_of m)(''signature'' := None)" "map_of (?r m') = (map_of m')(''signature'' := None)"
    using assms v by (auto simp: obj_remove_map_of)
  have "same_value (JObject (?r m)) (JObject (?r m'))"
    by (rule same_object) (use dom vals in \<open>auto simp: maps split: if_splits\<close>)
  then have "jcs_sorted (JObject (?r m)) = jcs_sorted (JObject (?r m'))"
    using assms(2,3) v by (intro same_value_jcs_sorted jwf_obj_remove) auto
  then show ?thesis by (simp add: receipt_signing_input_def v jcs_bytes_def)
qed

lemma finalize_Inr:
  assumes "finalize L keys b k = Inr r"
  obtains key m input sig where
    "events b \<noteq> []" "missing_required (events b) = None"
    "find (\<lambda>key. key_id key = k) (receipt_keys keys) = Some key" "algo key = ALGO_ED25519"
    "m = AList.update ''key_id'' (JString (key_id key)) (payload_members b)"
    "receipt_signing_input L (JObject m) = Inr input"
    "sign_receipt keys (key_id key) input = Inr sig"
    "jcs_bytes L (JObject (AList.update ''signature'' (JString (hex_encode L sig)) m)) = Inr (sr_document r)"
    "sr_receipt_id r = receipt_id b" "sr_chat_id r = b_chat_id b"
    "sr_workload_keyset_digest r = b_workload_keyset_digest b"
    "sr_key_id r = key_id key" "sr_signature_hex r = hex_encode L sig"
  using assms unfolding finalize_def
  by (auto simp: result_iffs Let_def split: if_splits option.splits)

lemma finalize_document:
  assumes "built L b" and "finalize L keys b k = Inr r"
  shows "\<exists>m. jwf (JObject m) \<and> jcs_bytes L (JObject m) = Inr (sr_document r)"
proof (rule finalize_Inr [OF assms(2)])
  fix key m sig
  assume m: "m = AList.update ''key_id'' (JString (key_id key)) (payload_members b)"
    and doc: "jcs_bytes L (JObject (AList.update ''signature'' (JString (hex_encode L sig)) m)) = Inr (sr_document r)"
  have "jwf (JObject m)" unfolding m by (rule payload_jwf [OF built_log_ok [OF assms(1)]])
  then have "jwf (JObject (AList.update ''signature'' (JString (hex_encode L sig)) m))"
    by (rule jwf_update) simp
  with doc show ?thesis by blast
qed

lemma missing_required_None:
  "missing_required es = None \<longleftrightarrow> has_event EVENT_REQUEST_RECEIVED es \<and> has_event EVENT_RESPONSE_RETURNED es \<and>
     (has_event EVENT_REQUEST_FORWARDED es \<or> refused es)"
  by (auto simp: missing_required_def event_names)

lemma jcs_ok_update:
  assumes "jwf (JObject m)" and "jcs_ok (JObject m)" and "is_ascii k" and "jcs_ok v"
  shows "jcs_ok (JObject (AList.update k v m))"
proof -
  let ?m = "AList.update k v m"
  have wf: "hm_wf m" "hm_wf ?m" using assms(1) by simp_all
  have "is_ascii k' \<and> jcs_ok w" if "(k', w) \<in> set ?m" for k' w
  proof -
    have "map_of ?m k' = Some w" using that wf(2) by (simp only: hm_wf_map_of)
    then have "(k' = k \<and> w = v) \<or> (k', w) \<in> set m" by (auto split: if_splits dest: map_of_SomeD)
    then show ?thesis using assms by (auto simp: list_all_iff)
  qed
  then show ?thesis by (auto simp: list_all_iff)
qed

lemma jcs_bytes_total: "jcs_ok v \<Longrightarrow> \<exists>b. jcs_bytes L v = Inr b"
  using jcs_sorted_ok_iff [of v] by (auto simp: jcs_bytes_def)

text \<open>Finalising fails for no other reason than those it names.\<close>

lemma finalize_total:
  assumes "built L b" and "missing_required (events b) = None"
    and "list_all (\<lambda>e. jcs_ok (JObject (re_fields e))) (events b)"
    and "find (\<lambda>key. key_id key = k) (receipt_keys keys) = Some key" and "algo key = ALGO_ED25519"
    and "\<And>input. \<exists>sig. sign_receipt keys k input = Inr sig"
  shows "\<exists>r. finalize L keys b k = Inr r"
proof -
  have log: "log_ok (events b)" by (rule built_log_ok [OF assms(1)])
  define m where "m = AList.update ''key_id'' (JString (key_id key)) (payload_members b)"
  have kid: "key_id key = k" using assms(4) by (auto simp: find_Some_iff)
  have "jcs_ok (event_value e)" if "e \<in> set (events b)" for e
  proof -
    have "event_ok e" "jcs_ok (JObject (re_fields e))" using that log assms(3) by (auto simp: log_ok_def list_all_iff)
    then show ?thesis by (simp add: event_value_members) (simp add: is_ascii_def)
  qed
  then have ok: "jcs_ok (JObject m)"
    by (auto simp: m_def payload_members_def nullable_def is_ascii_def list_all_iff split: option.splits)
  have wf: "jwf (JObject m)" unfolding m_def by (rule payload_jwf [OF log])
  have "jcs_ok (JObject (obj_remove ''signature'' m))"
    using ok wf by (auto simp: list_all_iff set_obj_remove)
  then obtain input where input: "receipt_signing_input L (JObject m) = Inr input"
    using jcs_bytes_total by (fastforce simp: receipt_signing_input_def)
  obtain sig where sig: "sign_receipt keys k input = Inr sig" using assms(6) by blast
  have "is_ascii ''signature''" by (simp add: is_ascii_def)
  then have "jcs_ok (JObject (AList.update ''signature'' (JString (hex_encode L sig)) m))"
    by (intro jcs_ok_update [OF wf ok]) simp_all
  then obtain doc where "jcs_bytes L (JObject (AList.update ''signature'' (JString (hex_encode L sig)) m)) = Inr doc"
    using jcs_bytes_total by blast
  moreover have "events b \<noteq> []" using assms(2) by (auto simp: missing_required_None has_event_def)
  ultimately show ?thesis
    using assms(2,4,5) input sig by (auto simp: finalize_def m_def kid)
qed

lemma sample_finalized: "\<exists>r. finalize sample_lib sample_signer (sample_builder sample_events) ''k1'' = Inr r"
proof (rule finalize_total [OF sample_built])
  show "missing_required (events (sample_builder sample_events)) = None"
    by (simp add: missing_required_None sample_builder_def sample_events_def sample_body_event_def has_event_def)
  show "list_all (\<lambda>e. jcs_ok (JObject (re_fields e))) (events (sample_builder sample_events))"
    by (simp add: sample_builder_def sample_events_def sample_body_event_def is_ascii_def)
  show "find (\<lambda>key. key_id key = ''k1'') (receipt_keys sample_signer) = Some (hd (receipt_keys sample_signer))"
    and "algo (hd (receipt_keys sample_signer)) = ALGO_ED25519"
    by (simp_all add: sample_signer_def ALGO_ED25519_def)
  show "\<exists>sig. sign_receipt sample_signer ''k1'' input = Inr sig" for input by (simp add: sample_signer_def)
qed

text \<open>C7: The signature of a finalised receipt is checkable by anyone who reads the document. The key is one
  the provider lists under the requested id, with algorithm ed25519; the signed bytes are the signing input
  recomputed from the served document, whatever JSON encoding of it a verifier reads, and altering the
  \<open>signature\<close> member alone leaves them unchanged.\<close>

theorem finalize_signature_covers_document:
  assumes "built L b" and "finalize L keys b k = Inr r" and "to_vec_inj L"
    and "jwf (JObject m)" and "jcs_bytes L (JObject m) = Inr (sr_document r)"
  shows "\<exists>key input sig. key \<in> set (receipt_keys keys) \<and> key_id key = k \<and> algo key = ALGO_ED25519 \<and>
    sign_receipt keys k input = Inr sig \<and> sr_signature_hex r = hex_encode L sig \<and> sr_key_id r = k \<and>
    receipt_signing_input L (JObject m) = Inr input \<and>
    receipt_signing_input L (JObject (AList.update ''signature'' s m)) = Inr input"
proof -
  obtain key p input sig where find: "find (\<lambda>key. key_id key = k) (receipt_keys keys) = Some key"
    and algo: "algo key = ALGO_ED25519"
    and p: "p = AList.update ''key_id'' (JString (key_id key)) (payload_members b)"
    and input: "receipt_signing_input L (JObject p) = Inr input"
    and sig: "sign_receipt keys (key_id key) input = Inr sig" "sr_signature_hex r = hex_encode L sig"
    and doc: "jcs_bytes L (JObject (AList.update ''signature'' (JString (hex_encode L sig)) p)) = Inr (sr_document r)"
    and kid: "sr_key_id r = key_id key"
    by (rule finalize_Inr [OF assms(2)])
  let ?d = "AList.update ''signature'' (JString (hex_encode L sig)) p"
  have wf: "jwf (JObject p)" unfolding p by (rule payload_jwf [OF built_log_ok [OF assms(1)]])
  have wf_d: "jwf (JObject ?d)" by (rule jwf_update [OF wf]) simp
  have "same_value (JObject ?d) (JObject m)"
    by (rule jcs_bytes_same_value [OF assms(3) wf_d assms(4) doc assms(5)])
  from signing_input_same_value [OF this wf_d assms(4)]
  have "receipt_signing_input L (JObject m) = receipt_signing_input L (JObject ?d)" .
  then have "receipt_signing_input L (JObject m) = Inr input"
    by (simp add: receipt_signing_input_signature [OF wf] input)
  moreover have "receipt_signing_input L (JObject (AList.update ''signature'' s m)) = receipt_signing_input L (JObject m)"
    by (rule receipt_signing_input_signature [OF assms(4)])
  moreover have "key \<in> set (receipt_keys keys)" "key_id key = k"
    using find by (auto simp: find_Some_iff)
  ultimately show ?thesis using algo sig kid by metis
qed

theorem finalize_signature_covers_document_witness:
  "\<exists>r m input. finalize sample_lib sample_signer (sample_builder sample_events) ''k1'' = Inr r \<and>
     jcs_bytes sample_lib (JObject m) = Inr (sr_document r) \<and>
     receipt_signing_input sample_lib (JObject m) = Inr input \<and>
     sr_signature_hex r = sample_hex (sample_pad 64 input)"
proof -
  obtain r where r: "finalize sample_lib sample_signer (sample_builder sample_events) ''k1'' = Inr r"
    using sample_finalized by blast
  obtain m where wf: "jwf (JObject m)" and doc: "jcs_bytes sample_lib (JObject m) = Inr (sr_document r)"
    using finalize_document [OF sample_built r] by blast
  from finalize_signature_covers_document [OF sample_built r sample_lib_laws(5) wf doc, of JNull]
  obtain input sig' where "sign_receipt sample_signer ''k1'' input = Inr sig'"
    "sr_signature_hex r = hex_encode sample_lib sig'"
    "receipt_signing_input sample_lib (JObject m) = Inr input"
    by blast
  then show ?thesis using r doc by (auto simp: sample_signer_def sample_lib_def)
qed

text \<open>What a finished log must record.\<close>

definition required_recorded :: "receipt_event list \<Rightarrow> bool" where
  "required_recorded es = (has_event EVENT_REQUEST_RECEIVED es \<and> has_event EVENT_RESPONSE_RETURNED es \<and>
     (has_event EVENT_REQUEST_FORWARDED es \<or>
       (\<exists>e \<in> set es. re_type e = EVENT_UPSTREAM_VERIFIED \<and> field_str e ''result'' = Some ''failed'' \<and>
          map_of (re_fields e) ''required'' = Some (JBool True) \<and> field_str e ''reason'' \<noteq> None)))"

lemma refused_reason:
  assumes "log_ok es"
  shows "refused es \<longleftrightarrow> (\<exists>e \<in> set es. re_type e = EVENT_UPSTREAM_VERIFIED \<and> field_str e ''result'' = Some ''failed'' \<and>
    map_of (re_fields e) ''required'' = Some (JBool True) \<and> field_str e ''reason'' \<noteq> None)"
proof -
  have "field_str e ''reason'' \<noteq> None"
    if "e \<in> set es" "re_type e = EVENT_UPSTREAM_VERIFIED" "field_str e ''result'' = Some ''failed''" for e
    using that assms event_ok_verification [of e] by (auto simp: log_ok_def list_all_iff verification_ok_def)
  moreover have "Option.bind v as_bool = Some True \<longleftrightarrow> v = Some (JBool True)" for v
  proof (cases v)
    case (Some w)
    then show ?thesis by (cases w) auto
  qed simp
  ultimately show ?thesis by (auto simp: refused_def list_ex_iff result_str_def)
qed

lemma missing_required_recorded: "log_ok es \<Longrightarrow> missing_required es = None \<longleftrightarrow> required_recorded es"
  by (auto simp: missing_required_None required_recorded_def refused_reason)



end
