(* ===== verification/Session.thy ===== *)
theory Session
  imports Receipt
begin

text \<open>
  Attested sessions (\<open>src/aggregator/session.rs\<close>): the claims, the evidence bundle, the session document
  and its content address. The JSON value of a document follows its \<open>Serialize\<close> derivation: members in
  declaration order, renamed and omitted as the attributes say. Parsing a document is the operation
  \<open>parse_document\<close> of another package. The lemmas show that a bundle round-trips through its data URI and
  that the id of a session depends on nothing but the value of its document.
\<close>

section \<open>Documents\<close>

definition SESSION_API_VERSION :: string where "SESSION_API_VERSION = ''aci/1''"

datatype claim_status = Asserted | Refuted | Unknown
datatype claim_source = HardwareProven | VerifierDerived | ProviderAsserted | OperatorAsserted

record claim =
  cl_status :: claim_status
  cl_source :: "claim_source option"
  cl_reason :: "string option"

definition claim_unknown :: claim where
  "claim_unknown = \<lparr>cl_status = Unknown, cl_source = None, cl_reason = None\<rparr>"

definition claim_asserted :: "claim_source \<Rightarrow> string \<Rightarrow> claim" where
  "claim_asserted src why = \<lparr>cl_status = Asserted, cl_source = Some src, cl_reason = Some why\<rparr>"

definition claim_refuted :: "claim_source \<Rightarrow> string \<Rightarrow> claim" where
  "claim_refuted src why = \<lparr>cl_status = Refuted, cl_source = Some src, cl_reason = Some why\<rparr>"

record session_claims =
  tee_attested :: claim
  gpu_attested :: claim
  tcb_up_to_date :: claim
  os_known_good :: claim
  serving_software_known_good :: claim
  model_weights_provenance :: claim
  claims_extra :: "(string \<times> json) list"

record evidence_ref =
  ev_digest :: "string option"
  ev_data :: "string option"

record workload_identity_ref =
  signing_address :: "string option"
  identity_extra :: "(string \<times> json) list"

record session_document =
  sd_api_version :: string
  sd_upstream_name :: string
  sd_endpoint :: "string option"
  sd_verifier_id :: string
  established_at :: u64
  expires_at :: u64
  sd_identity :: "workload_identity_ref option"
  sd_channel_binding :: "channel_binding list"
  sd_claims :: session_claims
  evidence :: evidence_ref

record attested_session =
  session_id :: string
  session_bytes :: bytes
  document :: session_document

definition identity_is_empty :: "workload_identity_ref \<Rightarrow> bool" where
  "identity_is_empty i = (signing_address i = None \<and> identity_extra i = [])"

section \<open>Serialisation\<close>

definition skip_none :: "string \<Rightarrow> string option \<Rightarrow> (string \<times> json) list" where
  "skip_none k v = (case v of None \<Rightarrow> [] | Some s \<Rightarrow> [(k, JString s)])"

definition skip_empty :: "string \<Rightarrow> (string \<times> json) list \<Rightarrow> (string \<times> json) list" where
  "skip_empty k m = (if m = [] then [] else [(k, JObject m)])"

definition claim_value :: "claim \<Rightarrow> json" where
  "claim_value c = JObject
     ([(''status'', JString (case cl_status c of Asserted \<Rightarrow> ''asserted'' | Refuted \<Rightarrow> ''refuted'' | Unknown \<Rightarrow> ''unknown''))]
      @ skip_none ''source'' (map_option (\<lambda>s. case s of HardwareProven \<Rightarrow> ''hardware_proven''
          | VerifierDerived \<Rightarrow> ''verifier_derived'' | ProviderAsserted \<Rightarrow> ''provider_asserted''
          | OperatorAsserted \<Rightarrow> ''operator_asserted'') (cl_source c))
      @ skip_none ''reason'' (cl_reason c))"

definition claims_value :: "session_claims \<Rightarrow> json" where
  "claims_value c = JObject ([(''tee_attested'', claim_value (tee_attested c)),
     (''gpu_attested'', claim_value (gpu_attested c)), (''tcb_up_to_date'', claim_value (tcb_up_to_date c)),
     (''os_known_good'', claim_value (os_known_good c)),
     (''serving_software_known_good'', claim_value (serving_software_known_good c)),
     (''model_weights_provenance'', claim_value (model_weights_provenance c))]
     @ skip_empty ''extra'' (claims_extra c))"

definition evidence_value :: "evidence_ref \<Rightarrow> json" where
  "evidence_value e = JObject (skip_none ''digest'' (ev_digest e) @ skip_none ''data'' (ev_data e))"

definition identity_value :: "workload_identity_ref \<Rightarrow> json" where
  "identity_value i = JObject (skip_none ''signing_address'' (signing_address i) @ skip_empty ''extra'' (identity_extra i))"

definition binding_value :: "channel_binding \<Rightarrow> json" where
  "binding_value b = (case b of
     TlsSpkiSha256 orig spki \<Rightarrow> JObject [(''type'', JString ''tls_spki_sha256''), (''origin'', JString orig),
       (''spki_sha256'', JString spki)]
   | E2eePublicKeySha256 prov kid alg pk \<Rightarrow> JObject ([(''type'', JString ''e2ee_public_key_sha256''),
       (''provider'', JString prov)] @ skip_none ''key_id'' kid
       @ [(''algorithm'', JString alg), (''public_key_sha256'', JString pk)])
   | ProxyImageSha256 prov img cred \<Rightarrow> JObject [(''type'', JString ''proxy_image_sha256''),
       (''provider'', JString prov), (''proxy_image_digest'', JString img), (''credential_sha256'', JString cred)])"

definition document_value :: "session_document \<Rightarrow> json" where
  "document_value d = JObject ([(''api_version'', JString (sd_api_version d)),
     (''upstream_name'', JString (sd_upstream_name d)), (''endpoint'', nullable (sd_endpoint d)),
     (''verifier_id'', JString (sd_verifier_id d)), (''established_at'', JNumber (PosInt (established_at d))),
     (''expires_at'', JNumber (PosInt (expires_at d)))]
     @ (case sd_identity d of None \<Rightarrow> [] | Some i \<Rightarrow> [(''identity'', identity_value i)])
     @ [(''channel_binding'', JArray (map binding_value (sd_channel_binding d))),
        (''claims'', claims_value (sd_claims d)), (''evidence'', evidence_value (evidence d))])"

text \<open>The maps of a document are \<open>BTreeMap\<close>s of parsed JSON values.\<close>

definition document_wf :: "session_document \<Rightarrow> bool" where
  "document_wf d = (bt_wf (claims_extra (sd_claims d)) \<and> jwf (JObject (claims_extra (sd_claims d))) \<and>
     (case sd_identity d of None \<Rightarrow> True | Some i \<Rightarrow> bt_wf (identity_extra i) \<and> jwf (JObject (identity_extra i))))"

section \<open>Evidence bundles\<close>

definition evidence_from_value :: "json \<Rightarrow> evidence_ref" where
  "evidence_from_value v = \<lparr>ev_digest = jget_str v ''digest'', ev_data = jget_str v ''data''\<rparr>"

definition digest_matches_data :: "'x lib_scheme \<Rightarrow> evidence_ref \<Rightarrow> bool" where
  "digest_matches_data L e =
     (case (ev_digest e, ev_data e) of
        (Some d, Some uri) \<Rightarrow>
          (case split_once '';base64,'' uri of
             None \<Rightarrow> True
           | Some (_, b64) \<Rightarrow> (case b64_decode L b64 of Some b \<Rightarrow> sha256_hex L b = d | None \<Rightarrow> False))
      | _ \<Rightarrow> True)"

definition evidence_decode :: "'x lib_scheme \<Rightarrow> evidence_ref \<Rightarrow> (string \<times> bytes) option" where
  "evidence_decode L e =
     Option.bind (ev_digest e) (\<lambda>d.
     Option.bind (ev_data e) (\<lambda>uri.
     Option.bind (strip_prefix ''data:'' uri) (\<lambda>rest.
     Option.bind (split_once '';base64,'' rest) (\<lambda>(content_type, b64).
     Option.bind (b64_decode L b64) (\<lambda>b.
     if sha256_hex L b \<noteq> d then None else Some (content_type, b))))))"

definition evidence_from_bytes :: "'x lib_scheme \<Rightarrow> string \<Rightarrow> bytes \<Rightarrow> evidence_ref" where
  "evidence_from_bytes L content_type b = \<lparr>ev_digest = Some (sha256_hex L b),
     ev_data = Some (''data:'' @ content_type @ '';base64,'' @ b64_encode L b)\<rparr>"

section \<open>Sealing\<close>

datatype session_error = NotParsable | SessionNotCanonical jcs_error

definition seal :: "'x lib_scheme \<Rightarrow> session_document \<Rightarrow> session_error + attested_session" where
  "seal L d = and_then (map_err SessionNotCanonical (jcs_bytes L (document_value d))) (\<lambda>b.
     Inr \<lparr>session_id = sha256_bare_hex L b, session_bytes = b, document = d\<rparr>)"

definition session_from_bytes ::
  "'x lib_scheme \<Rightarrow> (bytes \<Rightarrow> session_document option) \<Rightarrow> bytes \<Rightarrow> session_error + attested_session" where
  "session_from_bytes L parse_document b =
     and_then (ok_or NotParsable (parse_document b)) (\<lambda>d.
     and_then (ok_or NotParsable (from_slice L b)) (\<lambda>v.
     and_then (map_err SessionNotCanonical (jcs_bytes L v)) (\<lambda>c.
     Inr \<lparr>session_id = sha256_bare_hex L c, session_bytes = b, document = d\<rparr>)))"

section \<open>Lemmas\<close>

lemma document_value_jwf: "document_wf d \<Longrightarrow> jwf (document_value d)"
proof -
  assume wf: "document_wf d"
  have claim: "jwf (claim_value c)" for c by (auto simp: claim_value_def skip_none_def split: option.splits)
  have binding: "jwf (binding_value b)" for b
    by (cases b) (auto simp: binding_value_def skip_none_def split: option.splits)
  have "jwf (claims_value (sd_claims d))"
    using wf claim by (auto simp: claims_value_def skip_empty_def document_wf_def)
  moreover have "jwf (evidence_value (evidence d))"
    by (auto simp: evidence_value_def skip_none_def split: option.splits)
  moreover have "jwf (identity_value i)" if "sd_identity d = Some i" for i
    using wf that by (auto simp: identity_value_def skip_none_def skip_empty_def document_wf_def split: option.splits)
  ultimately show ?thesis
    using binding by (auto simp: document_value_def nullable_def list_all_iff split: option.splits)
qed

lemma split_once_first:
  assumes "p \<noteq> []" and "hd p \<notin> set (tl p)" and "\<not> contains_str p a"
  shows "split_once p (a @ p @ b) = Some (a, b)"
  using assms(3)
proof (induction a)
  case Nil
  have "strip_prefix p (p @ b) = Some b" by (simp add: strip_prefix_Some)
  then show ?case using assms(1) by (cases p) auto
next
  case (Cons c a)
  have "\<not> contains_str p a" using Cons.prems by (auto simp: contains_str_iff) (metis append_Cons)
  moreover have "strip_prefix p ((c # a) @ p @ b) = None"
  proof (cases "strip_prefix p ((c # a) @ p @ b)")
    case (Some r)
    then have "(c # a) @ p @ b = p @ r" by (simp add: strip_prefix_Some)
    then obtain u where "c # a = p @ u \<or> ((c # a) @ u = p \<and> p @ b = u @ r)"
      unfolding append_eq_append_conv2 by blast
    then consider "c # a = p @ u" | "p = (c # a) @ u" "u \<noteq> []" "p @ b = u @ r" | "p = c # a"
      by (cases "u = []") auto
    then show ?thesis
    proof cases
      case 2
      then have "hd u = hd p" using assms(1) by (metis hd_append2)
      moreover have "hd u \<in> set (tl p)" using 2 by (simp add: hd_in_set)
      ultimately show ?thesis using assms(2) by simp
    next
      case 3
      have "c # a = [] @ p @ []" using 3 by simp
      then show ?thesis using Cons.prems unfolding contains_str_iff by blast
    qed (use Cons.prems in \<open>auto simp: contains_str_iff\<close>)
  qed simp
  ultimately show ?case using Cons by simp
qed

lemma evidence_decode_Some:
  "evidence_decode L e = Some (ct, b) \<longleftrightarrow>
     (\<exists>b64. ev_digest e = Some (sha256_hex L b) \<and> (\<exists>rest. ev_data e = Some (''data:'' @ rest) \<and>
        split_once '';base64,'' rest = Some (ct, b64)) \<and> b64_decode L b64 = Some b)"
  by (auto simp: evidence_decode_def strip_prefix_Some bind_eq_Some_conv split: if_splits)

lemma evidence_decode_digest: "evidence_decode L e = Some (ct, b) \<Longrightarrow> ev_digest e = Some (sha256_hex L b)"
  by (simp add: evidence_decode_Some)

lemma evidence_from_decoded:
  assumes "b64_ok L" and "evidence_decode L e = Some (ct, b)"
  shows "evidence_from_bytes L ct b = e"
proof -
  obtain b64 rest where "ev_digest e = Some (sha256_hex L b)" "ev_data e = Some (''data:'' @ rest)"
    "split_once '';base64,'' rest = Some (ct, b64)" "b64_decode L b64 = Some b"
    using assms(2) by (auto simp: evidence_decode_Some)
  moreover from this have "rest = ct @ '';base64,'' @ b64_encode L b"
    using assms(1) split_once_Some by (fastforce simp: b64_ok_def)
  ultimately show ?thesis by (simp add: evidence_from_bytes_def)
qed

lemma evidence_decode_from_bytes:
  assumes "b64_ok L" and "\<not> contains_str '';base64,'' ct"
  shows "evidence_decode L (evidence_from_bytes L ct b) = Some (ct, b)"
proof -
  have "split_once '';base64,'' (ct @ '';base64,'' @ b64_encode L b) = Some (ct, b64_encode L b)"
    using assms(2) by (intro split_once_first) simp_all
  then show ?thesis
    using assms(1) unfolding evidence_decode_Some by (auto simp: evidence_from_bytes_def b64_ok_def)
qed

lemma split_once_skip:
  assumes "split_once '';base64,'' rest = Some (ct, b64)"
  shows "split_once '';base64,'' (''data:'' @ rest) = Some (''data:'' @ ct, b64)"
  using assms by simp

lemma evidence_decode_matches:
  assumes "evidence_decode L e = Some (ct, b)"
  shows "digest_matches_data L e"
  using assms split_once_skip
  by (auto simp: evidence_decode_Some digest_matches_data_def simp del: split_once.simps)

text \<open>An evidence bundle and its stored form determine each other. Building the bundle from bytes and
  decoding it gives back the content type and the bytes; a bundle that decodes is exactly the one rebuilt
  from what it decodes to, and its data hashes to its digest.\<close>

theorem evidence_roundtrip:
  assumes "b64_ok L"
  shows "(\<not> contains_str '';base64,'' ct \<longrightarrow> evidence_decode L (evidence_from_bytes L ct b) = Some (ct, b)) \<and>
    (evidence_decode L e = Some (ct', b') \<longrightarrow>
       evidence_from_bytes L ct' b' = e \<and> digest_matches_data L e \<and> ev_digest e = Some (sha256_hex L b'))"
  using evidence_decode_from_bytes [OF assms] evidence_from_decoded [OF assms] evidence_decode_matches
    evidence_decode_digest by blast

theorem evidence_roundtrip_witness:
  "evidence_decode sample_lib (evidence_from_bytes sample_lib ''application/json'' ''{}'') = Some (''application/json'', ''{}'')
   \<and> digest_matches_data sample_lib (evidence_from_bytes sample_lib ''application/json'' ''{}'')"
proof -
  let ?e = "evidence_from_bytes sample_lib ''application/json'' ''{}''"
  have "\<not> contains_str '';base64,'' ''application/json''" by code_simp
  with evidence_roundtrip [OF sample_lib_laws(4), of "''application/json''" "''{}''" ?e "''application/json''" "''{}''"]
  show ?thesis by blast
qed

section \<open>Content addresses\<close>

lemma seal_Inr:
  "seal L d = Inr s \<longleftrightarrow> document s = d \<and> jcs_bytes L (document_value d) = Inr (session_bytes s) \<and>
     session_id s = sha256_bare_hex L (session_bytes s)"
  by (cases s) (auto simp: seal_def result_iffs)

text \<open>C26: A session id is a content address. Whoever reads the served document, in any encoding of the same
  JSON value, recomputes the id the gateway sealed it under; and two sealed documents with one id have the
  same value, or their canonical bytes collide under SHA-256.\<close>

theorem session_id_content_address:
  assumes "seal L d = Inr s" and "document_wf d"
    and "from_slice L b = Some v" and "same_value v (document_value d)" and "jwf v" and "parse_document b = Some d'"
  shows "(\<exists>s'. session_from_bytes L parse_document b = Inr s' \<and> session_id s' = session_id s) \<and>
    (hex_ok L \<and> to_vec_inj L \<and> seal L e = Inr t \<and> document_wf e \<and> session_id t = session_id s \<longrightarrow>
      same_value (document_value e) (document_value d) \<or> collision (sha256 L) (session_bytes t) (session_bytes s))"
proof -
  have d: "jcs_bytes L (document_value d) = Inr (session_bytes s)" "session_id s = sha256_bare_hex L (session_bytes s)"
    using assms(1) by (simp_all add: seal_Inr)
  have "jcs_bytes L v = jcs_bytes L (document_value d)"
    using same_value_jcs_sorted [OF assms(4,5) document_value_jwf [OF assms(2)]] by (simp add: jcs_bytes_def)
  then have reading: "\<exists>s'. session_from_bytes L parse_document b = Inr s' \<and> session_id s' = session_id s"
    using assms(3,6) d by (simp add: session_from_bytes_def)
  have "same_value (document_value e) (document_value d) \<or> collision (sha256 L) (session_bytes t) (session_bytes s)"
    if "hex_ok L" "to_vec_inj L" "seal L e = Inr t" "document_wf e" "session_id t = session_id s"
  proof (cases "session_bytes t = session_bytes s")
    case True
    then have "jcs_bytes L (document_value e) = Inr (session_bytes s)" using that(3) by (simp add: seal_Inr)
    from jcs_bytes_same_value [OF that(2) document_value_jwf [OF that(4)] document_value_jwf [OF assms(2)] this d(1)]
    show ?thesis ..
  next
    case False
    have "sha256 L (session_bytes t) = sha256 L (session_bytes s)"
      using that d(2) by (simp add: seal_Inr sha256_bare_hex_def hex_ok_inj)
    with False show ?thesis by (simp add: collision_def)
  qed
  with reading show ?thesis by blast
qed

definition sample_claims :: session_claims where
  "sample_claims = \<lparr>tee_attested = claim_asserted HardwareProven ''quote'', gpu_attested = claim_unknown,
     tcb_up_to_date = claim_unknown, os_known_good = claim_unknown, serving_software_known_good = claim_unknown,
     model_weights_provenance = claim_unknown, claims_extra = [(''region'', JString ''eu'')]\<rparr>"

definition sample_document :: "u64 \<Rightarrow> u64 \<Rightarrow> session_document" where
  "sample_document from until = \<lparr>sd_api_version = SESSION_API_VERSION, sd_upstream_name = ''node'', sd_endpoint = None,
     sd_verifier_id = ''static'', established_at = from, expires_at = until, sd_identity = None,
     sd_channel_binding = [TlsSpkiSha256 ''https://node'' ''00''], sd_claims = sample_claims,
     evidence = evidence_from_bytes sample_lib ''text/plain'' ''proof''\<rparr>"

lemma sample_document_ok: "document_wf (sample_document a b) \<and> jcs_ok (document_value (sample_document a b))"
  by (simp add: document_wf_def sample_document_def sample_claims_def document_value_def claims_value_def
      claim_value_def claim_asserted_def claim_unknown_def binding_value_def evidence_value_def nullable_def
      skip_none_def skip_empty_def evidence_from_bytes_def is_ascii_def)

lemma seal_total: "jcs_ok (document_value d) \<Longrightarrow> \<exists>s. seal L d = Inr s"
  using jcs_bytes_total [of "document_value d" L] by (auto simp: seal_def)

lemma sample_from_slice: "from_slice sample_lib (to_vec sample_lib v) = Some v"
  by (simp add: sample_lib_def)

theorem session_id_content_address_witness:
  "\<exists>s s' b. seal sample_lib (sample_document 1 2) = Inr s \<and>
     session_from_bytes sample_lib (\<lambda>_. Some (sample_document 1 2)) b = Inr s' \<and> session_id s' = session_id s"
proof -
  let ?d = "sample_document 1 2"
  obtain s where s: "seal sample_lib ?d = Inr s" using seal_total sample_document_ok by blast
  have wf: "document_wf ?d" using sample_document_ok by blast
  from session_id_content_address [OF s wf sample_from_slice same_value_refl document_value_jwf [OF wf],
      of "\<lambda>_. Some ?d" ?d ?d s]
  show ?thesis using s by blast
qed

end
