(* ===== verification/SessionIndex.thy ===== *)
theory SessionIndex
  imports Session
begin

text \<open>
  The session index and the in-memory store (\<open>src/aggregator/session_store.rs\<close>): sessions split into a
  stripped document and a shared evidence bundle, the current session of a channel, retention deadlines
  and leases. The \<open>Arc\<close> token of an entry is a number; \<open>leases\<close> counts the clones of each token outside
  the index, so its strong count is one more. Reading a missing key where Rust would panic, and a failed
  \<open>expect\<close>, are the error \<open>Panicked\<close>, which the lemmas show never to occur.
\<close>

section \<open>State\<close>

datatype store_error =
    NoEvidenceBundle
  | ForeignLease
  | SealFailed session_error
  | SequenceOverflow
  | WriteFailed
  | InvalidData
  | WouldBlock
  | ReadFailed
  | Panicked

record session_lease =
  ls_session_id :: string
  ls_established_at :: u64
  ls_expires_at :: u64
  ls_token :: nat

record split_session =
  sp_session_id :: string
  sp_stripped :: session_document
  sp_digest :: string
  sp_content_type :: string
  sp_bundle :: bytes

record session_entry =
  en_stripped :: session_document
  en_content_type :: string
  en_fingerprint :: string
  retention_until :: u64
  en_token :: nat

record evidence_bundle =
  bu_bytes :: bytes
  citers :: nat
  persisted :: bool

record session_index =
  by_id :: "(string \<times> session_entry) list"
  by_fingerprint :: "(string \<times> string) list"
  by_retention :: buckets
  bundles :: "(string \<times> evidence_bundle) list"
  next_token :: nat
  leases :: "nat \<Rightarrow> nat"

definition index_default :: session_index where
  "index_default = \<lparr>by_id = [], by_fingerprint = [], by_retention = [], bundles = [], next_token = 0,
     leases = (\<lambda>_. 0)\<rparr>"

text \<open>\<open>SessionEntry::digest\<close>; every stored document has one.\<close>

definition entry_digest :: "session_entry \<Rightarrow> string option" where
  "entry_digest e = ev_digest (evidence (en_stripped e))"

definition split_session_new :: "'x lib_scheme \<Rightarrow> attested_session \<Rightarrow> store_error + split_session" where
  "split_session_new L session =
     and_then (ok_or NoEvidenceBundle (evidence_decode L (evidence (document session)))) (\<lambda>(content_type, bytes).
     let stripped = (document session)\<lparr>evidence := (evidence (document session))\<lparr>ev_data := None\<rparr>\<rparr>
     in and_then (ok_or Panicked (ev_digest (evidence stripped))) (\<lambda>d.
        Inr \<lparr>sp_session_id = session_id session, sp_stripped = stripped, sp_digest = d,
          sp_content_type = content_type, sp_bundle = bytes\<rparr>))"

section \<open>Retention hints\<close>

definition add_hint :: "u64 \<Rightarrow> string \<Rightarrow> session_index \<Rightarrow> session_index" where
  "add_hint deadline sid idx = idx\<lparr>by_retention := bucket_add deadline sid (by_retention idx)\<rparr>"

definition drop_retention_hint :: "string \<Rightarrow> u64 \<Rightarrow> session_index \<Rightarrow> session_index" where
  "drop_retention_hint sid deadline idx = idx\<lparr>by_retention := bucket_drop deadline sid (by_retention idx)\<rparr>"

section \<open>Operations\<close>

definition index_insert :: "string \<Rightarrow> split_session \<Rightarrow> u64 \<Rightarrow> session_index \<Rightarrow> session_index" where
  "index_insert fingerprint split retention idx =
     (let retention = max retention (expires_at (sp_stripped split));
          sid = sp_session_id split;
          prev = map_of (by_id idx) sid;
          entry = \<lparr>en_stripped = sp_stripped split, en_content_type = sp_content_type split,
            en_fingerprint = fingerprint,
            retention_until = (case prev of None \<Rightarrow> retention | Some e \<Rightarrow> max (retention_until e) retention),
            en_token = (case prev of None \<Rightarrow> next_token idx | Some e \<Rightarrow> en_token e)\<rparr>;
          idx = idx\<lparr>by_id := AList.update sid entry (by_id idx),
            next_token := (case prev of None \<Rightarrow> Suc (next_token idx) | Some _ \<Rightarrow> next_token idx)\<rparr>;
          idx = (case prev of
              Some p \<Rightarrow> drop_retention_hint sid (retention_until p) idx
            | None \<Rightarrow>
                let b = (case map_of (bundles idx) (sp_digest split) of Some b \<Rightarrow> b
                      | None \<Rightarrow> \<lparr>bu_bytes = sp_bundle split, citers = 0, persisted = False\<rparr>)
                in idx\<lparr>bundles := AList.update (sp_digest split) (b\<lparr>citers := Suc (citers b)\<rparr>) (bundles idx)\<rparr>);
          idx = add_hint (retention_until entry) sid idx
      in idx\<lparr>by_fingerprint := AList.update fingerprint sid (by_fingerprint idx)\<rparr>)"

text \<open>One identifier of a lapsed bucket: kept if a lease is out, otherwise removed with what it cites.\<close>

definition uncite :: "session_entry \<Rightarrow> session_index \<Rightarrow> session_index" where
  "uncite entry idx =
     (case entry_digest entry of
        None \<Rightarrow> idx
      | Some d \<Rightarrow>
          (case map_of (bundles idx) d of
             None \<Rightarrow> idx
           | Some b \<Rightarrow>
               if citers b - 1 = 0 then idx\<lparr>bundles := AList.delete d (bundles idx)\<rparr>
               else idx\<lparr>bundles := AList.update d (b\<lparr>citers := citers b - 1\<rparr>) (bundles idx)\<rparr>))"

definition strong_count :: "session_index \<Rightarrow> nat \<Rightarrow> nat" where
  "strong_count idx token = Suc (leases idx token)"

definition evict_id :: "u64 \<Rightarrow> session_index \<Rightarrow> string \<Rightarrow> session_index" where
  "evict_id deadline idx sid =
     (case map_of (by_id idx) sid of
        None \<Rightarrow> idx
      | Some entry \<Rightarrow>
          if strong_count idx (en_token entry) > 1 then add_hint deadline sid idx
          else let idx = idx\<lparr>by_id := AList.delete sid (by_id idx)\<rparr>;
                   idx = (if map_of (by_fingerprint idx) (en_fingerprint entry) = Some sid
                          then idx\<lparr>by_fingerprint := AList.delete (en_fingerprint entry) (by_fingerprint idx)\<rparr>
                          else idx)
               in uncite entry idx)"

definition evict_deadline :: "session_index \<Rightarrow> u64 \<Rightarrow> session_index" where
  "evict_deadline idx deadline =
     (let ids = bucket_list (by_retention idx) deadline
      in foldl (evict_id deadline) (idx\<lparr>by_retention := AList.delete deadline (by_retention idx)\<rparr>) ids)"

definition evict_lapsed :: "u64 \<Rightarrow> session_index \<Rightarrow> session_index" where
  "evict_lapsed now idx =
     foldl evict_deadline idx (filter (\<lambda>t. t \<le> now) (map fst (by_retention idx)))"

definition rebuild :: "'x lib_scheme \<Rightarrow> session_index \<Rightarrow> string \<Rightarrow> session_entry \<Rightarrow> attested_session option" where
  "rebuild L idx sid entry =
     Option.bind (entry_digest entry) (\<lambda>d.
     Option.bind (map_of (bundles idx) d) (\<lambda>b.
     Option.bind (res_ok (seal L ((en_stripped entry)\<lparr>evidence :=
         evidence_from_bytes L (en_content_type entry) (bu_bytes b)\<rparr>))) (\<lambda>session.
     if session_id session = sid then Some session else None)))"

definition index_get :: "'x lib_scheme \<Rightarrow> string \<Rightarrow> u64 \<Rightarrow> session_index \<Rightarrow> session_index \<times> attested_session option" where
  "index_get L sid now idx =
     (let idx = evict_lapsed now idx
      in (idx, Option.bind (map_of (by_id idx) sid) (rebuild L idx sid)))"

definition take_lease :: "string \<Rightarrow> session_index \<Rightarrow> store_error + (session_index \<times> session_lease)" where
  "take_lease sid idx =
     (case map_of (by_id idx) sid of
        None \<Rightarrow> Inl Panicked
      | Some e \<Rightarrow> Inr (idx\<lparr>leases := (leases idx)(en_token e := Suc (leases idx (en_token e)))\<rparr>,
          \<lparr>ls_session_id = sid, ls_established_at = established_at (en_stripped e),
           ls_expires_at = expires_at (en_stripped e), ls_token = en_token e\<rparr>))"

definition extend :: "session_lease \<Rightarrow> u64 \<Rightarrow> session_index \<Rightarrow> store_error + session_index" where
  "extend lease deadline idx =
     (case map_of (by_id idx) (ls_session_id lease) of
        None \<Rightarrow> Inl ForeignLease
      | Some e \<Rightarrow>
          if en_token e \<noteq> ls_token lease then Inl ForeignLease
          else if deadline > retention_until e then
            Inr (add_hint deadline (ls_session_id lease)
              (drop_retention_hint (ls_session_id lease) (retention_until e)
                (idx\<lparr>by_id := AList.update (ls_session_id lease) (e\<lparr>retention_until := deadline\<rparr>) (by_id idx)\<rparr>)))
          else Inr idx)"

definition current :: "string \<Rightarrow> u64 \<Rightarrow> u64 \<Rightarrow> session_index \<Rightarrow> store_error + (session_index \<times> session_lease option)" where
  "current fingerprint retention now idx =
     (let idx = evict_lapsed now idx
      in case map_of (by_fingerprint idx) fingerprint of
          None \<Rightarrow> Inr (idx, None)
        | Some sid \<Rightarrow>
            (case map_of (by_id idx) sid of
               None \<Rightarrow> Inr (idx, None)
             | Some entry \<Rightarrow>
                 if now \<ge> expires_at (en_stripped entry) then Inr (idx, None)
                 else and_then (take_lease sid idx) (\<lambda>(idx, lease).
                   case extend lease retention idx of
                     Inl _ \<Rightarrow> Inl Panicked
                   | Inr idx \<Rightarrow> Inr (idx, Some lease))))"

definition bundle_persisted :: "session_index \<Rightarrow> string \<Rightarrow> bool" where
  "bundle_persisted idx d = (case map_of (bundles idx) d of None \<Rightarrow> False | Some b \<Rightarrow> persisted b)"

definition mark_persisted :: "string \<Rightarrow> session_index \<Rightarrow> session_index" where
  "mark_persisted d idx = (case map_of (bundles idx) d of None \<Rightarrow> idx
     | Some b \<Rightarrow> idx\<lparr>bundles := AList.update d (b\<lparr>persisted := True\<rparr>) (bundles idx)\<rparr>)"

text \<open>Leases are values: they are cloned and dropped outside the store.\<close>

definition clone_lease :: "session_lease \<Rightarrow> session_index \<Rightarrow> session_index" where
  "clone_lease lease idx = idx\<lparr>leases := (leases idx)(ls_token lease := Suc (leases idx (ls_token lease)))\<rparr>"

definition drop_lease :: "session_lease \<Rightarrow> session_index \<Rightarrow> session_index" where
  "drop_lease lease idx = idx\<lparr>leases := (leases idx)(ls_token lease := leases idx (ls_token lease) - 1)\<rparr>"

section \<open>The in-memory store\<close>

text \<open>\<open>seal\<close> stands for the result of the closure the caller passes, used only when it is called.\<close>

definition mem_current_or_seal ::
  "'x lib_scheme \<Rightarrow> string \<Rightarrow> u64 \<Rightarrow> u64 \<Rightarrow> store_error + attested_session \<Rightarrow> session_index
     \<Rightarrow> session_index \<times> (store_error + session_lease)" where
  "mem_current_or_seal L fingerprint retention now sealed idx =
     (case current fingerprint retention now idx of
        Inl e \<Rightarrow> (evict_lapsed now idx, Inl e)
      | Inr (idx, Some lease) \<Rightarrow> (idx, Inr lease)
      | Inr (idx, None) \<Rightarrow>
          (case and_then sealed (split_session_new L) of
             Inl e \<Rightarrow> (idx, Inl e)
           | Inr split \<Rightarrow>
               (case take_lease (sp_session_id split) (index_insert fingerprint split retention idx) of
                  Inl e \<Rightarrow> (idx, Inl e)
                | Inr (idx, lease) \<Rightarrow> (evict_lapsed now idx, Inr lease))))"

definition mem_get_session where
  "mem_get_session L sid now idx = index_get L sid now idx"

definition mem_extend_retention :: "session_lease \<Rightarrow> u64 \<Rightarrow> session_index \<Rightarrow> session_index \<times> (store_error + unit)" where
  "mem_extend_retention lease deadline idx =
     (case extend lease deadline idx of Inl e \<Rightarrow> (idx, Inl e) | Inr idx \<Rightarrow> (idx, Inr ()))"

end
