(* ===== verification/SessionInv.thy ===== *)
theory SessionInv
  imports SessionIndex
begin

text \<open>
  The invariant of the session index and that every operation keeps it: the retention hints name exactly
  the stored entries at their deadlines, every bundle is counted once per entry that cites it, tokens are
  not shared, and every entry is the stripped form of a session sealed under its key. The lemmas also say
  exactly which entries an eviction removes.
\<close>

section \<open>The invariant\<close>

abbreviation ent :: "session_index \<Rightarrow> string \<Rightarrow> session_entry option" where
  "ent idx \<equiv> map_of (by_id idx)"

abbreviation hints :: "session_index \<Rightarrow> u64 \<Rightarrow> string set" where
  "hints idx \<equiv> bucket (by_retention idx)"

definition citing :: "session_index \<Rightarrow> string \<Rightarrow> string set" where
  "citing idx d = {sid. \<exists>e. ent idx sid = Some e \<and> entry_digest e = Some d}"

definition shape_wf :: "session_index \<Rightarrow> bool" where
  "shape_wf idx = (hm_wf (by_id idx) \<and> hm_wf (by_fingerprint idx) \<and> hm_wf (bundles idx) \<and> buckets_wf (by_retention idx))"

text \<open>Hints and entries agree, except for the pairs \<open>D\<close> an eviction has yet to visit.\<close>

definition hints_wf :: "(u64 \<times> string) set \<Rightarrow> session_index \<Rightarrow> bool" where
  "hints_wf D idx = (\<forall>t sid. sid \<in> hints idx t \<longleftrightarrow>
     (t, sid) \<notin> D \<and> (\<exists>e. ent idx sid = Some e \<and> retention_until e = t))"

text \<open>The entry stored under \<open>sid\<close> is the stripped form of a session sealed with that id.\<close>

definition original :: "'x lib_scheme \<Rightarrow> string \<Rightarrow> session_entry \<Rightarrow> bytes \<Rightarrow> attested_session \<Rightarrow> bool" where
  "original L sid e x s = (entry_digest e = Some (sha256_hex L x) \<and>
     seal L ((en_stripped e)\<lparr>evidence := evidence_from_bytes L (en_content_type e) x\<rparr>) = Inr s \<and> session_id s = sid)"

definition entries_wf :: "'x lib_scheme \<Rightarrow> session_index \<Rightarrow> bool" where
  "entries_wf L idx = (\<forall>sid e. ent idx sid = Some e \<longrightarrow>
     expires_at (en_stripped e) \<le> retention_until e \<and> (\<exists>x s. original L sid e x s))"

definition bundles_wf :: "'x lib_scheme \<Rightarrow> session_index \<Rightarrow> bool" where
  "bundles_wf L idx = ((\<forall>d b. map_of (bundles idx) d = Some b \<longrightarrow>
       citers b = card (citing idx d) \<and> citing idx d \<noteq> {} \<and> sha256_hex L (bu_bytes b) = d) \<and>
     (\<forall>d. citing idx d \<noteq> {} \<longrightarrow> map_of (bundles idx) d \<noteq> None))"

definition tokens_wf :: "session_index \<Rightarrow> bool" where
  "tokens_wf idx = ((\<forall>sid e. ent idx sid = Some e \<longrightarrow> en_token e < next_token idx) \<and>
     (\<forall>sid sid' e e'. ent idx sid = Some e \<and> ent idx sid' = Some e' \<and> en_token e = en_token e' \<longrightarrow> sid = sid') \<and>
     (\<forall>t \<ge> next_token idx. leases idx t = 0))"

definition index_inv :: "'x lib_scheme \<Rightarrow> (u64 \<times> string) set \<Rightarrow> session_index \<Rightarrow> bool" where
  "index_inv L D idx = (shape_wf idx \<and> hints_wf D idx \<and> entries_wf L idx \<and> bundles_wf L idx \<and> tokens_wf idx)"

abbreviation index_wf :: "'x lib_scheme \<Rightarrow> session_index \<Rightarrow> bool" where
  "index_wf L idx \<equiv> index_inv L {} idx"

lemma index_default_wf: "index_wf L index_default"
  by (simp add: index_inv_def index_default_def shape_wf_def hints_wf_def entries_wf_def bundles_wf_def
      citing_def tokens_wf_def)

section \<open>Hints\<close>

lemma add_hint_frame [simp]:
  "by_id (add_hint t sid idx) = by_id idx" "by_fingerprint (add_hint t sid idx) = by_fingerprint idx"
  "bundles (add_hint t sid idx) = bundles idx" "next_token (add_hint t sid idx) = next_token idx"
  "leases (add_hint t sid idx) = leases idx"
  by (simp_all add: add_hint_def)

lemma drop_hint_frame [simp]:
  "by_id (drop_retention_hint sid t idx) = by_id idx"
  "by_fingerprint (drop_retention_hint sid t idx) = by_fingerprint idx"
  "bundles (drop_retention_hint sid t idx) = bundles idx"
  "next_token (drop_retention_hint sid t idx) = next_token idx"
  "leases (drop_retention_hint sid t idx) = leases idx"
  by (simp_all add: drop_retention_hint_def)

lemma hints_add: "hints (add_hint t sid idx) u = (if u = t then insert sid (hints idx t) else hints idx u)"
  by (simp add: add_hint_def bucket_add)

lemma hints_drop: "hints (drop_retention_hint sid t idx) u = (if u = t then hints idx t - {sid} else hints idx u)"
  by (simp add: drop_retention_hint_def bucket_drop)

lemma shape_add: "shape_wf idx \<Longrightarrow> shape_wf (add_hint t sid idx)"
  by (simp add: shape_wf_def add_hint_def buckets_wf_add)

lemma shape_drop: "shape_wf idx \<Longrightarrow> shape_wf (drop_retention_hint sid t idx)"
  by (simp add: shape_wf_def drop_retention_hint_def buckets_wf_drop)

lemma shape_delete_bucket:
  "shape_wf idx \<Longrightarrow> shape_wf (idx\<lparr>by_retention := AList.delete t (by_retention idx)\<rparr>)"
  by (simp add: shape_wf_def buckets_wf_delete)

lemma citing_cong: "by_id idx = by_id idx' \<Longrightarrow> citing idx = citing idx'"
  by (simp add: citing_def fun_eq_iff)

lemma citing_finite [simp]: "finite (citing idx d)"
proof -
  have "citing idx d \<subseteq> dom (ent idx)" by (auto simp: citing_def)
  then show ?thesis by (rule finite_subset) (rule finite_dom_map_of)
qed

section \<open>Eviction\<close>

lemma uncite_frame [simp]:
  "by_id (uncite e idx) = by_id idx" "by_fingerprint (uncite e idx) = by_fingerprint idx"
  "by_retention (uncite e idx) = by_retention idx" "next_token (uncite e idx) = next_token idx"
  "leases (uncite e idx) = leases idx"
  by (simp_all add: uncite_def split: option.splits)

lemma uncite_hm_wf: "hm_wf (bundles idx) \<Longrightarrow> hm_wf (bundles (uncite e idx))"
  by (auto simp: uncite_def split: option.splits)

lemma citing_delete:
  assumes "by_id idx' = AList.delete sid (by_id idx)"
  shows "citing idx' d = citing idx d - {sid}"
  by (auto simp: citing_def assms split: if_splits)

text \<open>Dropping an entry and one count of the bundle it cites keeps the counts exact.\<close>

lemma uncite_bundles:
  assumes "bundles_wf L idx" and "ent idx sid = Some e"
    and "by_id idx' = AList.delete sid (by_id idx)" and "bundles idx' = bundles idx"
  shows "bundles_wf L (uncite e idx')"
proof -
  let ?u = "uncite e idx'"
  have cite: "citing ?u d = citing idx d - {sid}" for d
    using citing_delete [OF assms(3)] by (simp add: citing_def)
  have other: "citing idx d - {sid} = citing idx d" if "entry_digest e \<noteq> Some d" for d
    using that assms(2) by (auto simp: citing_def)
  show ?thesis
  proof (cases "entry_digest e")
    case None
    then have "bundles ?u = bundles idx" by (simp add: uncite_def assms(4))
    then show ?thesis using assms(1) None other unfolding bundles_wf_def cite by force
  next
    case (Some d)
    then have sid: "sid \<in> citing idx d" using assms(2) by (simp add: citing_def)
    then obtain b where b: "map_of (bundles idx) d = Some b" "citers b = card (citing idx d)"
      "sha256_hex L (bu_bytes b) = d"
      using assms(1) unfolding bundles_wf_def by blast
    have card: "card (citing idx d - {sid}) = citers b - 1" using sid b(2) by simp
    then have zero: "citers b - 1 = 0 \<longleftrightarrow> citing idx d - {sid} = {}"
      by (metis card_0_eq citing_finite finite_Diff)
    have here: "map_of (bundles ?u) d =
        (if citing idx d - {sid} = {} then None else Some (b\<lparr>citers := card (citing idx d - {sid})\<rparr>))"
      using Some b zero card by (simp add: uncite_def assms(4))
    have there: "map_of (bundles ?u) d' = map_of (bundles idx) d'" if "d' \<noteq> d" for d'
      using that Some b by (simp add: uncite_def assms(4))
    show ?thesis
      unfolding bundles_wf_def cite
    proof (intro conjI allI impI)
      fix d' b' assume b': "map_of (bundles ?u) d' = Some b'"
      have "citers b' = card (citing idx d' - {sid}) \<and> citing idx d' - {sid} \<noteq> {} \<and> sha256_hex L (bu_bytes b') = d'"
      proof (cases "d' = d")
        case True
        then have "citing idx d - {sid} \<noteq> {}" "b' = b\<lparr>citers := card (citing idx d - {sid})\<rparr>"
          using b' here by (simp_all split: if_splits)
        then show ?thesis using True b(3) by simp
      next
        case False
        then have "citing idx d' - {sid} = citing idx d'" "map_of (bundles idx) d' = Some b'"
          using b' there [OF False] other [of d'] Some by simp_all
        then show ?thesis using assms(1) by (simp add: bundles_wf_def)
      qed
      then show "citers b' = card (citing idx d' - {sid})" "citing idx d' - {sid} \<noteq> {}" "sha256_hex L (bu_bytes b') = d'"
        by blast+
    next
      fix d' assume ne: "citing idx d' - {sid} \<noteq> {}"
      show "map_of (bundles ?u) d' \<noteq> None"
      proof (cases "d' = d")
        case False
        then show ?thesis using ne there other [of d'] Some assms(1) by (simp add: bundles_wf_def)
      qed (use ne here in simp)
    qed
  qed
qed

lemma evict_id_frame [simp]:
  "leases (evict_id dl idx sid) = leases idx" "next_token (evict_id dl idx sid) = next_token idx"
  by (simp_all add: evict_id_def Let_def split: option.splits)

lemma evict_id_ent:
  "ent (evict_id dl idx sid) = (case ent idx sid of
     Some e \<Rightarrow> if leases idx (en_token e) = 0 then (ent idx)(sid := None) else ent idx
   | None \<Rightarrow> ent idx)"
  by (auto simp: evict_id_def Let_def strong_count_def split: option.splits)

lemma evict_id_inv:
  assumes inv: "index_inv L (insert (dl, sid) D) idx" and "(dl, sid) \<notin> D"
    and dl: "\<And>e. ent idx sid = Some e \<Longrightarrow> retention_until e = dl"
  shows "index_inv L D (evict_id dl idx sid)"
proof (cases "ent idx sid")
  case None
  then show ?thesis using assms by (auto simp: evict_id_def index_inv_def hints_wf_def)
next
  case (Some e)
  show ?thesis
  proof (cases "leases idx (en_token e) = 0")
    case False
    then have ev: "evict_id dl idx sid = add_hint dl sid idx" using Some by (simp add: evict_id_def strong_count_def)
    have "hints_wf D (add_hint dl sid idx)"
      using inv assms(2) dl [OF Some] Some by (auto simp: index_inv_def hints_wf_def hints_add)
    then show ?thesis
      using inv citing_cong [of "add_hint dl sid idx" idx] unfolding ev
      by (auto simp: index_inv_def shape_add entries_wf_def bundles_wf_def tokens_wf_def)
  next
    case True
    define idx1 where "idx1 = idx\<lparr>by_id := AList.delete sid (by_id idx)\<rparr>"
    define idx2 where "idx2 = (if map_of (by_fingerprint idx1) (en_fingerprint e) = Some sid
      then idx1\<lparr>by_fingerprint := AList.delete (en_fingerprint e) (by_fingerprint idx1)\<rparr> else idx1)"
    have ev: "evict_id dl idx sid = uncite e idx2"
      using Some True by (simp add: evict_id_def strong_count_def idx1_def idx2_def)
    have idx2: "by_id idx2 = AList.delete sid (by_id idx)" "bundles idx2 = bundles idx"
      "by_retention idx2 = by_retention idx" "next_token idx2 = next_token idx" "leases idx2 = leases idx"
      by (simp_all add: idx2_def idx1_def)
    have "hm_wf (by_fingerprint idx2)"
      using inv by (auto simp: index_inv_def shape_wf_def idx2_def idx1_def)
    then have "shape_wf (uncite e idx2)"
      using inv uncite_hm_wf [of idx2 e] by (auto simp: index_inv_def shape_wf_def idx2)
    moreover have "hints_wf D (uncite e idx2)"
      using inv assms(2) dl [OF Some] Some
      by (auto simp: index_inv_def hints_wf_def idx2 split: if_splits)
    moreover have "bundles_wf L (uncite e idx2)"
      using inv Some idx2 by (intro uncite_bundles) (auto simp: index_inv_def)
    ultimately show ?thesis
      using inv unfolding ev by (auto simp: index_inv_def entries_wf_def tokens_wf_def idx2 split: if_splits)
  qed
qed

text \<open>The entries that remain when those satisfying \<open>P\<close> and held by no lease are removed.\<close>

definition surviving :: "(session_entry \<Rightarrow> bool) \<Rightarrow> session_index \<Rightarrow> string \<Rightarrow> session_entry option" where
  "surviving P idx sid = (case ent idx sid of
     Some e \<Rightarrow> if P e \<and> leases idx (en_token e) = 0 then None else Some e
   | None \<Rightarrow> None)"

lemma evict_ids_frame [simp]:
  "leases (foldl (evict_id dl) idx ids) = leases idx" "next_token (foldl (evict_id dl) idx ids) = next_token idx"
  by (induction ids arbitrary: idx) simp_all

lemma evict_ids:
  assumes "index_inv L ({dl} \<times> set ids) idx" and "distinct ids"
    and "\<And>sid e. sid \<in> set ids \<Longrightarrow> ent idx sid = Some e \<Longrightarrow> retention_until e = dl"
  shows "index_wf L (foldl (evict_id dl) idx ids) \<and>
    ent (foldl (evict_id dl) idx ids) sid = (if sid \<in> set ids then surviving (\<lambda>_. True) idx sid else ent idx sid)"
  using assms
proof (induction ids arbitrary: idx)
  case (Cons i ids)
  let ?idx = "evict_id dl idx i"
  have "{dl} \<times> set (i # ids) = insert (dl, i) ({dl} \<times> set ids)" by auto
  then have inv: "index_inv L ({dl} \<times> set ids) ?idx"
    using Cons.prems by (intro evict_id_inv) auto
  have ret: "retention_until e = dl" if "sid \<in> set ids" "ent ?idx sid = Some e" for sid e
    using that Cons.prems(2,3) by (auto simp: evict_id_ent split: option.splits if_splits)
  have "index_wf L (foldl (evict_id dl) ?idx ids) \<and> ent (foldl (evict_id dl) ?idx ids) sid
      = (if sid \<in> set ids then surviving (\<lambda>_. True) ?idx sid else ent ?idx sid)"
    using Cons.IH [OF inv] Cons.prems(2) ret by simp
  moreover have "(if sid \<in> set ids then surviving (\<lambda>_. True) ?idx sid else ent ?idx sid)
      = (if sid \<in> set (i # ids) then surviving (\<lambda>_. True) idx sid else ent idx sid)"
    using Cons.prems(2) by (auto simp: surviving_def evict_id_ent split: option.splits)
  ultimately show ?case by simp
qed simp

lemma evict_deadline_frame [simp]:
  "leases (evict_deadline idx dl) = leases idx" "next_token (evict_deadline idx dl) = next_token idx"
  by (simp_all add: evict_deadline_def Let_def)

lemma evict_deadline:
  assumes wf: "index_wf L idx"
  shows "index_wf L (evict_deadline idx dl) \<and>
    ent (evict_deadline idx dl) = surviving (\<lambda>e. retention_until e = dl) idx"
proof -
  define ids where "ids = bucket_list (by_retention idx) dl"
  define idx1 where "idx1 = idx\<lparr>by_retention := AList.delete dl (by_retention idx)\<rparr>"
  have ids: "set ids = hints idx dl" "distinct ids"
    using wf by (auto simp: ids_def index_inv_def shape_wf_def buckets_wf_def) (auto simp: bucket_list_def split: option.splits)
  have mem: "sid \<in> set ids \<longleftrightarrow> (\<exists>e. ent idx sid = Some e \<and> retention_until e = dl)" for sid
    using wf by (simp add: ids index_inv_def hints_wf_def)
  have "hints idx1 t = (if t = dl then {} else hints idx t)" for t by (simp add: idx1_def bucket_delete)
  then have "index_inv L ({dl} \<times> set ids) idx1"
    using wf mem citing_cong [of idx1 idx] shape_delete_bucket [of idx dl]
    by (auto simp: index_inv_def hints_wf_def entries_wf_def bundles_wf_def tokens_wf_def) (auto simp: idx1_def)
  then have *: "index_wf L (foldl (evict_id dl) idx1 ids) \<and> ent (foldl (evict_id dl) idx1 ids) sid
      = (if sid \<in> set ids then surviving (\<lambda>_. True) idx1 sid else ent idx1 sid)" for sid
    using ids(2) mem by (intro evict_ids) (auto simp: idx1_def)
  have "ent (foldl (evict_id dl) idx1 ids) = surviving (\<lambda>e. retention_until e = dl) idx"
    using * mem by (auto simp: fun_eq_iff surviving_def idx1_def split: option.splits)
  then show ?thesis using * by (simp add: evict_deadline_def ids_def idx1_def Let_def)
qed

lemma evict_deadlines:
  assumes "index_wf L idx"
  shows "index_wf L (foldl evict_deadline idx ts) \<and>
    ent (foldl evict_deadline idx ts) = surviving (\<lambda>e. retention_until e \<in> set ts) idx \<and>
    leases (foldl evict_deadline idx ts) = leases idx \<and> next_token (foldl evict_deadline idx ts) = next_token idx"
  using assms
proof (induction ts arbitrary: idx)
  case Nil
  then show ?case by (simp add: surviving_def fun_eq_iff split: option.splits)
next
  case (Cons t ts)
  note step = evict_deadline [OF Cons.prems, of t]
  from Cons.IH [OF step [THEN conjunct1]] step show ?case
    by (auto simp: surviving_def fun_eq_iff split: option.splits)
qed

lemma evict_lapsed:
  assumes wf: "index_wf L idx"
  shows "index_wf L (evict_lapsed now idx) \<and>
    ent (evict_lapsed now idx) = surviving (\<lambda>e. retention_until e \<le> now) idx \<and>
    leases (evict_lapsed now idx) = leases idx \<and> next_token (evict_lapsed now idx) = next_token idx"
proof -
  let ?ts = "filter (\<lambda>t. t \<le> now) (map fst (by_retention idx))"
  have "retention_until e \<in> fst ` set (by_retention idx)" if "ent idx sid = Some e" for sid e
  proof -
    have "sid \<in> hints idx (retention_until e)" using wf that by (auto simp: index_inv_def hints_wf_def)
    then show ?thesis by (rule bucket_key)
  qed
  then have "surviving (\<lambda>e. retention_until e \<in> set ?ts) idx = surviving (\<lambda>e. retention_until e \<le> now) idx"
    by (auto simp: surviving_def fun_eq_iff split: option.splits)
  with evict_deadlines [OF wf, of ?ts] show ?thesis by (simp add: evict_lapsed_def)
qed

lemmas evict_wf = evict_lapsed [THEN conjunct1]
  and evict_ent = evict_lapsed [THEN conjunct2, THEN conjunct1]
  and evict_leases = evict_lapsed [THEN conjunct2, THEN conjunct2, THEN conjunct1]

section \<open>Inserting\<close>

definition split_of :: "'x lib_scheme \<Rightarrow> attested_session \<Rightarrow> split_session \<Rightarrow> bool" where
  "split_of L s split = (sp_session_id split = session_id s \<and> sp_digest split = sha256_hex L (sp_bundle split) \<and>
     ev_digest (evidence (sp_stripped split)) = Some (sp_digest split) \<and>
     seal L ((sp_stripped split)\<lparr>evidence := evidence_from_bytes L (sp_content_type split) (sp_bundle split)\<rparr>) = Inr s \<and>
     expires_at (sp_stripped split) = expires_at (document s) \<and>
     established_at (sp_stripped split) = established_at (document s))"

lemma split_session_new_ok:
  assumes "b64_ok L" and "seal L d = Inr s" and "split_session_new L s = Inr split"
  shows "split_of L s split"
proof -
  have s: "document s = d" using assms(2) by (simp add: seal_Inr)
  obtain ct x where dec: "evidence_decode L (evidence d) = Some (ct, x)"
    and dig: "ev_digest (evidence d) = Some (sp_digest split)"
    and split: "split = \<lparr>sp_session_id = session_id s,
      sp_stripped = d\<lparr>evidence := (evidence d)\<lparr>ev_data := None\<rparr>\<rparr>, sp_digest = sp_digest split, sp_content_type = ct,
      sp_bundle = x\<rparr>"
    using assms(3) s by (auto simp: split_session_new_def Let_def result_iffs)
  have "evidence_from_bytes L ct x = evidence d" by (rule evidence_from_decoded [OF assms(1) dec])
  moreover have "sp_digest split = sha256_hex L x" using evidence_decode_digest [OF dec] dig by simp
  ultimately show ?thesis
    using split dig assms(2) s
    by (auto simp: split_of_def)
qed

text \<open>An id determines its document: a session already stored under the id of a new one cites the same
  bundle. A pair of sessions for which this fails is a SHA-256 collision.\<close>

definition no_clash :: "split_session \<Rightarrow> session_index \<Rightarrow> bool" where
  "no_clash split idx = (\<forall>e. ent idx (sp_session_id split) = Some e \<longrightarrow> entry_digest e = Some (sp_digest split))"

definition inserted_entry :: "string \<Rightarrow> split_session \<Rightarrow> u64 \<Rightarrow> session_index \<Rightarrow> session_entry" where
  "inserted_entry fp split r idx = \<lparr>en_stripped = sp_stripped split, en_content_type = sp_content_type split,
     en_fingerprint = fp,
     retention_until = (case ent idx (sp_session_id split) of None \<Rightarrow> max r (expires_at (sp_stripped split))
       | Some e \<Rightarrow> max (retention_until e) (max r (expires_at (sp_stripped split)))),
     en_token = (case ent idx (sp_session_id split) of None \<Rightarrow> next_token idx | Some e \<Rightarrow> en_token e)\<rparr>"

lemma index_insert_frame:
  "ent (index_insert fp split r idx) = (ent idx)(sp_session_id split \<mapsto> inserted_entry fp split r idx)"
  "leases (index_insert fp split r idx) = leases idx"
  "map_of (by_fingerprint (index_insert fp split r idx)) = (map_of (by_fingerprint idx))(fp \<mapsto> sp_session_id split)"
  by (simp_all add: index_insert_def inserted_entry_def Let_def split: option.splits)

lemma index_insert_new:
  assumes "ent idx (sp_session_id split) = None"
  defines "b \<equiv> (case map_of (bundles idx) (sp_digest split) of Some b \<Rightarrow> b
      | None \<Rightarrow> \<lparr>bu_bytes = sp_bundle split, citers = 0, persisted = False\<rparr>)"
  shows "index_insert fp split r idx = (add_hint (retention_until (inserted_entry fp split r idx)) (sp_session_id split)
    (idx\<lparr>by_id := AList.update (sp_session_id split) (inserted_entry fp split r idx) (by_id idx),
      next_token := Suc (next_token idx),
      bundles := AList.update (sp_digest split) (b\<lparr>citers := Suc (citers b)\<rparr>) (bundles idx)\<rparr>))
    \<lparr>by_fingerprint := AList.update fp (sp_session_id split) (by_fingerprint idx)\<rparr>"
  using assms(1) by (simp add: index_insert_def inserted_entry_def Let_def b_def)

lemma index_insert_again:
  assumes "ent idx (sp_session_id split) = Some p"
  shows "index_insert fp split r idx = (add_hint (retention_until (inserted_entry fp split r idx)) (sp_session_id split)
    (drop_retention_hint (sp_session_id split) (retention_until p)
      (idx\<lparr>by_id := AList.update (sp_session_id split) (inserted_entry fp split r idx) (by_id idx)\<rparr>)))
    \<lparr>by_fingerprint := AList.update fp (sp_session_id split) (by_fingerprint idx)\<rparr>"
  using assms by (simp add: index_insert_def inserted_entry_def Let_def)

lemma inserted_entry_ok:
  assumes "split_of L s split" and "e = inserted_entry fp split r idx"
  shows "expires_at (en_stripped e) \<le> retention_until e \<and> original L (sp_session_id split) e (sp_bundle split) s
    \<and> entry_digest e = Some (sp_digest split)"
  using assms(1) unfolding assms(2) split_of_def original_def inserted_entry_def entry_digest_def
  by (auto simp: max_def split: option.splits)

lemma shape_fingerprint:
  "shape_wf idx \<Longrightarrow> hm_wf m \<Longrightarrow> shape_wf (idx\<lparr>by_fingerprint := m\<rparr>)"
  by (simp add: shape_wf_def)

lemma shape_by_id:
  "shape_wf idx \<Longrightarrow> hm_wf m \<Longrightarrow> shape_wf (idx\<lparr>by_id := m\<rparr>)"
  by (simp add: shape_wf_def)

lemma index_insert_shape:
  assumes "shape_wf idx"
  shows "shape_wf (index_insert fp split r idx)"
proof (cases "ent idx (sp_session_id split)")
  case None
  show ?thesis unfolding index_insert_new [OF None]
    by (intro shape_fingerprint shape_add) (use assms in \<open>auto simp: shape_wf_def\<close>)
next
  case (Some p)
  show ?thesis unfolding index_insert_again [OF Some]
    by (intro shape_fingerprint shape_add shape_drop) (use assms in \<open>auto simp: shape_wf_def\<close>)
qed

lemma index_insert_hints:
  assumes "hints_wf {} idx"
  shows "hints_wf {} (index_insert fp split r idx)"
proof -
  let ?sid = "sp_session_id split" and ?e = "inserted_entry fp split r idx"
  have old: "sid \<in> hints idx t \<longleftrightarrow> (\<exists>e. ent idx sid = Some e \<and> retention_until e = t)" for sid t
    using assms by (simp add: hints_wf_def)
  have "hints (index_insert fp split r idx) t =
      (if t = retention_until ?e then insert ?sid (hints idx t) else hints idx t - {?sid})" for t
  proof (cases "ent idx ?sid")
    case None
    then have "?sid \<notin> hints idx u" for u using old by simp
    then show ?thesis unfolding index_insert_new [OF None]
      by (simp add: hints_add)
  next
    case (Some p)
    then have "?sid \<in> hints idx u \<longleftrightarrow> u = retention_until p" for u using old by auto
    then show ?thesis unfolding index_insert_again [OF Some]
      by (auto simp: hints_add hints_drop)
  qed
  then show ?thesis using old by (auto simp: hints_wf_def index_insert_frame)
qed

lemma index_insert_bundles:
  assumes "bundles_wf L idx" and "split_of L s split" and "no_clash split idx"
  shows "bundles_wf L (index_insert fp split r idx)"
proof -
  let ?sid = "sp_session_id split" and ?d = "sp_digest split" and ?new = "index_insert fp split r idx"
  have e: "entry_digest (inserted_entry fp split r idx) = Some ?d"
    using inserted_entry_ok [OF assms(2) refl] by blast
  have cite: "citing ?new d = (if d = ?d then insert ?sid (citing idx d) else citing idx d)" for d
  proof -
    have "?sid \<notin> citing idx d" if "d \<noteq> ?d"
      using that assms(3) by (auto simp: citing_def no_clash_def)
    then show ?thesis using e by (auto simp: citing_def index_insert_frame)
  qed
  show ?thesis
  proof (cases "ent idx ?sid")
    case None
    then have fresh: "?sid \<notin> citing idx d" for d by (auto simp: citing_def)
    define b where "b = (case map_of (bundles idx) ?d of Some b \<Rightarrow> b
      | None \<Rightarrow> \<lparr>bu_bytes = sp_bundle split, citers = 0, persisted = False\<rparr>)"
    have b: "citers b = card (citing idx ?d)" "sha256_hex L (bu_bytes b) = ?d"
      using assms(1,2) by (auto simp: b_def bundles_wf_def split_of_def split: option.splits)
    have "map_of (bundles ?new) = (map_of (bundles idx))(?d \<mapsto> b\<lparr>citers := Suc (citers b)\<rparr>)"
      using index_insert_new [OF None, of fp r] by (simp add: b_def)
    then show ?thesis using assms(1) b fresh
      unfolding bundles_wf_def cite by auto
  next
    case (Some p)
    then have in_old: "?sid \<in> citing idx ?d" using assms(3) by (auto simp: citing_def no_clash_def)
    have "bundles ?new = bundles idx" by (simp add: index_insert_again [OF Some])
    then show ?thesis using assms(1) in_old
      unfolding bundles_wf_def cite by (simp add: insert_absorb) blast
  qed
qed

lemma index_insert_tokens:
  assumes "tokens_wf idx"
  shows "tokens_wf (index_insert fp split r idx)"
proof (cases "ent idx (sp_session_id split)")
  case None
  have "next_token (index_insert fp split r idx) = Suc (next_token idx)" by (simp add: index_insert_new [OF None])
  then show ?thesis using assms None
    unfolding tokens_wf_def index_insert_frame inserted_entry_def
    by (auto simp: less_Suc_eq split: if_splits) (metis less_irrefl)+
next
  case (Some p)
  have "next_token (index_insert fp split r idx) = next_token idx" by (simp add: index_insert_again [OF Some])
  then show ?thesis using assms Some
    unfolding tokens_wf_def index_insert_frame inserted_entry_def
    by (auto split: if_splits)
qed

theorem index_insert_wf:
  assumes "index_wf L idx" and "split_of L s split" and "no_clash split idx"
  shows "index_wf L (index_insert fp split r idx)"
proof -
  have "entries_wf L (index_insert fp split r idx)"
    using assms(1) inserted_entry_ok [OF assms(2) refl]
    unfolding index_inv_def entries_wf_def index_insert_frame by (auto split: if_splits) blast
  then show ?thesis
    using assms index_insert_shape index_insert_hints index_insert_bundles index_insert_tokens
    unfolding index_inv_def by blast
qed

section \<open>Leases and extensions\<close>

definition lease_ok :: "session_lease \<Rightarrow> session_index \<Rightarrow> bool" where
  "lease_ok l idx = (\<exists>e. ent idx (ls_session_id l) = Some e \<and> en_token e = ls_token l \<and> leases idx (ls_token l) > 0
     \<and> ls_established_at l = established_at (en_stripped e) \<and> ls_expires_at l = expires_at (en_stripped e))"

lemma leases_wf:
  assumes "index_wf L idx" and "\<forall>t \<ge> next_token idx. f (leases idx) t = 0"
  shows "index_wf L (leases_update f idx)"
proof -
  have "bundles_wf L (leases_update f idx) = bundles_wf L idx"
    using citing_cong [of "leases_update f idx" idx] by (simp add: bundles_wf_def)
  moreover have "shape_wf (leases_update f idx) = shape_wf idx" by (simp add: shape_wf_def)
  ultimately show ?thesis
    using assms by (simp add: index_inv_def hints_wf_def entries_wf_def tokens_wf_def)
qed

lemma entry_token: "index_wf L idx \<Longrightarrow> ent idx sid = Some e \<Longrightarrow> en_token e < next_token idx"
  by (simp add: index_inv_def tokens_wf_def)

lemma lease_token: "index_wf L idx \<Longrightarrow> lease_ok l idx \<Longrightarrow> ls_token l < next_token idx"
  unfolding lease_ok_def by (metis entry_token)

lemma take_lease_ok:
  assumes "index_wf L idx" and "take_lease sid idx = Inr (idx', lease)"
  shows "index_wf L idx' \<and> ent idx' = ent idx \<and> by_fingerprint idx' = by_fingerprint idx
    \<and> lease_ok lease idx' \<and> ls_session_id lease = sid"
proof -
  obtain e where e: "ent idx sid = Some e"
    "idx' = idx\<lparr>leases := (leases idx)(en_token e := Suc (leases idx (en_token e)))\<rparr>"
    "lease = \<lparr>ls_session_id = sid, ls_established_at = established_at (en_stripped e),
      ls_expires_at = expires_at (en_stripped e), ls_token = en_token e\<rparr>"
    using assms(2) by (auto simp: take_lease_def split: option.splits)
  have "index_wf L idx'" unfolding e(2)
    by (rule leases_wf [OF assms(1)]) (use assms(1) entry_token [OF assms(1) e(1)] in \<open>auto simp: index_inv_def tokens_wf_def\<close>)
  then show ?thesis using e by (simp add: lease_ok_def)
qed

lemma take_lease_total: "take_lease sid idx = Inl x \<longleftrightarrow> ent idx sid = None \<and> x = Panicked"
  by (auto simp: take_lease_def split: option.splits)

lemma clone_lease_wf:
  assumes "index_wf L idx" and "lease_ok lease idx"
  shows "index_wf L (clone_lease lease idx)" and "lease_ok l idx \<Longrightarrow> lease_ok l (clone_lease lease idx)"
proof -
  show "index_wf L (clone_lease lease idx)" unfolding clone_lease_def
    by (rule leases_wf [OF assms(1)])
      (use assms(1) lease_token [OF assms] in \<open>auto simp: index_inv_def tokens_wf_def\<close>)
qed (auto simp: clone_lease_def lease_ok_def)

lemma drop_lease_wf:
  assumes "index_wf L idx"
  shows "index_wf L (drop_lease lease idx)"
  unfolding drop_lease_def by (rule leases_wf [OF assms]) (use assms in \<open>auto simp: index_inv_def tokens_wf_def\<close>)

lemma extend_Inr:
  assumes "extend lease dl idx = Inr idx'"
  obtains e where "ent idx (ls_session_id lease) = Some e" "en_token e = ls_token lease"
    "dl \<le> retention_until e \<Longrightarrow> idx' = idx"
    "retention_until e < dl \<Longrightarrow> idx' = add_hint dl (ls_session_id lease)
      (drop_retention_hint (ls_session_id lease) (retention_until e)
        (idx\<lparr>by_id := AList.update (ls_session_id lease) (e\<lparr>retention_until := dl\<rparr>) (by_id idx)\<rparr>))"
  using assms that by (auto simp: extend_def split: option.splits if_splits)

lemma extend_ent:
  assumes "extend lease dl idx = Inr idx'"
  shows "ent idx' = (ent idx)(ls_session_id lease :=
      map_option (\<lambda>e. e\<lparr>retention_until := max (retention_until e) dl\<rparr>) (ent idx (ls_session_id lease)))
    \<and> leases idx' = leases idx \<and> by_fingerprint idx' = by_fingerprint idx \<and> next_token idx' = next_token idx
    \<and> bundles idx' = bundles idx"
  using assms
proof (rule extend_Inr)
  fix e assume e: "ent idx (ls_session_id lease) = Some e"
    and le: "dl \<le> retention_until e \<Longrightarrow> idx' = idx"
    and less: "retention_until e < dl \<Longrightarrow> idx' = add_hint dl (ls_session_id lease)
      (drop_retention_hint (ls_session_id lease) (retention_until e)
        (idx\<lparr>by_id := AList.update (ls_session_id lease) (e\<lparr>retention_until := dl\<rparr>) (by_id idx)\<rparr>))"
  show ?thesis
  proof (cases "retention_until e < dl")
    case True
    then have "max (retention_until e) dl = dl" by simp
    then show ?thesis using less [OF True] e by simp
  next
    case False
    then show ?thesis using le e by (auto simp: max_def fun_eq_iff)
  qed
qed

lemma retime_parts:
  assumes "ent idx' = (ent idx)(sid := map_option (\<lambda>e. e\<lparr>retention_until := max (retention_until e) dl\<rparr>) (ent idx sid))"
    and "bundles idx' = bundles idx" and "next_token idx' = next_token idx" and "leases idx' = leases idx"
  shows "entries_wf L idx \<Longrightarrow> entries_wf L idx'" and "bundles_wf L idx \<Longrightarrow> bundles_wf L idx'"
    and "tokens_wf idx \<Longrightarrow> tokens_wf idx'"
proof -
  have d: "entry_digest (e\<lparr>retention_until := t\<rparr>) = entry_digest e" for e t by (simp add: entry_digest_def)
  have o: "original L k (e\<lparr>retention_until := t\<rparr>) = original L k e" for k e t
    by (simp add: original_def d fun_eq_iff)
  show "entries_wf L idx \<Longrightarrow> entries_wf L idx'"
    by (auto simp: entries_wf_def assms o le_max_iff_disj)
  have "citing idx' = citing idx" by (auto simp: citing_def assms d fun_eq_iff)
  then show "bundles_wf L idx \<Longrightarrow> bundles_wf L idx'" by (simp add: bundles_wf_def assms)
  show "tokens_wf idx \<Longrightarrow> tokens_wf idx'"
    by (auto simp: tokens_wf_def assms split: if_splits)
qed

lemma extend_wf:
  assumes "index_wf L idx" and "extend lease dl idx = Inr idx'"
  shows "index_wf L idx'"
proof -
  let ?sid = "ls_session_id lease"
  note ent' = extend_ent [OF assms(2)]
  have parts: "entries_wf L idx' \<and> bundles_wf L idx' \<and> tokens_wf idx'"
    using retime_parts [of idx' idx] ent' assms(1) unfolding index_inv_def by blast
  have "shape_wf idx' \<and> hints_wf {} idx'"
    using assms(2)
  proof (rule extend_Inr)
    fix e assume e: "ent idx ?sid = Some e"
      and le: "dl \<le> retention_until e \<Longrightarrow> idx' = idx"
      and less: "retention_until e < dl \<Longrightarrow> idx' = add_hint dl ?sid (drop_retention_hint ?sid (retention_until e)
        (idx\<lparr>by_id := AList.update ?sid (e\<lparr>retention_until := dl\<rparr>) (by_id idx)\<rparr>))"
    show ?thesis
    proof (cases "retention_until e < dl")
      case True
      have hw: "sid \<in> hints idx t \<longleftrightarrow> (\<exists>e. ent idx sid = Some e \<and> retention_until e = t)" for sid t
        using assms(1) by (simp add: index_inv_def hints_wf_def)
      have "hints_wf {} idx'" using True hw e unfolding less [OF True]
        by (auto simp: hints_wf_def hints_add hints_drop)
      moreover have "shape_wf idx'" unfolding less [OF True]
        by (intro shape_add shape_drop) (use assms(1) in \<open>simp add: index_inv_def shape_wf_def\<close>)
      ultimately show ?thesis by blast
    next
      case False
      then show ?thesis using le assms(1) by (simp add: index_inv_def)
    qed
  qed
  then show ?thesis using parts by (simp add: index_inv_def)
qed

lemma extend_lease:
  "lease_ok lease idx \<Longrightarrow> \<exists>idx'. extend lease dl idx = Inr idx'"
  by (auto simp: extend_def lease_ok_def)

end
