(* ===== verification/SessionMem.thy ===== *)
theory SessionMem
  imports SessionInv
begin

text \<open>
  The contract of a session store as a locale, and the in-memory store (\<open>InMemorySessionStore\<close>) as an
  instance: every operation keeps the index invariant, the retention of a stored session is never cut
  short, and a retained session is served back exactly as it was sealed.
\<close>

section \<open>The contract of a session store\<close>

fun run :: "('op \<Rightarrow> 's \<Rightarrow> 's) \<Rightarrow> 'op list \<Rightarrow> 's \<Rightarrow> 's" where
  "run step [] s = s"
| "run step (op # ops) s = run step ops (step op s)"

fun run_ok :: "('op \<Rightarrow> 's \<Rightarrow> bool) \<Rightarrow> ('op \<Rightarrow> 's \<Rightarrow> 's) \<Rightarrow> 'op list \<Rightarrow> 's \<Rightarrow> bool" where
  "run_ok ok step [] s = True"
| "run_ok ok step (op # ops) s = (ok op s \<and> run_ok ok step ops (step op s))"

locale session_store =
  fixes inv :: "'s \<Rightarrow> bool"
    and promised :: "'s \<Rightarrow> string \<Rightarrow> u64 \<Rightarrow> bool"
    and ok :: "'op \<Rightarrow> 's \<Rightarrow> bool"
    and step :: "'op \<Rightarrow> 's \<Rightarrow> 's"
    and clock :: "'op \<Rightarrow> u64 option"
  assumes inv_step: "inv s \<Longrightarrow> ok op s \<Longrightarrow> inv (step op s)"
    and keep: "inv s \<Longrightarrow> ok op s \<Longrightarrow> promised s sid d \<Longrightarrow> (\<And>t. clock op = Some t \<Longrightarrow> t < d) \<Longrightarrow>
      promised (step op s) sid d"
begin

lemma run_inv: "inv s \<Longrightarrow> run_ok ok step ops s \<Longrightarrow> inv (run step ops s)"
  by (induction ops arbitrary: s) (auto simp: inv_step)

lemma run_keeps:
  assumes "inv s" and "run_ok ok step ops s" and "promised s sid d"
    and "\<And>op t. op \<in> set ops \<Longrightarrow> clock op = Some t \<Longrightarrow> t < d"
  shows "promised (run step ops s) sid d"
  using assms
proof (induction ops arbitrary: s)
  case (Cons op ops)
  have "promised (step op s) sid d" by (rule keep) (use Cons.prems in auto)
  moreover have "inv (step op s)" using Cons.prems inv_step by simp
  ultimately have "promised (run step ops (step op s)) sid d"
    by (intro Cons.IH) (use Cons.prems in auto)
  then show ?case by simp
qed simp

end

section \<open>Sealed sessions\<close>

text \<open>The sessions a history seals: each is sealed from a well-formed document with a readable bundle, and
  no two of them collide under SHA-256, in their canonical bytes or in their bundles.\<close>

definition bundle_of :: "'x lib_scheme \<Rightarrow> attested_session \<Rightarrow> (string \<times> bytes) option" where
  "bundle_of L s = evidence_decode L (evidence (document s))"

definition sealed_set :: "'x lib_scheme \<Rightarrow> attested_session set \<Rightarrow> bool" where
  "sealed_set L S = (\<forall>s \<in> S. document_wf (document s) \<and> seal L (document s) = Inr s \<and>
     (\<forall>t \<in> S. \<not> collision (sha256 L) (session_bytes s) (session_bytes t) \<and>
        (\<forall>ct x ct' y. bundle_of L s = Some (ct, x) \<longrightarrow> bundle_of L t = Some (ct', y) \<longrightarrow> \<not> collision (sha256 L) x y)))"

lemma same_value_member:
  assumes "same_value (JObject m) (JObject n)"
  shows "(map_of m k = None \<longleftrightarrow> map_of n k = None) \<and> (map_of m k = Some v \<longrightarrow> map_of n k = Some w \<longrightarrow> same_value v w)"
proof -
  have "dom (map_of m) = dom (map_of n)" using assms by (simp add: same_value_object)
  then have "map_of m k = None \<longleftrightarrow> map_of n k = None" using domIff [of k "map_of m"] domIff [of k "map_of n"]
    by (cases "map_of m k"; cases "map_of n k") simp_all
  then show ?thesis using assms by (simp add: same_value_object)
qed

lemma evidence_member: "evidence_value e = JObject m \<Longrightarrow> map_of m ''digest'' = map_option JString (ev_digest e)"
  by (auto simp: evidence_value_def skip_none_def split: option.splits)

lemma document_member:
  assumes "document_value d = JObject m"
  shows "map_of m ''evidence'' = Some (evidence_value (evidence d))"
    and "map_of m ''established_at'' = Some (JNumber (PosInt (established_at d)))"
    and "map_of m ''expires_at'' = Some (JNumber (PosInt (expires_at d)))"
  using assms by (auto simp: document_value_def split: option.splits)

lemma same_value_document:
  assumes "same_value (document_value d) (document_value d')"
  shows "ev_digest (evidence d) = ev_digest (evidence d') \<and> established_at d = established_at d' \<and> expires_at d = expires_at d'"
proof -
  obtain a where a: "document_value d = JObject a" by (simp add: document_value_def)
  obtain b where b: "document_value d' = JObject b" by (simp add: document_value_def)
  have ev: "same_value (evidence_value (evidence d)) (evidence_value (evidence d'))"
    using same_value_member [OF assms [unfolded a b]] document_member(1) [OF a] document_member(1) [OF b] by simp
  have times: "established_at d = established_at d' \<and> expires_at d = expires_at d'"
    using same_value_member [OF assms [unfolded a b], of "''established_at''" "JNumber (PosInt (established_at d))" "JNumber (PosInt (established_at d'))"]
      same_value_member [OF assms [unfolded a b], of "''expires_at''" "JNumber (PosInt (expires_at d))" "JNumber (PosInt (expires_at d'))"]
      document_member(2,3) [OF a] document_member(2,3) [OF b] by (simp add: same_value_leaf)
  obtain p where p: "evidence_value (evidence d) = JObject p" by (simp add: evidence_value_def)
  obtain q where q: "evidence_value (evidence d') = JObject q" by (simp add: evidence_value_def)
  note member = same_value_member [OF ev [unfolded p q], of "''digest''" "JString s" "JString t" for s t]
  show ?thesis
    using member evidence_member [OF p] evidence_member [OF q] times
    by (cases "ev_digest (evidence d)"; cases "ev_digest (evidence d')") (auto simp: same_value_leaf)
qed

lemma sealed_same_id:
  assumes "hex_ok L" "to_vec_inj L" "sealed_set L S" "s \<in> S" "t \<in> S" "session_id s = session_id t"
  shows "session_bytes s = session_bytes t \<and> ev_digest (evidence (document s)) = ev_digest (evidence (document t)) \<and>
    established_at (document s) = established_at (document t) \<and> expires_at (document s) = expires_at (document t)"
proof -
  have s: "seal L (document s) = Inr s" "document_wf (document s)" "seal L (document t) = Inr t" "document_wf (document t)"
    "\<not> collision (sha256 L) (session_bytes s) (session_bytes t)"
    using assms(3-5) by (auto simp: sealed_set_def)
  have "sha256 L (session_bytes s) = sha256 L (session_bytes t)"
    using assms(1,6) s(1,3) by (simp add: seal_Inr sha256_bare_hex_def hex_ok_inj)
  then have eq: "session_bytes s = session_bytes t" using s(5) by (simp add: collision_def)
  have "same_value (document_value (document s)) (document_value (document t))"
    using jcs_bytes_same_value [OF assms(2) document_value_jwf [OF s(2)] document_value_jwf [OF s(4)]] s(1,3) eq
    by (simp add: seal_Inr)
  then show ?thesis using eq same_value_document by blast
qed
section \<open>Provenance\<close>

definition bundles_sat :: "(bytes \<Rightarrow> bool \<Rightarrow> bool) \<Rightarrow> session_index \<Rightarrow> bool" where
  "bundles_sat P idx = (\<forall>d b. map_of (bundles idx) d = Some b \<longrightarrow> P (bu_bytes b) (persisted b))"

abbreviation bundles_in :: "bytes set \<Rightarrow> session_index \<Rightarrow> bool" where
  "bundles_in X \<equiv> bundles_sat (\<lambda>x _. x \<in> X)"

definition entries_from :: "'x lib_scheme \<Rightarrow> attested_session set \<Rightarrow> session_index \<Rightarrow> bool" where
  "entries_from L S idx = (\<forall>sid e. ent idx sid = Some e \<longrightarrow>
     (\<exists>s \<in> S. \<exists>x. original L sid e x s \<and> bundle_of L s = Some (en_content_type e, x)))"

abbreviation bundles_of :: "'x lib_scheme \<Rightarrow> attested_session set \<Rightarrow> bytes set" where
  "bundles_of L S \<equiv> {x. \<exists>s \<in> S. \<exists>ct. bundle_of L s = Some (ct, x)}"

definition store_inv :: "'x lib_scheme \<Rightarrow> attested_session set \<Rightarrow> session_index \<Rightarrow> bool" where
  "store_inv L S idx = (index_wf L idx \<and> entries_from L S idx \<and> bundles_in (bundles_of L S) idx)"

lemma foldl_keeps: "P a \<Longrightarrow> (\<And>a x. P a \<Longrightarrow> P (f a x)) \<Longrightarrow> P (foldl f a xs)"
  by (induction xs arbitrary: a) simp_all

lemma bundles_sat_update [simp]:
  "bundles_sat P (by_id_update f idx) = bundles_sat P idx" "bundles_sat P (by_fingerprint_update g idx) = bundles_sat P idx"
  "bundles_sat P (by_retention_update h idx) = bundles_sat P idx" "bundles_sat P (leases_update l idx) = bundles_sat P idx"
  "bundles_sat P (next_token_update k idx) = bundles_sat P idx"
  "bundles_sat P (add_hint t sid idx) = bundles_sat P idx" "bundles_sat P (drop_retention_hint sid t idx) = bundles_sat P idx"
  by (simp_all add: bundles_sat_def)

lemma evict_bundles_sat: "bundles_sat P idx \<Longrightarrow> bundles_sat P (evict_lapsed now idx)"
proof -
  have u: "bundles_sat P (uncite e i)" if "bundles_sat P i" for e i
    using that by (auto simp: bundles_sat_def uncite_def split: option.splits if_splits)
  have one: "bundles_sat P (evict_id t i sid)" if "bundles_sat P i" for t i sid
    using that by (simp add: evict_id_def Let_def u split: option.split)
  have bucket: "bundles_sat P (evict_deadline i t)" if "bundles_sat P i" for t i
    unfolding evict_deadline_def Let_def by (rule foldl_keeps [where P = "bundles_sat P"]) (simp_all add: that one)
  assume "bundles_sat P idx"
  then show ?thesis unfolding evict_lapsed_def by (rule foldl_keeps [where P = "bundles_sat P"]) (rule bucket)
qed

lemma evict_store_inv:
  assumes "store_inv L S idx"
  shows "store_inv L S (evict_lapsed now idx)"
proof -
  have wf: "index_wf L idx" using assms by (simp add: store_inv_def)
  have "entries_from L S (evict_lapsed now idx)"
    using assms unfolding store_inv_def entries_from_def evict_ent [OF wf] surviving_def
    by (auto split: option.splits if_splits)
  then show ?thesis using assms evict_wf [OF wf] evict_bundles_sat by (simp add: store_inv_def)
qed

lemma entries_fromD:
  assumes "entries_from L S idx" and "ent idx sid = Some e"
  obtains s x where "s \<in> S" "original L sid e x s" "bundle_of L s = Some (en_content_type e, x)"
  using assms unfolding entries_from_def by blast

lemma retime_entries_from:
  assumes "ent idx' = (ent idx)(sid := map_option (\<lambda>e. e\<lparr>retention_until := max (retention_until e) dl\<rparr>) (ent idx sid))"
    and "entries_from L S idx"
  shows "entries_from L S idx'"
  unfolding entries_from_def
proof (intro allI impI)
  fix k e assume e: "ent idx' k = Some e"
  then obtain e0 where e0: "ent idx k = Some e0" "e = e0\<lparr>retention_until := retention_until e\<rparr>"
    by (auto simp: assms(1) split: if_splits)
  obtain s x where s: "s \<in> S" "original L k e0 x s" "bundle_of L s = Some (en_content_type e0, x)"
    by (rule entries_fromD [OF assms(2) e0(1)])
  have "original L k (e0\<lparr>retention_until := u\<rparr>) x s" for u
    using s(2) by (simp add: original_def entry_digest_def)
  moreover have "en_content_type e = en_content_type e0" by (subst e0(2)) simp
  ultimately show "\<exists>s \<in> S. \<exists>x. original L k e x s \<and> bundle_of L s = Some (en_content_type e, x)"
    using s e0(2) by metis
qed

lemma extend_store_inv:
  assumes "store_inv L S idx" and "extend lease dl idx = Inr idx'"
  shows "store_inv L S idx'"
proof -
  note e = extend_ent [OF assms(2)]
  have "bundles_in X idx'" if "bundles_in X idx" for X using that e by (simp add: bundles_sat_def)
  then show ?thesis
    using assms(1) extend_wf [OF _ assms(2)] retime_entries_from [OF e [THEN conjunct1]]
    unfolding store_inv_def by blast
qed

lemma leases_store_inv:
  assumes "store_inv L S idx" and "index_wf L (leases_update f idx)"
  shows "store_inv L S (leases_update f idx)"
  using assms by (simp add: store_inv_def entries_from_def)

lemma take_lease_store_inv:
  assumes "store_inv L S idx" and "take_lease sid idx = Inr (idx', lease)"
  shows "store_inv L S idx'"
proof -
  obtain f where f: "idx' = leases_update f idx"
    using assms(2) by (auto simp: take_lease_def split: option.splits)
  have "index_wf L idx'" using assms(1) take_lease_ok [OF _ assms(2), of L] by (simp add: store_inv_def)
  then show ?thesis using leases_store_inv assms(1) unfolding f by blast
qed

lemma insert_store_inv:
  assumes laws: "hex_ok L" "b64_ok L" "to_vec_inj L" and S: "sealed_set L S" "s \<in> S"
    and inv: "store_inv L S idx" and split: "split_session_new L s = Inr split"
  shows "store_inv L S (index_insert fp split r idx)"
    and "lease_ok l idx \<Longrightarrow> lease_ok l (index_insert fp split r idx)"
proof -
  let ?new = "index_insert fp split r idx" and ?e = "inserted_entry fp split r idx"
  have sealed: "seal L (document s) = Inr s" using S by (simp add: sealed_set_def)
  have so: "split_of L s split" by (rule split_session_new_ok [OF laws(2) sealed split])
  obtain ct where dec: "bundle_of L s = Some (ct, sp_bundle split)" and ct: "sp_content_type split = ct"
    using split by (auto simp: split_session_new_def Let_def result_iffs bundle_of_def)
  have dig: "ev_digest (evidence (document s)) = Some (sp_digest split)"
    using split by (auto simp: split_session_new_def Let_def result_iffs)
  have same: "entry_digest e = Some (sp_digest split) \<and> established_at (sp_stripped split) = established_at (en_stripped e)
      \<and> expires_at (sp_stripped split) = expires_at (en_stripped e)"
    if e: "ent idx (sp_session_id split) = Some e" for e
  proof -
    have "entries_from L S idx" using inv by (simp add: store_inv_def)
    from entries_fromD [OF this e] obtain t x where t: "t \<in> S" "original L (sp_session_id split) e x t" .
    have "session_id s = session_id t" using t(2) so by (simp add: original_def split_of_def)
    with sealed_same_id [OF laws(1,3) S t(1)] dig
    have "ev_digest (evidence (document t)) = Some (sp_digest split)" "established_at (document s) = established_at (document t)"
      "expires_at (document s) = expires_at (document t)" by simp_all
    then show ?thesis
      using t(2) so by (auto simp: original_def seal_Inr evidence_from_bytes_def split_of_def)
  qed
  show "lease_ok l ?new" if "lease_ok l idx"
    using that same by (auto simp: lease_ok_def index_insert_frame inserted_entry_def)
  have "no_clash split idx" using same by (simp add: no_clash_def)
  then have "index_wf L ?new" using index_insert_wf [OF _ so] inv by (simp add: store_inv_def)
  moreover have "entries_from L S ?new"
  proof -
    have "original L (sp_session_id split) ?e (sp_bundle split) s" using inserted_entry_ok [OF so refl] by blast
    moreover have "en_content_type ?e = ct" by (simp add: inserted_entry_def ct)
    ultimately show ?thesis
      using inv S(2) dec unfolding store_inv_def entries_from_def index_insert_frame by auto
  qed
  moreover have "bundles_in (bundles_of L S) ?new"
  proof -
    have x: "sp_bundle split \<in> bundles_of L S" using dec S(2) by blast
    have old: "bundles_in (bundles_of L S) idx" using inv by (simp add: store_inv_def)
    show ?thesis
    proof (cases "ent idx (sp_session_id split)")
      case None
      show ?thesis unfolding index_insert_new [OF None]
        using old x by (simp add: bundles_sat_def split: option.splits)
    next
      case (Some p)
      show ?thesis unfolding index_insert_again [OF Some] using old by simp
    qed
  qed
  ultimately show "store_inv L S ?new" by (simp add: store_inv_def)
qed

section \<open>The operations\<close>

definition deadline_of :: "session_index \<Rightarrow> string \<Rightarrow> u64 option" where
  "deadline_of idx sid = map_option retention_until (ent idx sid)"

definition promised :: "session_index \<Rightarrow> string \<Rightarrow> u64 \<Rightarrow> bool" where
  "promised idx sid d = (\<exists>d' \<ge> d. deadline_of idx sid = Some d')"

text \<open>What no operation reading the clock at \<open>now\<close> takes away: a deadline after \<open>now\<close>, and a lease.\<close>

definition keeps :: "u64 \<Rightarrow> session_index \<Rightarrow> session_index \<Rightarrow> bool" where
  "keeps now idx idx' = ((\<forall>sid d. deadline_of idx sid = Some d \<and> now < d \<longrightarrow> (\<exists>d' \<ge> d. deadline_of idx' sid = Some d')) \<and>
     (\<forall>l. lease_ok l idx \<longrightarrow> lease_ok l idx'))"

lemma keeps_trans: "keeps now a b \<Longrightarrow> keeps now b c \<Longrightarrow> keeps now a c"
  unfolding keeps_def by (meson less_le_trans order_trans)

lemma evict_keeps:
  assumes "index_wf L idx"
  shows "keeps now idx (evict_lapsed now idx)"
  using evict_ent [OF assms] evict_leases [OF assms]
  by (auto simp: keeps_def lease_ok_def surviving_def deadline_of_def)

lemma extend_deadline:
  assumes "extend lease dl idx = Inr idx'" and "deadline_of idx sid = Some d"
  shows "deadline_of idx' sid = Some (if sid = ls_session_id lease then max d dl else d)"
  using assms(2) extend_ent [OF assms(1)] by (auto simp: deadline_of_def)

lemma extend_keeps:
  assumes "extend lease dl idx = Inr idx'"
  shows "keeps now idx idx'"
proof -
  have "lease_ok l idx'" if "lease_ok l idx" for l
    using that extend_ent [OF assms] by (auto simp: lease_ok_def)
  then show ?thesis using extend_deadline [OF assms] by (auto simp: keeps_def)
qed

lemma leases_keeps: "(\<And>t. 0 < leases idx t \<Longrightarrow> 0 < f (leases idx) t) \<Longrightarrow> keeps now idx (leases_update f idx)"
  by (auto simp: keeps_def deadline_of_def lease_ok_def)

lemma take_lease_keeps: "take_lease sid idx = Inr (idx', l) \<Longrightarrow> keeps now idx idx'"
  by (auto simp: take_lease_def intro!: leases_keeps split: option.splits)

lemma insert_keeps:
  assumes "\<And>l. lease_ok l idx \<Longrightarrow> lease_ok l (index_insert fp split r idx)"
  shows "keeps now idx (index_insert fp split r idx)"
  using assms by (auto simp: keeps_def deadline_of_def index_insert_frame inserted_entry_def)

lemma deadline_kept:
  "keeps now idx idx' \<Longrightarrow> deadline_of idx sid = Some d \<Longrightarrow> now < d \<Longrightarrow> \<exists>d' \<ge> d. deadline_of idx' sid = Some d'"
  by (simp add: keeps_def)

lemma promise_kept: "keeps now idx idx' \<Longrightarrow> promised idx sid d \<Longrightarrow> now < d \<Longrightarrow> promised idx' sid d"
  unfolding promised_def by (meson deadline_kept less_le_trans order_trans)

lemma lease_kept: "keeps now idx idx' \<Longrightarrow> lease_ok l idx \<Longrightarrow> lease_ok l idx'"
  by (simp add: keeps_def)

text \<open>Looking up the current session of a channel never panics; a lease it grants is on a session still
  valid at \<open>now\<close> and retained for as long as asked.\<close>

lemma current_ok:
  assumes inv: "store_inv L S idx"
  obtains (none) "current fp r now idx = Inr (evict_lapsed now idx, None)"
  | (some) i l d where "current fp r now idx = Inr (i, Some l)" "store_inv L S i" "lease_ok l i" "now < ls_expires_at l"
      "deadline_of i (ls_session_id l) = Some d" "r \<le> d"
      "keeps now idx i"
proof (cases "\<exists>sid e. map_of (by_fingerprint (evict_lapsed now idx)) fp = Some sid \<and>
    ent (evict_lapsed now idx) sid = Some e \<and> now < expires_at (en_stripped e)")
  case False
  then have "current fp r now idx = Inr (evict_lapsed now idx, None)"
    by (auto simp: current_def Let_def not_less split: option.splits)
  then show ?thesis by (rule none)
next
  case True
  let ?idx = "evict_lapsed now idx"
  obtain sid e where e: "map_of (by_fingerprint ?idx) fp = Some sid" "ent ?idx sid = Some e"
    "now < expires_at (en_stripped e)" using True by blast
  have ev: "store_inv L S ?idx" by (rule evict_store_inv [OF inv])
  obtain i0 l where take: "take_lease sid ?idx = Inr (i0, l)"
    using e(2) by (simp add: take_lease_def)
  have l: "ent i0 = ent ?idx" "lease_ok l i0" "ls_session_id l = sid"
    using take_lease_ok [OF _ take, of L] ev by (auto simp: store_inv_def)
  obtain i where i: "extend l r i0 = Inr i" using extend_lease [OF l(2)] by blast
  show ?thesis
  proof (rule some)
    show "current fp r now idx = Inr (i, Some l)" using e take i by (simp add: current_def Let_def)
    show "store_inv L S i" by (rule extend_store_inv [OF take_lease_store_inv [OF ev take] i])
    show "lease_ok l i" by (rule lease_kept [OF extend_keeps [OF i] l(2)])
    show "now < ls_expires_at l" using l e by (auto simp: lease_ok_def)
    show "deadline_of i (ls_session_id l) = Some (max (retention_until e) r)"
      using extend_deadline [OF i, of sid "retention_until e"] e(2) l by (simp add: deadline_of_def)
    show "keeps now idx i"
      using evict_keeps take_lease_keeps [OF take] extend_keeps [OF i] keeps_trans inv unfolding store_inv_def by metis
  qed simp
qed

lemma mem_current_or_seal_ok:
  assumes laws: "hex_ok L" "b64_ok L" "to_vec_inj L" and S: "sealed_set L S"
    and inv: "store_inv L S idx" and sealed: "\<And>s. sealed = Inr s \<Longrightarrow> s \<in> S"
    and run: "mem_current_or_seal L fp r now sealed idx = (idx', res)"
  shows "store_inv L S idx' \<and> keeps now idx idx' \<and>
    (case res of Inr l \<Rightarrow> lease_ok l idx' \<and> (\<exists>d \<ge> r. deadline_of idx' (ls_session_id l) = Some d)
     | Inl e \<Rightarrow> sealed = Inl e \<or> e = NoEvidenceBundle)"
  using inv
proof (rule current_ok [where fp = fp and r = r and now = now])
  fix i l d
  assume "current fp r now idx = Inr (i, Some l)" "store_inv L S i" "lease_ok l i"
    "deadline_of i (ls_session_id l) = Some d" "r \<le> d" "keeps now idx i"
  then show ?thesis using run by (auto simp: mem_current_or_seal_def)
next
  let ?i = "evict_lapsed now idx"
  assume none: "current fp r now idx = Inr (?i, None)"
  have ev: "store_inv L S ?i" "keeps now idx ?i"
    using evict_store_inv [OF inv] evict_keeps inv by (auto simp: store_inv_def)
  show ?thesis
  proof (cases "and_then sealed (split_session_new L)")
    case (Inl e)
    then have "sealed = Inl e \<or> e = NoEvidenceBundle"
      by (auto simp: result_iffs split_session_new_def Let_def evidence_decode_Some split: option.splits)
    then show ?thesis using run none Inl ev by (auto simp: mem_current_or_seal_def)
  next
    case (Inr split)
    then obtain s where s: "sealed = Inr s" "split_session_new L s = Inr split" by (auto simp: result_iffs)
    let ?j = "index_insert fp split r ?i"
    have j: "store_inv L S ?j" "keeps now ?i ?j"
      using insert_store_inv [OF laws S sealed [OF s(1)] ev(1) s(2)] insert_keeps by blast+
    obtain k l where take: "take_lease (sp_session_id split) ?j = Inr (k, l)"
      by (simp add: take_lease_def index_insert_frame)
    have k: "store_inv L S k" "lease_ok l k" "ls_session_id l = sp_session_id split" "ent k = ent ?j"
      using take_lease_store_inv [OF j(1) take] take_lease_ok [OF _ take, of L] j(1) by (auto simp: store_inv_def)
    have res: "res = Inr l" "idx' = evict_lapsed now k"
      using run none Inr take by (auto simp: mem_current_or_seal_def)
    have fin: "store_inv L S idx'" "keeps now k idx'"
      unfolding res(2) using evict_store_inv [OF k(1)] evict_keeps k(1) by (auto simp: store_inv_def)
    have "ent idx' (ls_session_id l) = ent k (ls_session_id l)"
      using k(1,2) evict_ent [of L k now] unfolding res(2) by (auto simp: store_inv_def surviving_def lease_ok_def)
    then have "\<exists>d \<ge> r. deadline_of idx' (ls_session_id l) = Some d"
      using k(3,4) by (auto simp: deadline_of_def index_insert_frame inserted_entry_def le_max_iff_disj split: option.splits)
    moreover have "keeps now idx idx'"
      using keeps_trans [OF keeps_trans [OF keeps_trans [OF ev(2) j(2)] take_lease_keeps [OF take]] fin(2)] .
    ultimately show ?thesis using res(1) fin lease_kept [OF fin(2) k(2)] by simp
  qed
qed

lemma rebuild_original:
  assumes inv: "store_inv L S idx" and S: "sealed_set L S" and "hex_ok L" and e: "ent idx sid = Some e"
  shows "\<exists>s \<in> S. session_id s = sid \<and> rebuild L idx sid e = Some s"
proof -
  obtain s x where s: "s \<in> S" "original L sid e x s" "bundle_of L s = Some (en_content_type e, x)"
    using inv e entries_fromD unfolding store_inv_def by metis
  have dig: "entry_digest e = Some (sha256_hex L x)" using s(2) by (simp add: original_def)
  then have "sid \<in> citing idx (sha256_hex L x)" using e by (simp add: citing_def)
  then obtain b where b: "map_of (bundles idx) (sha256_hex L x) = Some b" "sha256_hex L (bu_bytes b) = sha256_hex L x"
    using inv unfolding store_inv_def index_inv_def bundles_wf_def by blast
  obtain t ct where t: "t \<in> S" "bundle_of L t = Some (ct, bu_bytes b)"
    using inv b(1) unfolding store_inv_def bundles_sat_def by blast
  have "sha256 L (bu_bytes b) = sha256 L x" using b(2) assms(3) by (simp add: sha256_hex_def hex_ok_inj)
  moreover have "\<not> collision (sha256 L) (bu_bytes b) x" using S s(1,3) t by (auto simp: sealed_set_def)
  ultimately have "bu_bytes b = x" by (simp add: collision_def)
  then have "rebuild L idx sid e = Some s"
    using s(2) dig b(1) by (simp add: rebuild_def original_def)
  then show ?thesis using s by (auto simp: original_def)
qed

section \<open>The in-memory store as a session store\<close>

datatype mem_op =
    CurrentOrSeal string u64 u64 "store_error + attested_session"
  | GetSession string u64
  | ExtendRetention session_lease u64
  | CloneLease session_lease
  | DropLease session_lease

fun mem_step :: "'x lib_scheme \<Rightarrow> mem_op \<Rightarrow> session_index \<Rightarrow> session_index" where
  "mem_step L (CurrentOrSeal fp r now sealed) idx = fst (mem_current_or_seal L fp r now sealed idx)"
| "mem_step L (GetSession sid now) idx = fst (mem_get_session L sid now idx)"
| "mem_step L (ExtendRetention lease dl) idx = fst (mem_extend_retention lease dl idx)"
| "mem_step L (CloneLease lease) idx = clone_lease lease idx"
| "mem_step L (DropLease lease) idx = drop_lease lease idx"

fun mem_clock :: "mem_op \<Rightarrow> u64 option" where
  "mem_clock (CurrentOrSeal fp r now sealed) = Some now"
| "mem_clock (GetSession sid now) = Some now"
| "mem_clock op = None"

text \<open>What the callers may do: seal sessions of \<open>S\<close>, and clone a lease they hold.\<close>

fun mem_ok :: "attested_session set \<Rightarrow> mem_op \<Rightarrow> session_index \<Rightarrow> bool" where
  "mem_ok S (CurrentOrSeal fp r now sealed) idx = (case sealed of Inr s \<Rightarrow> s \<in> S | Inl _ \<Rightarrow> True)"
| "mem_ok S (CloneLease lease) idx = lease_ok lease idx"
| "mem_ok S op idx = True"

definition safe_store :: "'x lib_scheme \<Rightarrow> attested_session set \<Rightarrow> session_index \<Rightarrow> bool" where
  "safe_store L S idx = (hex_ok L \<and> b64_ok L \<and> to_vec_inj L \<and> sealed_set L S \<and> store_inv L S idx)"

lemma mem_step_ok:
  assumes "safe_store L S idx" and "mem_ok S op idx"
  shows "safe_store L S (mem_step L op idx)" and "\<forall>t. mem_clock op = Some t \<longrightarrow> keeps t idx (mem_step L op idx)"
    and "mem_clock op = None \<Longrightarrow> deadline_of idx sid = Some d \<Longrightarrow> \<exists>d' \<ge> d. deadline_of (mem_step L op idx) sid = Some d'"
proof -
  have inv: "store_inv L S idx" and laws: "hex_ok L" "b64_ok L" "to_vec_inj L" "sealed_set L S"
    using assms(1) by (simp_all add: safe_store_def)
  have wf: "index_wf L idx" using inv by (simp add: store_inv_def)
  have "store_inv L S (mem_step L op idx) \<and> (\<forall>t. mem_clock op = Some t \<longrightarrow> keeps t idx (mem_step L op idx)) \<and>
    (mem_clock op = None \<longrightarrow> deadline_of idx sid = Some d \<longrightarrow> (\<exists>d' \<ge> d. deadline_of (mem_step L op idx) sid = Some d'))"
  proof (cases op)
    case (CurrentOrSeal fp r now sealed)
    obtain idx' res where run: "mem_current_or_seal L fp r now sealed idx = (idx', res)" by fastforce
    have "s \<in> S" if "sealed = Inr s" for s using assms(2) that CurrentOrSeal by simp
    from mem_current_or_seal_ok [OF laws inv this run] show ?thesis using CurrentOrSeal run by simp
  next
    case (GetSession k now)
    then show ?thesis using evict_store_inv [OF inv, of now] evict_keeps [OF wf, of now]
      by (simp add: mem_get_session_def index_get_def Let_def)
  next
    case (ExtendRetention lease dl)
    show ?thesis
    proof (cases "extend lease dl idx")
      case (Inr i)
      then show ?thesis using ExtendRetention extend_store_inv [OF inv Inr] extend_deadline [OF Inr, of sid d]
        by (auto simp: mem_extend_retention_def)
    qed (use ExtendRetention inv in \<open>simp add: mem_extend_retention_def\<close>)
  next
    case (CloneLease lease)
    have "store_inv L S (clone_lease lease idx)"
      using clone_lease_wf(1) [OF wf] CloneLease assms(2) leases_store_inv [OF inv] by (simp add: clone_lease_def)
    then show ?thesis using CloneLease by (auto simp: clone_lease_def deadline_of_def)
  next
    case (DropLease lease)
    have "store_inv L S (drop_lease lease idx)"
      using drop_lease_wf [OF wf] leases_store_inv [OF inv] by (simp add: drop_lease_def)
    then show ?thesis using DropLease by (auto simp: drop_lease_def deadline_of_def)
  qed
  then show "safe_store L S (mem_step L op idx)" and "\<forall>t. mem_clock op = Some t \<longrightarrow> keeps t idx (mem_step L op idx)"
    and "mem_clock op = None \<Longrightarrow> deadline_of idx sid = Some d \<Longrightarrow> \<exists>d' \<ge> d. deadline_of (mem_step L op idx) sid = Some d'"
    using laws by (auto simp: safe_store_def)
qed

interpretation mem: session_store "safe_store L S" promised "mem_ok S" "mem_step L" mem_clock for L S
proof
  fix s op sid d
  assume s: "safe_store L S s" "mem_ok S op s"
  show "safe_store L S (mem_step L op s)" by (rule mem_step_ok(1) [OF s])
  assume d: "promised s sid d" "\<And>t. mem_clock op = Some t \<Longrightarrow> t < d"
  show "promised (mem_step L op s) sid d"
  proof (cases "mem_clock op")
    case None
    from d(1) obtain d' where "d \<le> d'" "deadline_of s sid = Some d'" by (auto simp: promised_def)
    then show ?thesis using mem_step_ok(3) [OF s None, of sid d'] by (auto simp: promised_def intro: order_trans)
  next
    case (Some t)
    then show ?thesis using mem_step_ok(2) [OF s] d by (auto intro: promise_kept)
  qed
qed

section \<open>Properties\<close>

lemma served_until_deadline:
  assumes safe: "safe_store L S idx" and d: "promised idx sid d" and now: "now < d"
  shows "\<exists>s \<in> S. session_id s = sid \<and> snd (mem_get_session L sid now idx) = Some s"
proof -
  have inv: "store_inv L S idx" and S: "sealed_set L S" "hex_ok L" using safe by (simp_all add: safe_store_def)
  let ?i = "evict_lapsed now idx"
  have "keeps now idx ?i" using evict_keeps inv by (auto simp: store_inv_def)
  from promise_kept [OF this d now] obtain e where e: "ent ?i sid = Some e"
    by (auto simp: promised_def deadline_of_def)
  from rebuild_original [OF evict_store_inv [OF inv] S e] e show ?thesis
    by (simp add: mem_get_session_def index_get_def Let_def)
qed

text \<open>C27: A session is served for as long as it was promised. Once \<open>current_or_seal\<close> has handed out a lease
  with retention until \<open>r\<close>, then after any sequence of store operations whose clocks read less than \<open>r\<close>,
  whether or not the lease is still held, \<open>get_session\<close> returns the session under the leased id, exactly as
  one of the sessions sealed; no two sealed sessions or bundles being SHA-256 collisions.\<close>

theorem retained_session_served:
  assumes "safe_store L S idx" and "\<And>s. sealed = Inr s \<Longrightarrow> s \<in> S"
    and "mem_current_or_seal L fp r now sealed idx = (idx', Inr lease)"
    and "run_ok (mem_ok S) (mem_step L) ops idx'" and "\<And>op t. op \<in> set ops \<Longrightarrow> mem_clock op = Some t \<Longrightarrow> t < r"
    and "later < r"
  shows "\<exists>s \<in> S. session_id s = ls_session_id lease \<and>
    snd (mem_get_session L (ls_session_id lease) later (run (mem_step L) ops idx')) = Some s"
proof -
  have laws: "hex_ok L" "b64_ok L" "to_vec_inj L" "sealed_set L S" "store_inv L S idx"
    using assms(1) by (simp_all add: safe_store_def)
  from mem_current_or_seal_ok [OF laws assms(2,3)] have p: "promised idx' (ls_session_id lease) r" and
    safe: "safe_store L S idx'" using laws by (auto simp: safe_store_def promised_def)
  have "promised (run (mem_step L) ops idx') (ls_session_id lease) r"
    using mem.run_keeps [OF safe assms(4) p] assms(5) by blast
  then show ?thesis using served_until_deadline mem.run_inv [OF safe assms(4)] assms(6) by blast
qed

lemma sample_sealed:
  obtains s where "seal sample_lib (sample_document a b) = Inr s" "sealed_set sample_lib {s}"
    "bundle_of sample_lib s = Some (''text/plain'', ''proof'')"
proof -
  let ?d = "sample_document a b"
  obtain s where s: "seal sample_lib ?d = Inr s" using seal_total sample_document_ok by blast
  have doc: "document s = ?d" using s by (simp add: seal_Inr)
  have "\<not> contains_str '';base64,'' ''text/plain''" by code_simp
  from evidence_decode_from_bytes [OF sample_lib_laws(4) this, of "''proof''"]
  have b: "bundle_of sample_lib s = Some (''text/plain'', ''proof'')"
    by (simp add: bundle_of_def doc sample_document_def)
  have "sealed_set sample_lib {s}"
    using s doc sample_document_ok [of a b] by (auto simp: sealed_set_def collision_def)
  then show ?thesis by (rule that [OF s _ b])
qed

lemma default_safe: "sealed_set sample_lib S \<Longrightarrow> safe_store sample_lib S index_default"
  using sample_lib_laws index_default_wf [of sample_lib]
  by (simp add: safe_store_def store_inv_def entries_from_def bundles_sat_def index_default_def)

lemma sample_current_or_seal:
  assumes "seal sample_lib d = Inr s" and "bundle_of sample_lib s = Some b" and "sealed_set sample_lib {s}"
  obtains idx l where "mem_current_or_seal sample_lib fp r now (Inr s) index_default = (idx, Inr l)"
proof -
  obtain idx res where run: "mem_current_or_seal sample_lib fp r now (Inr s) index_default = (idx, res)" by fastforce
  obtain split where split: "split_session_new sample_lib s = Inr split"
    using evidence_decode_digest [of sample_lib "evidence (document s)"] assms(2)
    by (cases b) (simp add: split_session_new_def bundle_of_def Let_def)
  have "evict_lapsed now index_default = index_default" by (simp add: evict_lapsed_def index_default_def)
  then have "current fp r now index_default = Inr (index_default, None)"
    by (simp add: current_def Let_def) (simp add: index_default_def)
  then have "\<exists>l. res = Inr l"
    using run split by (auto simp: mem_current_or_seal_def take_lease_def index_insert_frame)
  then show ?thesis using run that by blast
qed

theorem retained_session_served_witness:
  "\<exists>s idx l. mem_current_or_seal sample_lib ''channel'' 10 1 (Inr s) index_default = (idx, Inr l) \<and>
     (\<exists>t. snd (mem_get_session sample_lib (ls_session_id l) 9
        (run (mem_step sample_lib) [DropLease l, GetSession ''other'' 8] idx)) = Some t)"
proof -
  obtain s where s: "seal sample_lib (sample_document 1 5) = Inr s" "sealed_set sample_lib {s}"
    "bundle_of sample_lib s = Some (''text/plain'', ''proof'')" by (rule sample_sealed)
  obtain idx l where run: "mem_current_or_seal sample_lib ''channel'' 10 1 (Inr s) index_default = (idx, Inr l)"
    by (rule sample_current_or_seal [OF s(1,3,2)])
  have "\<exists>t \<in> {s}. session_id t = ls_session_id l \<and> snd (mem_get_session sample_lib (ls_session_id l) 9
     (run (mem_step sample_lib) [DropLease l, GetSession ''other'' 8] idx)) = Some t"
    by (rule retained_session_served [OF default_safe [OF s(2)] _ run]) auto
  with run show ?thesis by blast
qed

text \<open>C28: Whatever the callers do, the index stays consistent: after any sequence of operations on an empty
  store every stored entry is one of the sealed sessions under its own id, its retention hint is in the
  bucket of its deadline and nowhere else, every evidence bundle is kept exactly while entries cite it and
  its count is the number of those entries, and no token is shared by two entries.\<close>

theorem session_store_invariant:
  assumes "hex_ok L" "b64_ok L" "to_vec_inj L" and "sealed_set L S"
    and "run_ok (mem_ok S) (mem_step L) ops index_default"
  defines "idx \<equiv> run (mem_step L) ops index_default"
  shows "index_wf L idx \<and> (\<forall>sid e. ent idx sid = Some e \<longrightarrow>
    (\<exists>s \<in> S. session_id s = sid \<and> rebuild L idx sid e = Some s) \<and>
    (\<forall>t. sid \<in> hints idx t \<longleftrightarrow> t = retention_until e) \<and>
    (\<exists>d b. entry_digest e = Some d \<and> map_of (bundles idx) d = Some b \<and> citers b = card (citing idx d)))"
proof -
  have "safe_store L S index_default"
    using assms(1-4) index_default_wf [of L]
    by (simp add: safe_store_def store_inv_def entries_from_def bundles_sat_def index_default_def)
  then have inv: "store_inv L S idx"
    using mem.run_inv [OF _ assms(5)] by (simp add: idx_def safe_store_def)
  have wf: "index_wf L idx" using inv by (simp add: store_inv_def)
  have "(\<forall>t. sid \<in> hints idx t \<longleftrightarrow> t = retention_until e) \<and>
    (\<exists>d b. entry_digest e = Some d \<and> map_of (bundles idx) d = Some b \<and> citers b = card (citing idx d))"
    if e: "ent idx sid = Some e" for sid e
  proof -
    obtain d where d: "entry_digest e = Some d"
      using wf e unfolding index_inv_def entries_wf_def original_def by blast
    then have "citing idx d \<noteq> {}" using e by (auto simp: citing_def)
    then have "\<exists>b. map_of (bundles idx) d = Some b \<and> citers b = card (citing idx d)"
      using wf unfolding index_inv_def bundles_wf_def by blast
    moreover have "\<forall>t. sid \<in> hints idx t \<longleftrightarrow> t = retention_until e"
      using wf e unfolding index_inv_def hints_wf_def by auto
    ultimately show ?thesis using d by blast
  qed
  then show ?thesis using wf rebuild_original [OF inv assms(4,1)] by blast
qed

theorem session_store_invariant_witness:
  "\<exists>s l. seal sample_lib (sample_document 1 5) = Inr s \<and> index_wf sample_lib
     (run (mem_step sample_lib) [CurrentOrSeal ''channel'' 10 1 (Inr s), CurrentOrSeal ''channel'' 20 2 (Inl WriteFailed),
        DropLease l, GetSession ''other'' 30] index_default)"
proof -
  obtain s where s: "seal sample_lib (sample_document 1 5) = Inr s" "sealed_set sample_lib {s}"
    "bundle_of sample_lib s = Some (''text/plain'', ''proof'')" by (rule sample_sealed)
  let ?l = "\<lparr>ls_session_id = '''', ls_established_at = 1, ls_expires_at = 5, ls_token = 0\<rparr>"
  have "run_ok (mem_ok {s}) (mem_step sample_lib) [CurrentOrSeal ''channel'' 10 1 (Inr s),
     CurrentOrSeal ''channel'' 20 2 (Inl WriteFailed), DropLease ?l, GetSession ''other'' 30] index_default" by simp
  from session_store_invariant [OF sample_lib_laws(3,4,5) s(2) this] s(1) show ?thesis by blast
qed

text \<open>Acquiring a session never panics and never fails for a reason of the store's own. The result is the
  error of the sealing closure, a refusal of a session without a readable evidence bundle, or a lease that
  names a stored session and keeps it at least as long as asked; and no session whose retention has not
  lapsed, and no session under lease, is lost by it.\<close>

theorem current_or_seal_sound:
  assumes "safe_store L S idx" and "\<And>s. sealed = Inr s \<Longrightarrow> s \<in> S"
  shows "case mem_current_or_seal L fp r now sealed idx of
      (idx', Inl e) \<Rightarrow> (sealed = Inl e \<or> e = NoEvidenceBundle) \<and> keeps now idx idx'
    | (idx', Inr l) \<Rightarrow> lease_ok l idx' \<and> (\<exists>d \<ge> r. deadline_of idx' (ls_session_id l) = Some d) \<and> keeps now idx idx'"
proof -
  have laws: "hex_ok L" "b64_ok L" "to_vec_inj L" "sealed_set L S" "store_inv L S idx"
    using assms(1) by (simp_all add: safe_store_def)
  obtain idx' res where run: "mem_current_or_seal L fp r now sealed idx = (idx', res)" by fastforce
  from mem_current_or_seal_ok [OF laws assms(2) run] show ?thesis by (simp add: run split: sum.splits)
qed

theorem current_or_seal_sound_witness:
  "case mem_current_or_seal sample_lib ''channel'' 10 1 (Inl WriteFailed) index_default of
     (idx', Inl e) \<Rightarrow> e = WriteFailed \<or> e = NoEvidenceBundle
   | (idx', Inr l) \<Rightarrow> lease_ok l idx'"
proof -
  have "sealed_set sample_lib {}" by (simp add: sealed_set_def)
  from current_or_seal_sound [OF default_safe [OF this], where sealed = "Inl WriteFailed" and fp = "''channel''" and r = 10 and now = 1]
  show ?thesis by (auto split: prod.splits sum.splits)
qed

text \<open>Eviction removes exactly what has lapsed: after \<open>evict_lapsed now\<close> a session is stored if and only if
  it was stored before, unchanged, and its retention is past \<open>now\<close> or a lease holds it; and a bundle is
  stored if and only if one of those sessions cites it.\<close>

theorem evict_lapsed_exact:
  assumes "index_wf L idx"
  shows "(ent (evict_lapsed now idx) sid = Some e \<longleftrightarrow>
      ent idx sid = Some e \<and> (now < retention_until e \<or> strong_count idx (en_token e) > 1)) \<and>
    ((\<exists>b. map_of (bundles (evict_lapsed now idx)) d = Some b) \<longleftrightarrow>
      (\<exists>k f. ent idx k = Some f \<and> entry_digest f = Some d \<and> (now < retention_until f \<or> strong_count idx (en_token f) > 1)))"
proof -
  have ent: "ent (evict_lapsed now idx) k = Some f \<longleftrightarrow>
      ent idx k = Some f \<and> (now < retention_until f \<or> strong_count idx (en_token f) > 1)" for k f
    using evict_ent [OF assms, of now] by (auto simp: surviving_def strong_count_def not_less split: option.splits)
  have "(\<exists>b. map_of (bundles (evict_lapsed now idx)) d = Some b) \<longleftrightarrow> citing (evict_lapsed now idx) d \<noteq> {}"
    using evict_wf [OF assms, of now] unfolding index_inv_def bundles_wf_def by blast
  then show ?thesis using ent by (auto simp: citing_def)
qed

theorem evict_lapsed_exact_witness:
  "\<exists>s idx l e. mem_current_or_seal sample_lib ''channel'' 10 1 (Inr s) index_default = (idx, Inr l) \<and>
     ent idx (ls_session_id l) = Some e \<and> ent (evict_lapsed 50 idx) (ls_session_id l) = Some e"
proof -
  obtain s where s: "seal sample_lib (sample_document 1 5) = Inr s" "sealed_set sample_lib {s}"
    "bundle_of sample_lib s = Some (''text/plain'', ''proof'')" by (rule sample_sealed)
  obtain idx l where run: "mem_current_or_seal sample_lib ''channel'' 10 1 (Inr s) index_default = (idx, Inr l)"
    by (rule sample_current_or_seal [OF s(1,3,2)])
  have "store_inv sample_lib {s} index_default" using default_safe [OF s(2)] by (simp add: safe_store_def)
  from mem_current_or_seal_ok [OF sample_lib_laws(3-5) s(2) this _ run]
  have wf: "index_wf sample_lib idx" and l: "lease_ok l idx" by (auto simp: store_inv_def)
  obtain e where e: "ent idx (ls_session_id l) = Some e" "strong_count idx (en_token e) > 1"
    using l by (auto simp: lease_ok_def strong_count_def)
  have "ent (evict_lapsed 50 idx) (ls_session_id l) = Some e"
    using evict_lapsed_exact [OF wf, of 50 "ls_session_id l" e] e by blast
  with run e show ?thesis by blast
qed

end
