(* ===== verification/SessionLog.thy ===== *)
theory SessionLog
  imports SessionMem "HOL-Library.Product_Lexorder"
begin

text \<open>
  The durable session store (\<open>JsonlSessionStore\<close> of \<open>src/aggregator/session_store.rs\<close>): records as lines
  of an append-only log, replay on open, appends whose writes may fail part-way, and compaction. The file
  is the list of its bytes. Printing and parsing of records and documents (\<open>serde_json\<close> on derived types)
  are the fields of a \<open>codec\<close>; a failing write keeps a prefix of what was to be written.
\<close>

section \<open>Records\<close>

definition RECORD_TYPE_EVIDENCE :: string where
  "RECORD_TYPE_EVIDENCE = ''evidence''"

definition RECORD_TYPE_SESSION :: string where
  "RECORD_TYPE_SESSION = ''attested_session''"

record session_log_record =
  lr_seq :: u64
  lr_ts :: u64
  record_type :: string
  lr_fingerprint :: "string option"
  lr_retention_until :: "u64 option"
  lr_content_type :: "string option"
  payload_b64 :: string

record codec =
  record_to_string :: "session_log_record \<Rightarrow> string option"
  record_from_slice :: "bytes \<Rightarrow> session_log_record option"
  document_to_vec :: "session_document \<Rightarrow> bytes option"
  document_from_slice :: "bytes \<Rightarrow> session_document option"

abbreviation newline :: char where
  "newline \<equiv> CHR 0x0A"

definition record_line :: "codec \<Rightarrow> session_log_record \<Rightarrow> store_error + string" where
  "record_line C r = and_then (ok_or InvalidData (record_to_string C r)) (\<lambda>line. Inr (line @ [newline]))"

definition evidence_record :: "'x lib_scheme \<Rightarrow> u64 \<Rightarrow> u64 \<Rightarrow> bytes \<Rightarrow> session_log_record" where
  "evidence_record L sq ts b = \<lparr>lr_seq = sq, lr_ts = ts, record_type = RECORD_TYPE_EVIDENCE, lr_fingerprint = None,
     lr_retention_until = None, lr_content_type = None, payload_b64 = b64_encode L b\<rparr>"

definition evidence_line :: "codec \<Rightarrow> 'x lib_scheme \<Rightarrow> u64 \<Rightarrow> u64 \<Rightarrow> bytes \<Rightarrow> store_error + string" where
  "evidence_line C L sq ts b = record_line C (evidence_record L sq ts b)"

definition session_record :: "'x lib_scheme \<Rightarrow> u64 \<Rightarrow> u64 \<Rightarrow> string \<Rightarrow> u64 \<Rightarrow> string \<Rightarrow> bytes \<Rightarrow> session_log_record" where
  "session_record L sq ts fp r ct doc = \<lparr>lr_seq = sq, lr_ts = ts, record_type = RECORD_TYPE_SESSION,
     lr_fingerprint = Some fp, lr_retention_until = Some r, lr_content_type = Some ct, payload_b64 = b64_encode L doc\<rparr>"

definition session_line ::
  "codec \<Rightarrow> 'x lib_scheme \<Rightarrow> u64 \<Rightarrow> u64 \<Rightarrow> string \<Rightarrow> u64 \<Rightarrow> string \<Rightarrow> session_document \<Rightarrow> store_error + string" where
  "session_line C L sq ts fp r ct stripped =
     and_then (ok_or InvalidData (document_to_vec C stripped)) (\<lambda>doc.
     record_line C (session_record L sq ts fp r ct doc))"

section \<open>Replay\<close>

definition replay_session ::
  "codec \<Rightarrow> 'x lib_scheme \<Rightarrow> session_log_record \<Rightarrow> (string \<times> bytes) list \<Rightarrow> split_session option" where
  "replay_session C L r bs =
     Option.bind (lr_content_type r) (\<lambda>ct.
     if contains_str '';base64'' ct \<or> CHR '','' \<in> set ct then None else
     Option.bind (b64_decode L (payload_b64 r)) (\<lambda>doc.
     Option.bind (document_from_slice C doc) (\<lambda>d.
     Option.bind (ev_digest (evidence d)) (\<lambda>dig.
     Option.bind (map_of bs dig) (\<lambda>b.
     Option.bind (res_ok (seal L (d\<lparr>evidence := evidence_from_bytes L ct b\<rparr>))) (\<lambda>s.
     res_ok (split_session_new L s)))))))"

record replay_state =
  rp_next_seq :: u64
  rp_index :: session_index
  rp_bundles :: "(string \<times> bytes) list"

definition replay_record :: "codec \<Rightarrow> 'x lib_scheme \<Rightarrow> u64 \<Rightarrow> session_log_record \<Rightarrow> replay_state \<Rightarrow> replay_state" where
  "replay_record C L now r st =
     (case checked_add (lr_seq r) 1 of
        None \<Rightarrow> st
      | Some seq_after \<Rightarrow>
          let st = st\<lparr>rp_next_seq := max (rp_next_seq st) seq_after\<rparr>
          in if record_type r = RECORD_TYPE_EVIDENCE then
               (case b64_decode L (payload_b64 r) of
                  None \<Rightarrow> st
                | Some b \<Rightarrow> st\<lparr>rp_bundles := AList.update (sha256_hex L b) b (rp_bundles st)\<rparr>)
             else if record_type r = RECORD_TYPE_SESSION then
               (case (lr_fingerprint r, lr_retention_until r) of
                  (Some fp, Some ret) \<Rightarrow>
                    if ret \<le> now then st
                    else (case replay_session C L r (rp_bundles st) of
                            None \<Rightarrow> st
                          | Some split \<Rightarrow> st\<lparr>rp_index := index_insert fp split ret (rp_index st)\<rparr>)
                | _ \<Rightarrow> st)
             else st)"

definition is_ascii_whitespace :: "char \<Rightarrow> bool" where
  "is_ascii_whitespace c = (c \<in> {CHR '' '', CHR 0x09, newline, CHR 0x0C, CHR 0x0D})"

definition trim_ascii :: "bytes \<Rightarrow> bytes" where
  "trim_ascii b = rev (dropWhile is_ascii_whitespace (rev (dropWhile is_ascii_whitespace b)))"

definition replay_line :: "codec \<Rightarrow> 'x lib_scheme \<Rightarrow> u64 \<Rightarrow> bytes \<Rightarrow> replay_state \<Rightarrow> replay_state" where
  "replay_line C L now buf st =
     (let trimmed = trim_ascii buf
      in if trimmed = [] then st
         else case record_from_slice C trimmed of None \<Rightarrow> st | Some r \<Rightarrow> replay_record C L now r st)"

text \<open>The loop around \<open>read_until\<close>: each buffer ends with its newline, the last one perhaps without.\<close>

function read_lines :: "bytes \<Rightarrow> bytes list" where
  "read_lines [] = []"
| "read_lines (c # cs) =
     (let n = Suc (length (takeWhile (\<lambda>x. x \<noteq> newline) (c # cs)))
      in take n (c # cs) # read_lines (drop n (c # cs)))"
  by pat_completeness auto
termination
  by (relation "measure length") auto

definition replay :: "codec \<Rightarrow> 'x lib_scheme \<Rightarrow> u64 \<Rightarrow> bytes \<Rightarrow> replay_state" where
  "replay C L now file = fold (replay_line C L now) (read_lines file)
     \<lparr>rp_next_seq = 0, rp_index = index_default, rp_bundles = []\<rparr>"

section \<open>The store\<close>

record jsonl_store =
  jl_file :: bytes
  jl_next_seq :: u64
  needs_separator :: bool
  jl_index :: session_index

definition persist_all :: "session_index \<Rightarrow> session_index" where
  "persist_all idx = idx\<lparr>bundles := map (\<lambda>(d, b). (d, b\<lparr>persisted := True\<rparr>)) (bundles idx)\<rparr>"

text \<open>\<open>locked\<close>: another process holds the lock file. \<open>file\<close>: what reading the log gives, \<open>None\<close> when there is
  no log yet.\<close>

definition jsonl_open ::
  "codec \<Rightarrow> 'x lib_scheme \<Rightarrow> bool \<Rightarrow> store_error + bytes option \<Rightarrow> u64 \<Rightarrow> store_error + jsonl_store" where
  "jsonl_open C L locked file now =
     and_then (ensure (\<not> locked) WouldBlock) (\<lambda>_.
     and_then file (\<lambda>file.
     let content = (case file of None \<Rightarrow> [] | Some b \<Rightarrow> b);
         st = replay C L now content
     in Inr \<lparr>jl_file = content, jl_next_seq = rp_next_seq st, needs_separator = False,
          jl_index = persist_all (rp_index st)\<rparr>))"

text \<open>\<open>write_all\<close>: \<open>Some n\<close> fails after \<open>n\<close> bytes.\<close>

definition write_all :: "nat option \<Rightarrow> bytes \<Rightarrow> bytes \<Rightarrow> bytes" where
  "write_all fault out file = file @ (case fault of None \<Rightarrow> out | Some n \<Rightarrow> take n out)"

definition append_text ::
  "codec \<Rightarrow> 'x lib_scheme \<Rightarrow> string \<Rightarrow> split_session \<Rightarrow> u64 \<Rightarrow> u64 \<Rightarrow> jsonl_store \<Rightarrow> store_error + (bytes \<times> u64 \<times> u64)" where
  "append_text C L fp split r now w =
     (let out = (if needs_separator w then [newline] else [])
      in and_then (if bundle_persisted (jl_index w) (sp_digest split) then Inr (out, jl_next_seq w)
           else and_then (evidence_line C L (jl_next_seq w) now (sp_bundle split)) (\<lambda>line.
             and_then (ok_or SequenceOverflow (checked_add (jl_next_seq w) 1)) (\<lambda>sq. Inr (out @ line, sq)))) (\<lambda>(out, session_seq).
         and_then (session_line C L session_seq now fp r (sp_content_type split) (sp_stripped split)) (\<lambda>line.
         and_then (ok_or SequenceOverflow (checked_add session_seq 1)) (\<lambda>sq.
         Inr (out @ line, session_seq, sq)))))"

text \<open>The append under the writer lock, in its two parts: the write to the file, and then the insertion into
  the index. Between them other threads may use the index, but not the file.\<close>

definition append_write ::
  "codec \<Rightarrow> 'x lib_scheme \<Rightarrow> nat option \<Rightarrow> string \<Rightarrow> split_session \<Rightarrow> u64 \<Rightarrow> u64 \<Rightarrow> jsonl_store
     \<Rightarrow> jsonl_store \<times> (store_error + u64)" where
  "append_write C L fault fp split retention now w =
     (case append_text C L fp split retention now w of
        Inl e \<Rightarrow> (w, Inl e)
      | Inr (out, session_seq, sq) \<Rightarrow>
          let w = w\<lparr>jl_file := write_all fault out (jl_file w)\<rparr>
          in if fault \<noteq> None then (w\<lparr>needs_separator := True\<rparr>, Inl WriteFailed)
             else (w\<lparr>jl_next_seq := sq, needs_separator := False\<rparr>, Inr session_seq))"

definition append_commit ::
  "string \<Rightarrow> split_session \<Rightarrow> u64 \<Rightarrow> u64 \<Rightarrow> jsonl_store \<Rightarrow> jsonl_store \<times> (store_error + session_lease)" where
  "append_commit fp split retention now w =
     (let idx = mark_persisted (sp_digest split) (index_insert fp split retention (jl_index w))
      in case take_lease (sp_session_id split) idx of
           Inl e \<Rightarrow> (w\<lparr>jl_index := idx\<rparr>, Inl e)
         | Inr (idx, lease) \<Rightarrow> (w\<lparr>jl_index := evict_lapsed now idx\<rparr>, Inr lease))"

definition jsonl_append ::
  "codec \<Rightarrow> 'x lib_scheme \<Rightarrow> nat option \<Rightarrow> string \<Rightarrow> split_session \<Rightarrow> u64 \<Rightarrow> u64 \<Rightarrow> jsonl_store
     \<Rightarrow> jsonl_store \<times> (store_error + (u64 \<times> session_lease))" where
  "jsonl_append C L fault fp split retention now w =
     (let retention = max retention (expires_at (sp_stripped split))
      in case append_write C L fault fp split retention now w of
           (w, Inl e) \<Rightarrow> (w, Inl e)
         | (w, Inr session_seq) \<Rightarrow>
             (case append_commit fp split retention now w of
                (w, Inl e) \<Rightarrow> (w, Inl e)
              | (w, Inr lease) \<Rightarrow> (w, Inr (session_seq, lease))))"

text \<open>\<open>sealed\<close> is the result of the caller's closure. The index is looked up twice, the second time under the
  writer lock.\<close>

definition jsonl_current_or_seal ::
  "codec \<Rightarrow> 'x lib_scheme \<Rightarrow> nat option \<Rightarrow> string \<Rightarrow> u64 \<Rightarrow> u64 \<Rightarrow> store_error + attested_session \<Rightarrow> jsonl_store
     \<Rightarrow> jsonl_store \<times> (store_error + session_lease)" where
  "jsonl_current_or_seal C L fault fp retention now sealed w =
     (case current fp retention now (jl_index w) of
        Inl e \<Rightarrow> (w\<lparr>jl_index := evict_lapsed now (jl_index w)\<rparr>, Inl e)
      | Inr (idx, Some lease) \<Rightarrow> (w\<lparr>jl_index := idx\<rparr>, Inr lease)
      | Inr (idx, None) \<Rightarrow>
          let w = w\<lparr>jl_index := idx\<rparr>
          in case current fp retention now (jl_index w) of
               Inl e \<Rightarrow> (w\<lparr>jl_index := evict_lapsed now (jl_index w)\<rparr>, Inl e)
             | Inr (idx, Some lease) \<Rightarrow> (w\<lparr>jl_index := idx\<rparr>, Inr lease)
             | Inr (idx, None) \<Rightarrow>
                 let w = w\<lparr>jl_index := idx\<rparr>
                 in case and_then sealed (split_session_new L) of
                      Inl e \<Rightarrow> (w, Inl e)
                    | Inr split \<Rightarrow>
                        (case jsonl_append C L fault fp split retention now w of
                           (w, Inl e) \<Rightarrow> (w, Inl e)
                         | (w, Inr (_, lease)) \<Rightarrow> (w, Inr lease)))"

definition jsonl_get_session where
  "jsonl_get_session L sid now w =
     (let (idx, s) = index_get L sid now (jl_index w) in (w\<lparr>jl_index := idx\<rparr>, s))"

definition jsonl_extend_retention :: "session_lease \<Rightarrow> u64 \<Rightarrow> jsonl_store \<Rightarrow> jsonl_store \<times> (store_error + unit)" where
  "jsonl_extend_retention lease deadline w =
     (case SessionIndex.extend lease deadline (jl_index w) of Inl e \<Rightarrow> (w, Inl e) | Inr idx \<Rightarrow> (w\<lparr>jl_index := idx\<rparr>, Inr ()))"

section \<open>Compaction\<close>

definition sessions_oldest_first :: "session_index \<Rightarrow> (string \<times> session_entry) list" where
  "sessions_oldest_first idx = sort_key (\<lambda>(sid, e). (established_at (en_stripped e), sid)) (by_id idx)"

definition compact_lines :: "codec \<Rightarrow> 'x lib_scheme \<Rightarrow> u64 \<Rightarrow> session_index \<Rightarrow> store_error + string list" where
  "compact_lines C L now idx =
     and_then (try_map (\<lambda>(n, _, b). evidence_line C L (of_nat n) now (bu_bytes b)) (enumerate 0 (bundles idx))) (\<lambda>evs.
     and_then (try_map (\<lambda>(n, _, e). session_line C L (of_nat n) now (en_fingerprint e) (retention_until e)
         (en_content_type e) (en_stripped e)) (enumerate (length evs) (sessions_oldest_first idx))) (\<lambda>sess.
     Inr (evs @ sess)))"

text \<open>\<open>fault\<close>: creating, writing, syncing or reopening the temporary file, or the rename, fails; the log is
  then as it was.\<close>

definition jsonl_compact ::
  "codec \<Rightarrow> 'x lib_scheme \<Rightarrow> store_error option \<Rightarrow> u64 \<Rightarrow> jsonl_store \<Rightarrow> jsonl_store \<times> (store_error + nat)" where
  "jsonl_compact C L fault now w =
     (let idx = evict_lapsed now (jl_index w);
          w = w\<lparr>jl_index := idx\<rparr>
      in case compact_lines C L now idx of
           Inl e \<Rightarrow> (w, Inl e)
         | Inr lines \<Rightarrow>
             (case fault of
                Some e \<Rightarrow> (w, Inl e)
              | None \<Rightarrow> (w\<lparr>jl_file := concat lines, jl_index := persist_all idx, jl_next_seq := of_nat (length lines),
                  needs_separator := False\<rparr>, Inr (length (by_id idx)))))"

definition sort_sessions_newest_first :: "attested_session list \<Rightarrow> attested_session list" where
  "sort_sessions_newest_first ss = sort_key (\<lambda>s. (- 1 - established_at (document s), session_id s)) ss"

end
