(* ===== verification/SessionDurable.thy ===== *)
theory SessionDurable
  imports SessionLog
begin

text \<open>
  What the durable session store promises: replaying any log gives a consistent index, and a session whose
  append was acknowledged is still served after any number of later operations, failed writes and
  compactions followed by a crash and a restart. The steps of the store are taken at the granularity of its
  locks, so that other threads may use the index between the write and the insertion of an append.
\<close>

section \<open>Lines and records\<close>

definition line_record :: "codec \<Rightarrow> bytes \<Rightarrow> session_log_record option" where
  "line_record C buf = (let t = trim_ascii buf in if t = [] then None else record_from_slice C t)"

definition log_records :: "codec \<Rightarrow> bytes \<Rightarrow> session_log_record list" where
  "log_records C file = List.map_filter (line_record C) (read_lines file)"

declare read_lines.simps(2) [simp del]

lemma read_lines_line:
  assumes "newline \<notin> set l"
  shows "read_lines (l @ newline # rest) = (l @ [newline]) # read_lines rest"
proof (cases "l @ newline # rest")
  case (Cons c cs)
  have "takeWhile (\<lambda>x. x \<noteq> newline) (l @ newline # rest) = l" using assms by (subst takeWhile_append2) auto
  then show ?thesis unfolding Cons [symmetric] read_lines.simps(2) [of c cs, unfolded Cons [symmetric]] Let_def by simp
qed simp

lemma read_lines_last:
  assumes "newline \<notin> set l" and "l \<noteq> []"
  shows "read_lines l = [l]"
proof -
  obtain c cs where l: "l = c # cs" using assms(2) by (cases l) auto
  have "takeWhile (\<lambda>x. x \<noteq> newline) l = l" using assms(1) by (auto simp: takeWhile_eq_all_conv)
  then show ?thesis unfolding l read_lines.simps(2) Let_def by simp
qed

lemma trim_ascii_newline: "trim_ascii (l @ [newline]) = trim_ascii l"
proof (cases "\<forall>x \<in> set l. is_ascii_whitespace x")
  case True
  then have "dropWhile is_ascii_whitespace l = []" by simp
  moreover have "dropWhile is_ascii_whitespace (l @ [newline]) = []"
    unfolding dropWhile_eq_Nil_conv using True by (simp add: is_ascii_whitespace_def)
  ultimately show ?thesis unfolding trim_ascii_def by (simp only: rev.simps dropWhile.simps)
next
  case False
  then have "dropWhile is_ascii_whitespace (l @ [newline]) = dropWhile is_ascii_whitespace l @ [newline]"
    by (auto simp: dropWhile_append)
  then show ?thesis by (simp add: trim_ascii_def is_ascii_whitespace_def)
qed

lemma line_record_newline [simp]: "line_record C (l @ [newline]) = line_record C l"
  by (simp add: line_record_def trim_ascii_newline)

lemma line_record_empty [simp]: "line_record C [] = None"
  by (simp add: line_record_def trim_ascii_def)

lemma map_filter_Cons: "List.map_filter f (x # xs) = (case f x of None \<Rightarrow> [] | Some y \<Rightarrow> [y]) @ List.map_filter f xs"
  by (simp add: map_filter_simps split: option.split)

text \<open>A newline separates: what follows it is read as if it began the file.\<close>

lemma log_records_sep: "log_records C (a @ newline # b) = log_records C a @ log_records C b"
proof (induction a rule: length_induct)
  case (1 a)
  show ?case
  proof (cases "newline \<in> set a")
    case True
    then obtain l r where a: "a = l @ newline # r" "newline \<notin> set l" by (meson split_list_first)
    have "log_records C (r @ newline # b) = log_records C r @ log_records C b" using 1 a(1) by simp
    then show ?thesis using a by (simp add: log_records_def read_lines_line map_filter_Cons split: option.split)
  next
    case False
    have head: "log_records C a = (case line_record C a of None \<Rightarrow> [] | Some y \<Rightarrow> [y])"
      using read_lines_last [OF False] by (cases "a = []") (simp_all add: log_records_def map_filter_simps split: option.split)
    show ?thesis unfolding head using False by (simp add: log_records_def read_lines_line map_filter_Cons split: option.split)
  qed
qed

lemma log_records_Nil [simp]: "log_records C [] = []"
  by (simp add: log_records_def map_filter_simps)

lemma log_records_end: "log_records C (a @ [newline]) = log_records C a"
  using log_records_sep [of C a "[]"] by simp

definition ends_line :: "bytes \<Rightarrow> bool" where
  "ends_line file = (file = [] \<or> last file = newline)"

lemma log_records_append:
  assumes "ends_line a"
  shows "log_records C (a @ b) = log_records C a @ log_records C b"
proof (cases "a = []")
  case False
  then obtain a' where "a = a' @ [newline]" using assms by (metis append_butlast_last_id ends_line_def)
  then show ?thesis using log_records_sep [of C a' b] by (simp add: log_records_end)
qed simp

lemma replay_records:
  "replay C L now file = fold (replay_record C L now) (log_records C file)
     \<lparr>rp_next_seq = 0, rp_index = index_default, rp_bundles = []\<rparr>"
proof -
  have "fold (replay_line C L now) ls st = fold (replay_record C L now) (List.map_filter (line_record C) ls) st" for ls st
    by (induction ls arbitrary: st)
      (auto simp: map_filter_simps replay_line_def line_record_def Let_def split: option.split)
  then show ?thesis by (simp add: replay_def log_records_def)
qed

section \<open>Replaying any log\<close>

text \<open>The sessions a list of records can rebuild, and the bundles it holds; a log is safe when these are well
  formed and no two of them collide.\<close>

definition record_bundles :: "'x lib_scheme \<Rightarrow> session_log_record set \<Rightarrow> bytes set" where
  "record_bundles L R = {b. \<exists>r \<in> R. b64_decode L (payload_b64 r) = Some b}"

definition plain_content_type :: "string \<Rightarrow> bool" where
  "plain_content_type ct = (\<not> contains_str '';base64'' ct \<and> CHR '','' \<notin> set ct)"

definition record_sessions :: "codec \<Rightarrow> 'x lib_scheme \<Rightarrow> session_log_record set \<Rightarrow> attested_session set" where
  "record_sessions C L R = {s. \<exists>r \<in> R. \<exists>ct doc d b. lr_content_type r = Some ct \<and> plain_content_type ct \<and> b64_decode L (payload_b64 r) = Some doc \<and>
     document_from_slice C doc = Some d \<and> b \<in> record_bundles L R \<and> ev_digest (evidence d) = Some (sha256_hex L b) \<and>
     seal L (d\<lparr>evidence := evidence_from_bytes L ct b\<rparr>) = Inr s}"

definition log_safe :: "codec \<Rightarrow> 'x lib_scheme \<Rightarrow> session_log_record set \<Rightarrow> bool" where
  "log_safe C L R = (hex_ok L \<and> b64_ok L \<and> to_vec_inj L \<and> sealed_set L (record_sessions C L R) \<and>
     (\<forall>b \<in> record_bundles L R. \<forall>c \<in> record_bundles L R. \<not> collision (sha256 L) b c))"

lemma replay_session_Some:
  assumes "replay_session C L r bs = Some split"
  obtains ct doc d b s where "lr_content_type r = Some ct" "plain_content_type ct" "b64_decode L (payload_b64 r) = Some doc"
    "document_from_slice C doc = Some d"
    "Option.bind (ev_digest (evidence d)) (map_of bs) = Some b"
    "seal L (d\<lparr>evidence := evidence_from_bytes L ct b\<rparr>) = Inr s" "split_session_new L s = Inr split"
  using assms by (auto simp: replay_session_def plain_content_type_def bind_eq_Some_conv result_iffs split: if_splits)

definition replay_inv :: "codec \<Rightarrow> 'x lib_scheme \<Rightarrow> u64 \<Rightarrow> session_log_record set \<Rightarrow> replay_state \<Rightarrow> bool" where
  "replay_inv C L now R st = (store_inv L (record_sessions C L R) (rp_index st) \<and>
     (\<forall>d b. map_of (rp_bundles st) d = Some b \<longrightarrow> b \<in> record_bundles L R \<and> sha256_hex L b = d) \<and>
     (\<forall>sid d. deadline_of (rp_index st) sid = Some d \<longrightarrow> now < d))"

lemma insert_deadline:
  "deadline_of (index_insert fp split r idx) sid = Some d \<Longrightarrow>
    r \<le> d \<and> sid = sp_session_id split \<or> deadline_of idx sid = Some d"
  by (auto simp: deadline_of_def index_insert_frame inserted_entry_def le_max_iff_disj split: if_splits option.splits)

lemma replay_record_cases:
  fixes L :: "'x lib_scheme" and st :: replay_state
  assumes "checked_add (lr_seq r) 1 = Some sq"
  defines "st1 \<equiv> st\<lparr>rp_next_seq := max (rp_next_seq st) sq\<rparr>"
  obtains (ev) b where "record_type r = RECORD_TYPE_EVIDENCE" "b64_decode L (payload_b64 r) = Some b"
      "replay_record C L now r st = st1\<lparr>rp_bundles := AList.update (sha256_hex L b) b (rp_bundles st)\<rparr>"
  | (se) fp ret split where "now < ret" "replay_session C L r (rp_bundles st) = Some split"
      "replay_record C L now r st = st1\<lparr>rp_index := index_insert fp split ret (rp_index st)\<rparr>"
  | (skip) "replay_record C L now r st = st1"
proof -
  have body: "replay_record C L now r st = (if record_type r = RECORD_TYPE_EVIDENCE then
       (case b64_decode L (payload_b64 r) of None \<Rightarrow> st1
        | Some b \<Rightarrow> st1\<lparr>rp_bundles := AList.update (sha256_hex L b) b (rp_bundles st)\<rparr>)
     else if record_type r = RECORD_TYPE_SESSION then
       (case (lr_fingerprint r, lr_retention_until r) of
          (Some fp, Some ret) \<Rightarrow> if ret \<le> now then st1
            else (case replay_session C L r (rp_bundles st) of None \<Rightarrow> st1
                  | Some split \<Rightarrow> st1\<lparr>rp_index := index_insert fp split ret (rp_index st)\<rparr>)
        | _ \<Rightarrow> st1)
     else st1)" using assms(1) by (auto simp: replay_record_def st1_def Let_def split: option.split)
  show ?thesis
  proof (cases "record_type r = RECORD_TYPE_EVIDENCE")
    case True
    then show ?thesis using ev skip body by (cases "b64_decode L (payload_b64 r)") auto
  next
    case False
    show ?thesis
    proof (cases "lr_fingerprint r")
      case None
      then show ?thesis using False body skip by (auto split: if_splits)
    next
      case (Some fp)
      note fp = this
      show ?thesis
      proof (cases "lr_retention_until r")
        case None
        then show ?thesis using False body skip fp by (auto split: if_splits)
      next
        case (Some ret)
        then show ?thesis using False fp body skip se [of ret]
          by (cases "replay_session C L r (rp_bundles st)") (auto simp: not_le split: if_splits)
      qed
    qed
  qed
qed

lemma replay_record_inv:
  assumes safe: "log_safe C L R" and r: "r \<in> R" and inv: "replay_inv C L now R st"
  shows "replay_inv C L now R (replay_record C L now r st)"
proof (cases "checked_add (lr_seq r) 1")
  case (Some sq)
  let ?st = "st\<lparr>rp_next_seq := max (rp_next_seq st) sq\<rparr>"
  have inv': "replay_inv C L now R ?st" using inv by (simp add: replay_inv_def)
  show ?thesis
  using Some
  proof (cases rule: replay_record_cases [where st = st and C = C and L = L and now = now])
    case (ev b)
    then have "b \<in> record_bundles L R" using r by (auto simp: record_bundles_def)
    then show ?thesis using inv' ev(3) by (simp add: replay_inv_def)
  next
    case (se fp ret split)
    obtain ct doc d b s where ct: "plain_content_type ct" and s: "lr_content_type r = Some ct" "b64_decode L (payload_b64 r) = Some doc"
      "document_from_slice C doc = Some d" "Option.bind (ev_digest (evidence d)) (map_of (rp_bundles st)) = Some b"
      "seal L (d\<lparr>evidence := evidence_from_bytes L ct b\<rparr>) = Inr s" "split_session_new L s = Inr split"
      by (rule replay_session_Some [OF se(2)])
    have b: "b \<in> record_bundles L R" "ev_digest (evidence d) = Some (sha256_hex L b)"
      using s(4) inv by (auto simp: replay_inv_def bind_eq_Some_conv)
    have mem: "s \<in> record_sessions C L R"
      using s b r ct unfolding record_sessions_def by blast
    have "store_inv L (record_sessions C L R) (index_insert fp split ret (rp_index st))"
      using insert_store_inv(1) [OF _ _ _ _ mem _ s(6)] safe inv by (simp add: log_safe_def replay_inv_def)
    moreover have "now < d" if "deadline_of (index_insert fp split ret (rp_index st)) sid = Some d" for sid d
      using insert_deadline [OF that] se(1) inv less_le_trans unfolding replay_inv_def by blast
    ultimately show ?thesis using inv' se(3) by (simp add: replay_inv_def)
  next
    case skip
    then show ?thesis using inv' by simp
  qed
qed (simp add: replay_record_def inv)

lemma fold_keeps: "P a \<Longrightarrow> (\<And>x a. x \<in> set xs \<Longrightarrow> P a \<Longrightarrow> P (f x a)) \<Longrightarrow> P (fold f xs a)"
  by (induction xs arbitrary: a) simp_all

abbreviation replay_start :: replay_state where
  "replay_start \<equiv> \<lparr>rp_next_seq = 0, rp_index = index_default, rp_bundles = []\<rparr>"

lemma replay_start_inv: "replay_inv C L now R replay_start"
  using index_default_wf [of L]
  by (simp add: replay_inv_def store_inv_def entries_from_def bundles_sat_def deadline_of_def index_default_def)

lemma replay_records_inv:
  assumes "log_safe C L R" and "set rs \<subseteq> R" and "replay_inv C L now R st"
  shows "replay_inv C L now R (fold (replay_record C L now) rs st)"
  by (rule fold_keeps [where P = "replay_inv C L now R", OF assms(3)])
    (use assms(2) replay_record_inv [OF assms(1)] in blast)

section \<open>What a log promises\<close>

text \<open>Records that hold a bundle, and a session with its retention; and a log in which a session's record
  follows the record of its bundle.\<close>

definition evidence_in :: "'x lib_scheme \<Rightarrow> session_log_record \<Rightarrow> bytes \<Rightarrow> bool" where
  "evidence_in L r b = (record_type r = RECORD_TYPE_EVIDENCE \<and> b64_decode L (payload_b64 r) = Some b \<and>
     checked_add (lr_seq r) 1 \<noteq> None)"

definition session_in :: "codec \<Rightarrow> 'x lib_scheme \<Rightarrow> session_log_record \<Rightarrow> attested_session \<Rightarrow> bytes \<Rightarrow> u64 \<Rightarrow> bool" where
  "session_in C L r s b ret = (record_type r = RECORD_TYPE_SESSION \<and> checked_add (lr_seq r) 1 \<noteq> None \<and>
     lr_fingerprint r \<noteq> None \<and> lr_retention_until r = Some ret \<and>
     (\<exists>ct doc d. lr_content_type r = Some ct \<and> plain_content_type ct \<and> b64_decode L (payload_b64 r) = Some doc \<and>
        document_from_slice C doc = Some d \<and> ev_digest (evidence d) = Some (sha256_hex L b) \<and>
        d\<lparr>evidence := evidence_from_bytes L ct b\<rparr> = document s \<and> bundle_of L s = Some (ct, b)))"

definition logged :: "codec \<Rightarrow> 'x lib_scheme \<Rightarrow> session_log_record list \<Rightarrow> attested_session \<Rightarrow> u64 \<Rightarrow> bool" where
  "logged C L rs s ret = (\<exists>pre ev mid se post b. rs = pre @ ev # mid @ se # post \<and> evidence_in L ev b \<and> session_in C L se s b ret
     \<and> seal L (document s) = Inr s)"

lemma logged_append: "logged C L rs s ret \<Longrightarrow> logged C L (rs @ rest) s ret"
proof -
  assume "logged C L rs s ret"
  then obtain pre ev mid se post b where x: "rs = pre @ ev # mid @ se # post" "evidence_in L ev b" "session_in C L se s b ret"
    "seal L (document s) = Inr s" unfolding logged_def by blast
  show ?thesis unfolding logged_def
    by (rule exI [of _ pre], rule exI [of _ ev], rule exI [of _ mid], rule exI [of _ se],
      rule exI [of _ "post @ rest"], rule exI [of _ b]) (use x in simp)
qed

lemma loggedI:
  assumes "ev \<in> set pre" and "evidence_in L ev b" and "session_in C L se s b ret" and "seal L (document s) = Inr s"
  shows "logged C L (pre @ se # post) s ret"
proof -
  obtain p q where x: "pre = p @ ev # q" using assms(1) by (meson split_list)
  show ?thesis unfolding logged_def
    by (rule exI [of _ p], rule exI [of _ ev], rule exI [of _ q], rule exI [of _ se], rule exI [of _ post], rule exI [of _ b])
      (use x assms(2-4) in simp)
qed

lemma logged_evidence:
  assumes "logged C L rs s ret"
  shows "\<exists>ev \<in> set rs. \<exists>b. evidence_in L ev b \<and> (\<exists>ct. bundle_of L s = Some (ct, b))"
proof -
  obtain pre ev mid se post b where x: "rs = pre @ ev # mid @ se # post" "evidence_in L ev b" "session_in C L se s b ret"
    using assms unfolding logged_def by blast
  then have "\<exists>ct. bundle_of L s = Some (ct, b)" unfolding session_in_def by blast
  then show ?thesis using x(2) by (auto simp: x(1))
qed

lemma replay_bundle_kept:
  assumes "map_of (rp_bundles st) d = Some b"
  shows "\<exists>c. map_of (rp_bundles (fold (replay_record C L now) rs st)) d = Some c"
proof -
  let ?P = "\<lambda>st. \<exists>c. map_of (rp_bundles st) d = Some c"
  have "?P (replay_record C L now r st)" if "?P st" for r st
  proof (cases "checked_add (lr_seq r) 1")
    case None
    then show ?thesis using that by (simp add: replay_record_def)
  next
    case (Some sq)
    then show ?thesis
      by (cases rule: replay_record_cases [where st = st and C = C and L = L and now = now]) (use that in auto)
  qed
  then show ?thesis using fold_keeps [where P = ?P and a = st and xs = rs and f = "replay_record C L now"] assms by simp
qed

lemma insert_promised:
  "promised idx sid d \<Longrightarrow> promised (index_insert fp split r idx) sid d"
  "d \<le> r \<Longrightarrow> promised (index_insert fp split r idx) (sp_session_id split) d"
  by (auto simp: promised_def deadline_of_def index_insert_frame inserted_entry_def le_max_iff_disj
      split: option.splits)

lemma replay_promise_kept:
  "promised (rp_index st) sid d \<Longrightarrow> promised (rp_index (fold (replay_record C L now) rs st)) sid d"
proof -
  let ?P = "\<lambda>st. promised (rp_index st) sid d"
  have "?P (replay_record C L now r st)" if "?P st" for r st
  proof (cases "checked_add (lr_seq r) 1")
    case None
    then show ?thesis using that by (simp add: replay_record_def)
  next
    case (Some sq)
    then show ?thesis
      by (cases rule: replay_record_cases [where st = st and C = C and L = L and now = now])
        (use that insert_promised(1) in auto)
  qed
  then show "?P st \<Longrightarrow> ?P (fold (replay_record C L now) rs st)" by (rule fold_keeps [where P = ?P, rotated])
qed

text \<open>A logged session is in the replayed index, for at least as long as its record says.\<close>

lemma replay_logged:
  assumes safe: "log_safe C L (set rs)" and log: "logged C L rs s ret" and now: "now < ret"
  shows "promised (rp_index (fold (replay_record C L now) rs replay_start)) (session_id s) ret
    \<and> s \<in> record_sessions C L (set rs)"
proof -
  let ?f = "fold (replay_record C L now)"
  obtain pre ev mid se post b where rs: "rs = pre @ ev # mid @ se # post" and ev: "evidence_in L ev b"
    and se: "session_in C L se s b ret" and sealed: "seal L (document s) = Inr s"
    using log unfolding logged_def by blast
  obtain ct doc d where d: "lr_content_type se = Some ct" "plain_content_type ct" "b64_decode L (payload_b64 se) = Some doc"
    "document_from_slice C doc = Some d" "ev_digest (evidence d) = Some (sha256_hex L b)"
    "d\<lparr>evidence := evidence_from_bytes L ct b\<rparr> = document s" "bundle_of L s = Some (ct, b)"
    using se unfolding session_in_def by blast
  have b: "b \<in> record_bundles L (set rs)" using ev rs by (auto simp: evidence_in_def record_bundles_def)
  have se_mem: "se \<in> set rs" using rs by simp
  have mem: "s \<in> record_sessions C L (set rs)"
    unfolding record_sessions_def
    by (rule CollectI, rule bexI [OF _ se_mem], rule exI [of _ ct], rule exI [of _ doc], rule exI [of _ d], rule exI [of _ b])
      (use d b sealed in simp)
  define s1 where "s1 = ?f (pre @ [ev]) replay_start"
  define s2 where "s2 = ?f mid s1"
  have inv2: "replay_inv C L now (set rs) s2"
    using replay_records_inv [OF safe _ replay_start_inv, of "pre @ ev # mid" now] rs by (auto simp: s1_def s2_def)
  have "map_of (rp_bundles s1) (sha256_hex L b) = Some b"
    using ev by (auto simp: s1_def evidence_in_def replay_record_def Let_def)
  then obtain c where c: "map_of (rp_bundles s2) (sha256_hex L b) = Some c"
    using replay_bundle_kept unfolding s2_def by blast
  then have "c \<in> record_bundles L (set rs)" "sha256_hex L c = sha256_hex L b" using inv2 by (auto simp: replay_inv_def)
  then have "c = b" using safe b by (auto simp: log_safe_def sha256_hex_def hex_ok_inj collision_def)
  then have bnd: "map_of (rp_bundles s2) (sha256_hex L b) = Some b" using c by simp
  obtain split where split: "split_session_new L s = Inr split" "sp_session_id split = session_id s"
    using d(7) evidence_decode_digest [of L "evidence (document s)" ct b]
    by (simp add: split_session_new_def bundle_of_def Let_def)
  have "replay_session C L se (rp_bundles s2) = Some split"
    using d bnd sealed split(1) by (simp add: replay_session_def plain_content_type_def)
  moreover obtain fp sq where "lr_fingerprint se = Some fp" "checked_add (lr_seq se) 1 = Some sq"
    "lr_retention_until se = Some ret" "record_type se = RECORD_TYPE_SESSION"
    using se by (auto simp: session_in_def)
  moreover have "\<not> ret \<le> now" using now by simp
  moreover have "RECORD_TYPE_SESSION \<noteq> RECORD_TYPE_EVIDENCE" by (simp add: RECORD_TYPE_EVIDENCE_def RECORD_TYPE_SESSION_def)
  ultimately have "rp_index (replay_record C L now se s2) = index_insert fp split ret (rp_index s2)"
    by (simp add: replay_record_def Let_def)
  then have kept: "promised (rp_index (replay_record C L now se s2)) (session_id s) ret"
    using insert_promised(2) [of ret ret fp split "rp_index s2"] split(2) by simp
  have "?f rs replay_start = ?f post (replay_record C L now se s2)"
    by (simp add: rs s1_def s2_def)
  then show ?thesis using replay_promise_kept [OF kept] mem by simp
qed

section \<open>Writing records\<close>

text \<open>What the log relies on of \<open>serde_json\<close>: a printed record is one line that parses back, and so does the
  document of a sealed session whatever its evidence member.\<close>

definition codec_ok :: "codec \<Rightarrow> attested_session set \<Rightarrow> bool" where
  "codec_ok C S = ((\<forall>r. \<exists>t. record_to_string C r = Some t \<and> t \<noteq> [] \<and> newline \<notin> set t \<and> trim_ascii t = t \<and> record_from_slice C t = Some r) \<and>
     (\<forall>d. \<forall>s \<in> S. d\<lparr>evidence := evidence (document s)\<rparr> = document s \<longrightarrow>
        (\<exists>b. document_to_vec C d = Some b \<and> document_from_slice C b = Some d)))"

lemma record_line_ok:
  assumes "codec_ok C S"
  obtains t where "record_line C r = Inr (t @ [newline])" "log_records C (t @ [newline]) = [r]"
proof -
  obtain t where t: "record_to_string C r = Some t" "t \<noteq> []" "newline \<notin> set t" "trim_ascii t = t" "record_from_slice C t = Some r"
    using assms unfolding codec_ok_def by blast
  have "log_records C (t @ [newline]) = [r]"
    unfolding log_records_end using t read_lines_last [OF t(3,2)]
    by (simp add: log_records_def map_filter_simps line_record_def)
  then show ?thesis using t(1) by (intro that) (simp_all add: record_line_def)
qed

lemma log_records_line:
  "ends_line a \<Longrightarrow> log_records C (t @ [newline]) = rs \<Longrightarrow>
    log_records C (a @ t @ [newline]) = log_records C a @ rs \<and> ends_line (a @ t @ [newline])"
  using log_records_append [of a C "t @ [newline]"] by (simp add: ends_line_def)

definition appended :: "codec \<Rightarrow> 'x lib_scheme \<Rightarrow> string \<Rightarrow> split_session \<Rightarrow> u64 \<Rightarrow> u64 \<Rightarrow> jsonl_store \<Rightarrow> session_log_record list \<Rightarrow> bool" where
  "appended C L fp split r now w rs = (\<exists>sq doc. checked_add sq 1 \<noteq> None \<and> document_to_vec C (sp_stripped split) = Some doc \<and>
     (if bundle_persisted (jl_index w) (sp_digest split) then rs = [session_record L sq now fp r (sp_content_type split) doc]
      else checked_add (jl_next_seq w) 1 = Some sq \<and>
        rs = [evidence_record L (jl_next_seq w) now (sp_bundle split), session_record L sq now fp r (sp_content_type split) doc]))"

lemma append_text_records:
  assumes C: "codec_ok C S" and run: "append_text C L fp split r now w = Inr (out, sseq, sq)"
    and closed: "ends_line (jl_file w) \<or> needs_separator w"
  obtains body rs where "out = (if needs_separator w then newline # body else body)"
    "appended C L fp split r now w rs" "log_records C (jl_file w @ out) = log_records C (jl_file w) @ rs"
    "ends_line (jl_file w @ out)"
proof -
  let ?ev = "evidence_record L (jl_next_seq w) now (sp_bundle split)"
  obtain doc where doc: "document_to_vec C (sp_stripped split) = Some doc"
    using run by (auto simp: append_text_def session_line_def result_iffs Let_def)
  let ?se = "session_record L sseq now fp r (sp_content_type split) doc"
  obtain e where e: "record_line C ?ev = Inr (e @ [newline])" "log_records C (e @ [newline]) = [?ev]"
    by (rule record_line_ok [OF C])
  obtain t where t: "record_line C ?se = Inr (t @ [newline])" "log_records C (t @ [newline]) = [?se]"
    by (rule record_line_ok [OF C])
  define mid where "mid = (if bundle_persisted (jl_index w) (sp_digest split) then [] else e @ [newline])"
  define recs where "recs = (if bundle_persisted (jl_index w) (sp_digest split) then [] else [?ev])"
  let ?body = "mid @ t @ [newline]"
  have out: "out = (if needs_separator w then newline # ?body else ?body)"
    and seqs: "checked_add sseq 1 \<noteq> None"
      "\<not> bundle_persisted (jl_index w) (sp_digest split) \<Longrightarrow> checked_add (jl_next_seq w) 1 = Some sseq"
    using run e(1) t(1) doc
    by (auto simp: append_text_def evidence_line_def session_line_def result_iffs Let_def mid_def split: if_splits)
  have body: "log_records C (a @ ?body) = log_records C a @ recs @ [?se] \<and> ends_line (a @ ?body)" if "ends_line a" for a
  proof (cases "bundle_persisted (jl_index w) (sp_digest split)")
    case True
    then show ?thesis using log_records_line [OF that t(2)] by (simp add: mid_def recs_def)
  next
    case False
    note ev = log_records_line [OF that e(2)]
    show ?thesis using False ev log_records_line [OF ev [THEN conjunct2] t(2)] by (simp add: mid_def recs_def)
  qed
  have "log_records C (jl_file w @ out) = log_records C (jl_file w) @ recs @ [?se] \<and> ends_line (jl_file w @ out)"
  proof (cases "needs_separator w")
    case True
    then show ?thesis
      using body [of "jl_file w @ [newline]"] log_records_end [of C "jl_file w"] out by (simp add: ends_line_def)
  qed (use body closed out in simp)
  moreover have "appended C L fp split r now w (recs @ [?se])"
    using seqs doc by (auto simp: appended_def recs_def)
  ultimately show ?thesis using out by (intro that [of ?body "recs @ [?se]"]) simp_all
qed

text \<open>A write that fails part-way leaves every earlier record in place.\<close>

lemma partial_write_records:
  assumes "out = (if needs_separator w then newline # body else body)" and "ends_line (jl_file w) \<or> needs_separator w"
  shows "\<exists>junk. log_records C (jl_file w @ take n out) = log_records C (jl_file w) @ junk"
proof (cases "needs_separator w")
  case True
  then show ?thesis using assms(1) log_records_sep [of C "jl_file w" "take (n - 1) body"]
    by (cases n) auto
next
  case False
  then show ?thesis using assms log_records_append [of "jl_file w" C "take n out"] by auto
qed

section \<open>The store, step by step\<close>

text \<open>A configuration is the store and, while a thread holds the writer lock between the write and the
  insertion of an append, what it is about to insert.\<close>

record jsonl_conf =
  cf_store :: jsonl_store
  cf_pending :: "(string \<times> split_session \<times> u64 \<times> u64) option"

datatype jsonl_op =
    JLookup string u64 u64
  | JSeal "nat option" string u64 u64 "store_error + attested_session"
  | JCommit u64
  | JGet string u64
  | JExtend session_lease u64
  | JClone session_lease
  | JDrop session_lease
  | JCompact "store_error option" u64

definition on_index :: "(session_index \<Rightarrow> session_index) \<Rightarrow> jsonl_conf \<Rightarrow> jsonl_conf" where
  "on_index f c = c\<lparr>cf_store := (cf_store c)\<lparr>jl_index := f (jl_index (cf_store c))\<rparr>\<rparr>"

definition lookup_index :: "string \<Rightarrow> u64 \<Rightarrow> u64 \<Rightarrow> session_index \<Rightarrow> session_index" where
  "lookup_index fp r now idx = (case current fp r now idx of Inl _ \<Rightarrow> evict_lapsed now idx | Inr (idx', _) \<Rightarrow> idx')"

definition seal_write ::
  "codec \<Rightarrow> 'x lib_scheme \<Rightarrow> nat option \<Rightarrow> string \<Rightarrow> u64 \<Rightarrow> u64 \<Rightarrow> store_error + attested_session \<Rightarrow> jsonl_conf \<Rightarrow> jsonl_conf" where
  "seal_write C L fault fp r now sealed c =
     (let w = (cf_store c)\<lparr>jl_index := lookup_index fp r now (jl_index (cf_store c))\<rparr>
      in case current fp r now (jl_index (cf_store c)) of
           Inr (_, None) \<Rightarrow>
             (case and_then sealed (split_session_new L) of
                Inl _ \<Rightarrow> c\<lparr>cf_store := w\<rparr>
              | Inr split \<Rightarrow>
                  let r = max r (expires_at (sp_stripped split))
                  in case append_write C L fault fp split r now w of
                       (w, Inl _) \<Rightarrow> c\<lparr>cf_store := w\<rparr>
                     | (w, Inr _) \<Rightarrow> c\<lparr>cf_store := w, cf_pending := Some (fp, split, r, now)\<rparr>)
         | _ \<Rightarrow> c\<lparr>cf_store := w\<rparr>)"

fun jsonl_step :: "codec \<Rightarrow> 'x lib_scheme \<Rightarrow> jsonl_op \<Rightarrow> jsonl_conf \<Rightarrow> jsonl_conf" where
  "jsonl_step C L (JLookup fp r now) c = on_index (lookup_index fp r now) c"
| "jsonl_step C L (JSeal fault fp r now sealed) c = seal_write C L fault fp r now sealed c"
| "jsonl_step C L (JCommit _) c =
     (case cf_pending c of
        None \<Rightarrow> c
      | Some (fp, split, r, now) \<Rightarrow> c\<lparr>cf_store := fst (append_commit fp split r now (cf_store c)), cf_pending := None\<rparr>)"
| "jsonl_step C L (JGet sid now) c = c\<lparr>cf_store := fst (jsonl_get_session L sid now (cf_store c))\<rparr>"
| "jsonl_step C L (JExtend lease dl) c = c\<lparr>cf_store := fst (jsonl_extend_retention lease dl (cf_store c))\<rparr>"
| "jsonl_step C L (JClone lease) c = on_index (clone_lease lease) c"
| "jsonl_step C L (JDrop lease) c = on_index (drop_lease lease) c"
| "jsonl_step C L (JCompact fault now) c = c\<lparr>cf_store := fst (jsonl_compact C L fault now (cf_store c))\<rparr>"

fun jsonl_clock :: "jsonl_op \<Rightarrow> u64 option" where
  "jsonl_clock (JLookup fp r now) = Some now"
| "jsonl_clock (JSeal fault fp r now sealed) = Some now"
| "jsonl_clock (JCommit now) = Some now"
| "jsonl_clock (JGet sid now) = Some now"
| "jsonl_clock (JCompact fault now) = Some now"
| "jsonl_clock op = None"

text \<open>The writer lock admits one append or compaction at a time, a lease is cloned by its holder, and the
  lines of a compaction fit in memory.\<close>

fun jsonl_ok :: "attested_session set \<Rightarrow> jsonl_op \<Rightarrow> jsonl_conf \<Rightarrow> bool" where
  "jsonl_ok S (JSeal fault fp r now sealed) c = (cf_pending c = None \<and> (case sealed of Inr s \<Rightarrow> s \<in> S | Inl _ \<Rightarrow> True))"
| "jsonl_ok S (JCommit now) c = (\<exists>fp split r. cf_pending c = Some (fp, split, r, now))"
| "jsonl_ok S (JClone lease) c = lease_ok lease (jl_index (cf_store c))"
| "jsonl_ok S (JCompact fault now) c = (cf_pending c = None \<and>
     (let idx = evict_lapsed now (jl_index (cf_store c)) in length (bundles idx) + length (by_id idx) < 2 ^ 63))"
| "jsonl_ok S op c = True"

text \<open>With nothing in between, the steps are \<open>current_or_seal\<close>.\<close>

lemma current_or_seal_steps:
  assumes "current fp r now (jl_index w) = Inr (idx, None)" and "c = \<lparr>cf_store = w, cf_pending = None\<rparr>"
  shows "fst (jsonl_current_or_seal C L fault fp r now sealed w) =
    (let c' = run (jsonl_step C L) [JLookup fp r now, JSeal fault fp r now sealed] c
     in if cf_pending c' = None then cf_store c' else cf_store (jsonl_step C L (JCommit now) c'))"
proof -
  have look: "lookup_index fp r now (jl_index w) = idx" by (simp add: lookup_index_def assms(1))
  show ?thesis
  proof (cases "current fp r now idx")
    case (Inr p)
    obtain idx2 o' where p: "p = (idx2, o')" by fastforce
    have look2: "lookup_index fp r now idx = idx2" by (simp add: lookup_index_def Inr p)
    show ?thesis
    proof (cases o')
      case None
      then show ?thesis
        by (simp add: jsonl_current_or_seal_def assms Inr p look look2 seal_write_def on_index_def Let_def
            jsonl_append_def split: sum.split prod.split)
    next
      case (Some l)
      then show ?thesis
        by (simp add: jsonl_current_or_seal_def assms Inr p look look2 seal_write_def on_index_def Let_def)
    qed
  next
    case (Inl e)
    then show ?thesis
      by (simp add: jsonl_current_or_seal_def assms look seal_write_def on_index_def Let_def lookup_index_def)
  qed
qed

section \<open>The invariant of the store\<close>

definition bundles_logged :: "codec \<Rightarrow> 'x lib_scheme \<Rightarrow> session_log_record list \<Rightarrow> session_index \<Rightarrow> bool" where
  "bundles_logged C L rs = bundles_sat (\<lambda>x p. p \<longrightarrow> (\<exists>r \<in> set rs. evidence_in L r x))"

definition plain_set :: "'x lib_scheme \<Rightarrow> attested_session set \<Rightarrow> bool" where
  "plain_set L S = (\<forall>s \<in> S. \<forall>ct x. bundle_of L s = Some (ct, x) \<longrightarrow> plain_content_type ct)"

definition pending_ok :: "codec \<Rightarrow> 'x lib_scheme \<Rightarrow> attested_session set \<Rightarrow> jsonl_conf \<Rightarrow> bool" where
  "pending_ok C L S c = (\<forall>fp split r now. cf_pending c = Some (fp, split, r, now) \<longrightarrow>
     (\<exists>s \<in> S. split_session_new L s = Inr split \<and> logged C L (log_records C (jl_file (cf_store c))) s r))"

definition conf_inv :: "codec \<Rightarrow> 'x lib_scheme \<Rightarrow> attested_session set \<Rightarrow> jsonl_conf \<Rightarrow> bool" where
  "conf_inv C L S c = (let w = cf_store c in safe_store L S (jl_index w) \<and> codec_ok C S \<and> plain_set L S \<and>
     (ends_line (jl_file w) \<or> needs_separator w) \<and> bundles_logged C L (log_records C (jl_file w)) (jl_index w) \<and>
     pending_ok C L S c)"

definition durable :: "codec \<Rightarrow> 'x lib_scheme \<Rightarrow> attested_session set \<Rightarrow> jsonl_conf \<Rightarrow> string \<Rightarrow> u64 \<Rightarrow> bool" where
  "durable C L S c sid d = (promised (jl_index (cf_store c)) sid d \<and>
     (\<exists>s \<in> S. \<exists>r \<ge> d. session_id s = sid \<and> logged C L (log_records C (jl_file (cf_store c))) s r))"

lemma bundles_logged_more: "bundles_logged C L rs idx \<Longrightarrow> bundles_logged C L (rs @ rest) idx"
  by (fastforce simp: bundles_logged_def bundles_sat_def)

text \<open>Steps on the index alone: what they keep of the index is all there is to check.\<close>

lemma index_step:
  assumes "conf_inv C L S c" and "store_inv L S idx" and "bundles_logged C L (log_records C (jl_file (cf_store c))) idx"
  shows "conf_inv C L S (c\<lparr>cf_store := (cf_store c)\<lparr>jl_index := idx\<rparr>\<rparr>)"
  using assms by (simp add: conf_inv_def safe_store_def pending_ok_def Let_def)

lemma evict_logged: "bundles_logged C L rs idx \<Longrightarrow> bundles_logged C L rs (evict_lapsed now idx)"
  unfolding bundles_logged_def by (rule evict_bundles_sat)

lemma bundles_logged_frame: "bundles idx' = bundles idx \<Longrightarrow> bundles_logged C L rs idx \<Longrightarrow> bundles_logged C L rs idx'"
  by (simp add: bundles_logged_def bundles_sat_def)

lemma take_lease_bundles: "take_lease sid idx = Inr (idx', l) \<Longrightarrow> bundles idx' = bundles idx"
  by (auto simp: take_lease_def split: option.splits)

lemma current_logged:
  assumes "current fp r now idx = Inr (idx', res)" and "bundles_logged C L rs idx"
  shows "bundles_logged C L rs idx'"
proof (cases res)
  case None
  then have "idx' = evict_lapsed now idx"
    using assms(1) by (auto simp: current_def Let_def and_then_def split: option.splits if_splits sum.splits)
  then show ?thesis using evict_logged assms(2) by blast
next
  case (Some l)
  obtain sid i where "take_lease sid (evict_lapsed now idx) = Inr (i, l)" "SessionIndex.extend l r i = Inr idx'"
    using assms(1) Some by (auto simp: current_def Let_def and_then_def split: option.splits if_splits sum.splits)
  then have "bundles idx' = bundles (evict_lapsed now idx)"
    using extend_ent take_lease_bundles by metis
  then show ?thesis using evict_logged assms(2) bundles_logged_frame by blast
qed

lemma lookup_index_ok:
  assumes "store_inv L S idx"
  shows "store_inv L S (lookup_index fp r now idx)" and "keeps now idx (lookup_index fp r now idx)"
    and "bundles_logged C L rs idx \<Longrightarrow> bundles_logged C L rs (lookup_index fp r now idx)"
proof -
  have ev: "store_inv L S (evict_lapsed now idx)" "keeps now idx (evict_lapsed now idx)"
    using evict_store_inv [OF assms] evict_keeps assms by (auto simp: store_inv_def)
  show "store_inv L S (lookup_index fp r now idx)" "keeps now idx (lookup_index fp r now idx)"
    using assms by (rule current_ok [where fp = fp and r = r and now = now]; simp add: lookup_index_def ev)+
  show "bundles_logged C L rs (lookup_index fp r now idx)" if "bundles_logged C L rs idx"
    using that current_logged evict_logged by (auto simp: lookup_index_def split: sum.split prod.split)
qed

lemma split_facts:
  assumes "b64_ok L" and "split_session_new L s = Inr split"
  shows "bundle_of L s = Some (sp_content_type split, sp_bundle split)" "sp_session_id split = session_id s"
    "sp_digest split = sha256_hex L (sp_bundle split)" "ev_digest (evidence (sp_stripped split)) = Some (sp_digest split)"
    "(sp_stripped split)\<lparr>evidence := evidence_from_bytes L (sp_content_type split) (sp_bundle split)\<rparr> = document s"
    "(sp_stripped split)\<lparr>evidence := evidence (document s)\<rparr> = document s"
proof -
  obtain ct x d where dec: "evidence_decode L (evidence (document s)) = Some (ct, x)" and d: "ev_digest (evidence (document s)) = Some d"
    and split: "split = \<lparr>sp_session_id = session_id s,
      sp_stripped = (document s)\<lparr>evidence := (evidence (document s))\<lparr>ev_data := None\<rparr>\<rparr>, sp_digest = d, sp_content_type = ct, sp_bundle = x\<rparr>"
    using assms(2) by (auto simp: split_session_new_def Let_def result_iffs)
  have "evidence_from_bytes L ct x = evidence (document s)" by (rule evidence_from_decoded [OF assms(1) dec])
  moreover have "d = sha256_hex L x" using evidence_decode_digest [OF dec] d by simp
  ultimately show "bundle_of L s = Some (sp_content_type split, sp_bundle split)" "sp_session_id split = session_id s"
    "sp_digest split = sha256_hex L (sp_bundle split)" "ev_digest (evidence (sp_stripped split)) = Some (sp_digest split)"
    "(sp_stripped split)\<lparr>evidence := evidence_from_bytes L (sp_content_type split) (sp_bundle split)\<rparr> = document s"
    "(sp_stripped split)\<lparr>evidence := evidence (document s)\<rparr> = document s"
    using dec d by (simp_all add: split bundle_of_def)
qed

lemma same_bundle:
  assumes "safe_store L S idx" and "map_of (bundles idx) (sha256_hex L x) = Some b" and "s \<in> S" and "bundle_of L s = Some (ct, x)"
  shows "bu_bytes b = x"
proof -
  have inv: "store_inv L S idx" "hex_ok L" "sealed_set L S" using assms(1) by (simp_all add: safe_store_def)
  obtain t c where t: "t \<in> S" "bundle_of L t = Some (c, bu_bytes b)"
    using inv(1) assms(2) unfolding store_inv_def bundles_sat_def by blast
  have "sha256_hex L (bu_bytes b) = sha256_hex L x"
    using inv(1) assms(2) unfolding store_inv_def index_inv_def bundles_wf_def by blast
  then have "sha256 L (bu_bytes b) = sha256 L x" using inv(2) by (simp add: sha256_hex_def hex_ok_inj)
  moreover have "\<not> collision (sha256 L) (bu_bytes b) x" using inv(3) t assms(3,4) unfolding sealed_set_def by blast
  ultimately show ?thesis by (simp add: collision_def)
qed

lemma session_record_in:
  assumes "b64_ok L" and "codec_ok C S" and "s \<in> S" and "bundle_of L s = Some (ct, b)" and "plain_content_type ct"
    and "document_to_vec C d = Some doc" and "d\<lparr>evidence := evidence (document s)\<rparr> = document s"
    and "ev_digest (evidence d) = Some (sha256_hex L b)" and "checked_add sq 1 \<noteq> None"
  shows "session_in C L (session_record L sq now fp r ct doc) s b r"
proof -
  have "evidence_from_bytes L ct b = evidence (document s)"
    using evidence_from_decoded [OF assms(1)] assms(4) by (simp add: bundle_of_def)
  moreover have "document_from_slice C doc = Some d" using assms(2,3,6,7) unfolding codec_ok_def by fastforce
  moreover have "b64_decode L (b64_encode L doc) = Some doc" using assms(1) by (simp add: b64_ok_def)
  ultimately show ?thesis using assms by (simp add: session_in_def session_record_def)
qed

lemma evidence_record_in:
  "b64_ok L \<Longrightarrow> checked_add sq 1 \<noteq> None \<Longrightarrow> evidence_in L (evidence_record L sq now b) b"
  by (simp add: evidence_in_def evidence_record_def b64_ok_def)

lemma append_write_ok:
  assumes inv: "conf_inv C L S c" and s: "s \<in> S" "split_session_new L s = Inr split"
    and run: "append_write C L fault fp split r now (cf_store c) = (w', res)"
  shows "jl_index w' = jl_index (cf_store c)" and "ends_line (jl_file w') \<or> needs_separator w'"
    and "\<exists>rest. log_records C (jl_file w') = log_records C (jl_file (cf_store c)) @ rest"
    and "res = Inr q \<Longrightarrow> logged C L (log_records C (jl_file w')) s r"
proof -
  let ?w = "cf_store c" and ?b = "sp_bundle split" and ?ct = "sp_content_type split"
  have laws: "b64_ok L" "codec_ok C S" "plain_set L S" "safe_store L S (jl_index ?w)" "sealed_set L S"
    and closed: "ends_line (jl_file ?w) \<or> needs_separator ?w"
    and old: "bundles_logged C L (log_records C (jl_file ?w)) (jl_index ?w)"
    using inv by (simp_all add: conf_inv_def safe_store_def Let_def)
  note sf = split_facts [OF laws(1) s(2)]
  show "jl_index w' = jl_index ?w"
    using run by (auto simp: append_write_def Let_def split: sum.splits prod.splits if_splits)
  have "(ends_line (jl_file w') \<or> needs_separator w') \<and>
    (\<exists>rest. log_records C (jl_file w') = log_records C (jl_file ?w) @ rest) \<and>
    (res = Inr q \<longrightarrow> logged C L (log_records C (jl_file w')) s r)"
  proof (cases "append_text C L fp split r now ?w")
    case (Inl e)
    then show ?thesis using run closed by (auto simp: append_write_def)
  next
    case (Inr p)
    obtain out sseq sq where p: "append_text C L fp split r now ?w = Inr (out, sseq, sq)" using Inr by (cases p) auto
    obtain body rs where body: "out = (if needs_separator ?w then newline # body else body)"
      and rs: "appended C L fp split r now ?w rs" "log_records C (jl_file ?w @ out) = log_records C (jl_file ?w) @ rs"
      and fin: "ends_line (jl_file ?w @ out)"
      by (rule append_text_records [OF laws(2) p closed])
    show ?thesis
    proof (cases fault)
      case (Some n)
      then show ?thesis using run p partial_write_records [OF body closed, of C n]
        by (auto simp: append_write_def write_all_def Let_def)
    next
      case None
      then have w': "jl_file w' = jl_file ?w @ out" using run p by (auto simp: append_write_def write_all_def Let_def)
      obtain sq' doc where a: "checked_add sq' 1 \<noteq> None" "document_to_vec C (sp_stripped split) = Some doc"
        "if bundle_persisted (jl_index ?w) (sp_digest split) then rs = [session_record L sq' now fp r ?ct doc]
         else checked_add (jl_next_seq ?w) 1 = Some sq' \<and>
           rs = [evidence_record L (jl_next_seq ?w) now ?b, session_record L sq' now fp r ?ct doc]"
        using rs(1) unfolding appended_def by blast
      have se: "session_in C L (session_record L sq' now fp r ?ct doc) s ?b r"
        using session_record_in [OF laws(1,2) s(1) sf(1) _ a(2) sf(6) _ a(1)] sf laws(3) s(1) by (simp add: plain_set_def)
      have sealed: "seal L (document s) = Inr s" using laws(5) s(1) by (simp add: sealed_set_def)
      have "logged C L (log_records C (jl_file ?w) @ rs) s r"
      proof (cases "bundle_persisted (jl_index ?w) (sp_digest split)")
        case True
        then obtain b where b: "map_of (bundles (jl_index ?w)) (sp_digest split) = Some b" "persisted b"
          by (auto simp: bundle_persisted_def split: option.splits)
        then obtain ev where ev: "ev \<in> set (log_records C (jl_file ?w))" "evidence_in L ev (bu_bytes b)"
          using old unfolding bundles_logged_def bundles_sat_def by blast
        have "bu_bytes b = ?b" using same_bundle [OF laws(4) _ s(1) sf(1)] b(1) sf(3) by simp
        then show ?thesis using loggedI [OF ev(1) _ se sealed, of "[]"] ev(2) a(3) True by simp
      next
        case False
        have "logged C L ((log_records C (jl_file ?w) @ [evidence_record L (jl_next_seq ?w) now ?b])
            @ [session_record L sq' now fp r ?ct doc]) s r"
          by (rule loggedI [OF _ evidence_record_in [OF laws(1)] se sealed]) (use a(3) False in auto)
        then show ?thesis using a(3) False by simp
      qed
      then show ?thesis using w' rs(2) fin by auto
    qed
  qed
  then show "ends_line (jl_file w') \<or> needs_separator w'" "\<exists>rest. log_records C (jl_file w') = log_records C (jl_file ?w) @ rest"
    "res = Inr q \<Longrightarrow> logged C L (log_records C (jl_file w')) s r" by auto
qed

section \<open>Committing an append\<close>

lemma mark_persisted_frame [simp]:
  "by_id (mark_persisted d idx) = by_id idx" "by_fingerprint (mark_persisted d idx) = by_fingerprint idx"
  "by_retention (mark_persisted d idx) = by_retention idx" "next_token (mark_persisted d idx) = next_token idx"
  "leases (mark_persisted d idx) = leases idx"
  by (simp_all add: mark_persisted_def split: option.split)

lemma repersist_store_inv:
  assumes "store_inv L S idx" and "by_id idx' = by_id idx" "by_fingerprint idx' = by_fingerprint idx"
    "by_retention idx' = by_retention idx" "next_token idx' = next_token idx" "leases idx' = leases idx" "hm_wf (bundles idx')"
    and same: "\<And>d. map_option (\<lambda>b. b\<lparr>persisted := True\<rparr>) (map_of (bundles idx') d) = map_option (\<lambda>b. b\<lparr>persisted := True\<rparr>) (map_of (bundles idx) d)"
  shows "store_inv L S idx'" and "keeps now idx idx'"
proof -
  have cite: "citing idx' = citing idx" by (rule citing_cong) (simp add: assms(2))
  have b: "\<exists>b0. map_of (bundles idx) d = Some b0 \<and> citers b = citers b0 \<and> bu_bytes b = bu_bytes b0"
    if x: "map_of (bundles idx') d = Some b" for d b
  proof -
    obtain b0 where b0: "map_of (bundles idx) d = Some b0" "b0\<lparr>persisted := True\<rparr> = b\<lparr>persisted := True\<rparr>"
      using same [of d] x by (cases "map_of (bundles idx) d") auto
    have "citers (b0\<lparr>persisted := True\<rparr>) = citers (b\<lparr>persisted := True\<rparr>)" "bu_bytes (b0\<lparr>persisted := True\<rparr>) = bu_bytes (b\<lparr>persisted := True\<rparr>)"
      by (simp_all add: b0(2))
    then show ?thesis using b0(1) by simp
  qed
  have "map_of (bundles idx') d = None \<longleftrightarrow> map_of (bundles idx) d = None" for d using same [of d] by (metis option.map_disc_iff)
  then have bw: "bundles_wf L idx'" if "bundles_wf L idx"
    using that b unfolding bundles_wf_def cite by metis
  have "shape_wf idx'" if "shape_wf idx" using that assms(2-7) by (simp add: shape_wf_def)
  moreover have "hints idx' = hints idx" by (simp add: assms)
  ultimately have "index_wf L idx'"
    using assms(1) bw by (simp add: store_inv_def index_inv_def hints_wf_def entries_wf_def tokens_wf_def assms)
  moreover have "bundles_in X idx'" if "bundles_in X idx" for X
    using that b unfolding bundles_sat_def by metis
  moreover have "entries_from L S idx'" if "entries_from L S idx" using that by (simp add: entries_from_def assms(2))
  ultimately show "store_inv L S idx'" using assms(1) unfolding store_inv_def by blast
  show "keeps now idx idx'" using assms by (auto simp: keeps_def deadline_of_def lease_ok_def)
qed

lemma mark_store_inv:
  assumes "store_inv L S idx"
  shows "store_inv L S (mark_persisted d idx)" and "keeps now idx (mark_persisted d idx)"
proof -
  have "hm_wf (bundles idx)" using assms by (simp add: store_inv_def index_inv_def shape_wf_def)
  then have "hm_wf (bundles (mark_persisted d idx))" by (simp add: mark_persisted_def split: option.split)
  moreover have "map_option (\<lambda>b. b\<lparr>persisted := True\<rparr>) (map_of (bundles (mark_persisted d idx)) k) =
      map_option (\<lambda>b. b\<lparr>persisted := True\<rparr>) (map_of (bundles idx) k)" for k
    by (auto simp: mark_persisted_def split: option.split)
  ultimately show "store_inv L S (mark_persisted d idx)" "keeps now idx (mark_persisted d idx)"
    using repersist_store_inv [OF assms, of "mark_persisted d idx"] by simp_all
qed

lemma append_commit_ok:
  assumes inv: "conf_inv C L S c" and s: "s \<in> S" "split_session_new L s = Inr split"
    and log: "logged C L (log_records C (jl_file (cf_store c))) s r"
    and run: "append_commit fp split r now (cf_store c) = (w', res)"
  shows "store_inv L S (jl_index w')" and "keeps now (jl_index (cf_store c)) (jl_index w')"
    and "bundles_logged C L (log_records C (jl_file (cf_store c))) (jl_index w')"
    and "\<exists>l. res = Inr l \<and> ls_session_id l = session_id s \<and> lease_ok l (jl_index w')"
    and "promised (jl_index w') (session_id s) r" and "jl_file w' = jl_file (cf_store c)" and "needs_separator w' = needs_separator (cf_store c)"
proof -
  let ?w = "cf_store c" and ?rs = "log_records C (jl_file (cf_store c))"
  have laws: "hex_ok L" "b64_ok L" "to_vec_inj L" "sealed_set L S" "safe_store L S (jl_index ?w)" "store_inv L S (jl_index ?w)"
    and old: "bundles_logged C L ?rs (jl_index ?w)"
    using inv by (simp_all add: conf_inv_def safe_store_def Let_def)
  note sf = split_facts [OF laws(2) s(2)]
  define i1 where "i1 = index_insert fp split r (jl_index ?w)"
  have i1: "store_inv L S i1" "keeps now (jl_index ?w) i1"
    unfolding i1_def using insert_store_inv [OF laws(1-4) s(1) laws(6) s(2)] insert_keeps by blast+
  define i2 where "i2 = mark_persisted (sp_digest split) i1"
  have i2: "store_inv L S i2" "keeps now i1 i2" unfolding i2_def using mark_store_inv [OF i1(1)] by simp_all
  obtain e where e: "ent i2 (session_id s) = Some e" "r \<le> retention_until e"
    unfolding i2_def i1_def using sf(2)
    by (auto simp: index_insert_frame inserted_entry_def le_max_iff_disj split: option.split)
  obtain i3 l where take: "take_lease (session_id s) i2 = Inr (i3, l)" using e(1) by (simp add: take_lease_def)
  have i3: "store_inv L S i3" "keeps now i2 i3" "lease_ok l i3" "ls_session_id l = session_id s" "ent i3 = ent i2"
    using take_lease_store_inv [OF i2(1) take] take_lease_keeps [OF take] take_lease_ok [OF _ take, of L] i2(1)
    by (auto simp: store_inv_def)
  have w': "w' = ?w\<lparr>jl_index := evict_lapsed now i3\<rparr>" "res = Inr l"
    using run take by (auto simp: append_commit_def i2_def i1_def sf(2))
  have i4: "store_inv L S (evict_lapsed now i3)" "keeps now i3 (evict_lapsed now i3)"
    using evict_store_inv [OF i3(1)] evict_keeps i3(1) by (auto simp: store_inv_def)
  show "store_inv L S (jl_index w')" "jl_file w' = jl_file ?w" "needs_separator w' = needs_separator ?w" using i4(1) w' by simp_all
  show "keeps now (jl_index ?w) (jl_index w')"
    using keeps_trans [OF keeps_trans [OF keeps_trans [OF i1(2) i2(2)] i3(2)] i4(2)] w'(1) by simp
  show "\<exists>l. res = Inr l \<and> ls_session_id l = session_id s \<and> lease_ok l (jl_index w')"
    using lease_kept [OF i4(2) i3(3)] i3(4) w' by simp
  have "ent (evict_lapsed now i3) (session_id s) = ent i3 (session_id s)"
    using i3(1,3,4) evict_ent [of L i3 now] by (auto simp: store_inv_def surviving_def lease_ok_def)
  then show "promised (jl_index w') (session_id s) r"
    using e i3(5) w'(1) by (simp add: promised_def deadline_of_def)
  obtain ev b where ev: "ev \<in> set ?rs" "evidence_in L ev b" "\<exists>ct. bundle_of L s = Some (ct, b)"
    using logged_evidence [OF log] by blast
  have "bundles_logged C L ?rs i2"
    unfolding bundles_logged_def bundles_sat_def
  proof (intro allI impI)
    fix d x assume x: "map_of (bundles i2) d = Some x" "persisted x"
    show "\<exists>r \<in> set ?rs. evidence_in L r (bu_bytes x)"
    proof (cases "d = sp_digest split")
      case True
      have "bu_bytes x = b" using same_bundle [of L S i2 b x s] x(1) True i2(1) laws ev(3) s(1) sf(1,3)
        by (auto simp: safe_store_def)
      then show ?thesis using ev by blast
    next
      case False
      then have "map_of (bundles (jl_index ?w)) d = Some x"
        using x(1) unfolding i2_def i1_def
        by (cases "ent (jl_index ?w) (sp_session_id split)")
          (auto simp: index_insert_new index_insert_again mark_persisted_def split: option.splits)
      then show ?thesis using old x(2) unfolding bundles_logged_def bundles_sat_def by blast
    qed
  qed
  then have "bundles_logged C L ?rs i3" by (rule bundles_logged_frame [OF take_lease_bundles [OF take]])
  from evict_logged [OF this] show "bundles_logged C L ?rs (jl_index w')" by (simp add: w'(1))
qed

section \<open>Compaction\<close>

lemma persist_all_ok:
  assumes "store_inv L S idx"
  shows "store_inv L S (persist_all idx)" and "keeps now idx (persist_all idx)"
proof -
  have m: "map_of (bundles (persist_all idx)) d = map_option (\<lambda>b. b\<lparr>persisted := True\<rparr>) (map_of (bundles idx) d)" for d
    by (simp add: persist_all_def map_of_map)
  have "map fst (bundles (persist_all idx)) = map fst (bundles idx)" by (simp add: persist_all_def comp_def case_prod_beta)
  then have "hm_wf (bundles (persist_all idx))"
    using assms by (simp add: store_inv_def index_inv_def shape_wf_def)
  then show "store_inv L S (persist_all idx)" "keeps now idx (persist_all idx)"
    using repersist_store_inv [OF assms, of "persist_all idx"] m
    by (simp_all add: persist_all_def option.map_comp comp_def)
qed

lemma record_lines_records:
  assumes "codec_ok C S" and "try_map f xs = Inr ls" and "\<And>x. x \<in> set xs \<Longrightarrow> f x = record_line C (g x)"
  shows "log_records C (concat ls) = map g xs \<and> ends_line (concat ls) \<and> length ls = length xs"
  using assms(2,3)
proof (induction xs arbitrary: ls)
  case Nil
  then show ?case by (simp add: ends_line_def)
next
  case (Cons x xs)
  obtain t where t: "record_line C (g x) = Inr (t @ [newline])" "log_records C (t @ [newline]) = [g x]"
    by (rule record_line_ok [OF assms(1)])
  obtain ls' where ls: "try_map f xs = Inr ls'" "ls = (t @ [newline]) # ls'"
    using Cons.prems t(1) by (auto split: sum.splits)
  note IH = Cons.IH [OF ls(1)]
  have "log_records C ((t @ [newline]) @ concat ls') = log_records C (t @ [newline]) @ log_records C (concat ls')"
    by (rule log_records_append) (simp add: ends_line_def)
  then show ?case using IH Cons.prems(2) t(2) ls(2) by (auto simp: ends_line_def split: if_splits)
qed

lemma checked_add_of_nat: "n < 2 ^ 63 \<Longrightarrow> checked_add (of_nat n) 1 \<noteq> None"
  by (simp add: checked_add_def unat_of_nat)

lemma set_enumerate_snd: "x \<in> set (enumerate n xs) \<Longrightarrow> snd x \<in> set xs \<and> fst x < n + length xs"
  by (cases x) (auto simp: in_set_enumerate_eq intro!: nth_mem)

lemma enumerate_mem: "y \<in> set ys \<Longrightarrow> \<exists>n. (n, y) \<in> set (enumerate k ys) \<and> n < k + length ys"
proof -
  assume "y \<in> set ys"
  then obtain i where "i < length ys" "ys ! i = y" by (auto simp: in_set_conv_nth)
  then show ?thesis by (intro exI [of _ "k + i"]) (simp add: in_set_enumerate_eq)
qed

lemma entry_session:
  assumes "safe_store L S idx" and "codec_ok C S" and "ent idx sid = Some e"
  obtains s x doc where "s \<in> S" "session_id s = sid" "bundle_of L s = Some (en_content_type e, x)"
    "entry_digest e = Some (sha256_hex L x)" "(en_stripped e)\<lparr>evidence := evidence (document s)\<rparr> = document s"
    "document_to_vec C (en_stripped e) = Some doc" "seal L (document s) = Inr s"
    "\<exists>d b. (d, b) \<in> set (bundles idx) \<and> bu_bytes b = x"
proof -
  have inv: "store_inv L S idx" and b64: "b64_ok L" and S: "sealed_set L S" using assms(1) by (simp_all add: safe_store_def)
  have "entries_from L S idx" using inv by (simp add: store_inv_def)
  then obtain s x where s: "s \<in> S" "original L sid e x s" "bundle_of L s = Some (en_content_type e, x)"
    by (rule entries_fromD [OF _ assms(3)])
  have x: "entry_digest e = Some (sha256_hex L x)" "session_id s = sid"
    and doc: "document s = (en_stripped e)\<lparr>evidence := evidence_from_bytes L (en_content_type e) x\<rparr>"
    using s(2) by (auto simp: original_def seal_Inr)
  have strip: "(en_stripped e)\<lparr>evidence := evidence (document s)\<rparr> = document s" by (simp add: doc)
  obtain v where v: "document_to_vec C (en_stripped e) = Some v"
    using assms(2) s(1) strip unfolding codec_ok_def by blast
  have "citing idx (sha256_hex L x) \<noteq> {}" using assms(3) x(1) by (auto simp: citing_def)
  then obtain b where b: "map_of (bundles idx) (sha256_hex L x) = Some b"
    using inv unfolding store_inv_def index_inv_def bundles_wf_def by blast
  have "bu_bytes b = x" by (rule same_bundle [OF assms(1) b s(1,3)])
  then have "\<exists>d b. (d, b) \<in> set (bundles idx) \<and> bu_bytes b = x" using map_of_SomeD [OF b] by blast
  moreover have "seal L (document s) = Inr s" using S s(1) by (simp add: sealed_set_def)
  ultimately show ?thesis by (intro that [OF s(1) x(2) s(3) x(1) strip v])
qed

lemma ends_line_append: "ends_line a \<Longrightarrow> ends_line b \<Longrightarrow> ends_line (a @ b)"
  by (cases "b = []") (simp_all add: ends_line_def)

lemma compact_lines_records:
  assumes safe: "safe_store L S idx" and C: "codec_ok C S" and run: "compact_lines C L now idx = Inr lines"
  shows "log_records C (concat lines) =
      map (\<lambda>(n, _, b). evidence_record L (of_nat n) now (bu_bytes b)) (enumerate 0 (bundles idx)) @
      map (\<lambda>(n, _, e). session_record L (of_nat n) now (en_fingerprint e) (retention_until e) (en_content_type e)
        (the (document_to_vec C (en_stripped e)))) (enumerate (length (bundles idx)) (sessions_oldest_first idx))
    \<and> ends_line (concat lines)"
proof -
  obtain evs sess where evs: "try_map (\<lambda>(n, _, b). evidence_line C L (of_nat n) now (bu_bytes b)) (enumerate 0 (bundles idx)) = Inr evs"
    and sess: "try_map (\<lambda>(n, _, e). session_line C L (of_nat n) now (en_fingerprint e) (retention_until e)
      (en_content_type e) (en_stripped e)) (enumerate (length evs) (sessions_oldest_first idx)) = Inr sess"
    and lines: "lines = evs @ sess"
    using run by (auto simp: compact_lines_def result_iffs)
  have wf: "hm_wf (by_id idx)" using safe by (simp add: safe_store_def store_inv_def index_inv_def shape_wf_def)
  have ev: "log_records C (concat evs) =
      map (\<lambda>(n, _, b). evidence_record L (of_nat n) now (bu_bytes b)) (enumerate 0 (bundles idx))
    \<and> ends_line (concat evs) \<and> length evs = length (enumerate 0 (bundles idx))"
    by (rule record_lines_records [OF C evs]) (auto simp: evidence_line_def)
  have se: "log_records C (concat sess) =
      map (\<lambda>(n, _, e). session_record L (of_nat n) now (en_fingerprint e) (retention_until e) (en_content_type e)
        (the (document_to_vec C (en_stripped e)))) (enumerate (length evs) (sessions_oldest_first idx))
    \<and> ends_line (concat sess) \<and> length sess = length (enumerate (length evs) (sessions_oldest_first idx))"
  proof (rule record_lines_records [OF C sess], clarify)
    fix n sid e assume "(n, sid, e) \<in> set (enumerate (length evs) (sessions_oldest_first idx))"
    then have "(sid, e) \<in> set (by_id idx)" using set_enumerate_snd by (fastforce simp: sessions_oldest_first_def)
    then have "ent idx sid = Some e" using wf by simp
    then obtain doc where "document_to_vec C (en_stripped e) = Some doc" by (rule entry_session [OF safe C])
    then show "session_line C L (of_nat n) now (en_fingerprint e) (retention_until e) (en_content_type e) (en_stripped e) =
      record_line C (session_record L (of_nat n) now (en_fingerprint e) (retention_until e) (en_content_type e)
        (the (document_to_vec C (en_stripped e))))" by (simp add: session_line_def)
  qed
  have "ends_line (concat evs @ concat sess)" using ev se ends_line_append by blast
  then show ?thesis using ev se log_records_append [of "concat evs" C "concat sess"] lines by simp
qed

text \<open>After a compaction the log holds every session of the index with its current deadline.\<close>

lemma compact_logged:
  assumes safe: "safe_store L S idx" and C: "codec_ok C S" and plain: "plain_set L S"
    and run: "compact_lines C L now idx = Inr lines" and fits: "length (bundles idx) + length (by_id idx) < 2 ^ 63"
  shows "ent idx sid = Some e \<Longrightarrow> \<exists>s \<in> S. session_id s = sid \<and> logged C L (log_records C (concat lines)) s (retention_until e)"
    and "(d, b) \<in> set (bundles idx) \<Longrightarrow> \<exists>r \<in> set (log_records C (concat lines)). evidence_in L r (bu_bytes b)"
proof -
  let ?evs = "map (\<lambda>(n, _, b). evidence_record L (of_nat n) now (bu_bytes b)) (enumerate 0 (bundles idx))"
  let ?rec = "\<lambda>(n, _, e). session_record L (of_nat n) now (en_fingerprint e) (retention_until e) (en_content_type e)
    (the (document_to_vec C (en_stripped e)))"
  have recs: "log_records C (concat lines) = ?evs @ map ?rec (enumerate (length (bundles idx)) (sessions_oldest_first idx))"
    using compact_lines_records [OF safe C run] by blast
  have b64: "b64_ok L" using safe by (simp add: safe_store_def)
  have ev: "\<exists>r \<in> set ?evs. evidence_in L r (bu_bytes b)" if bm: "(d, b) \<in> set (bundles idx)" for d b
  proof -
    obtain n where n: "(n, d, b) \<in> set (enumerate 0 (bundles idx))" "n < length (bundles idx)"
      using enumerate_mem [OF bm, of 0] by auto
    have "evidence_in L (evidence_record L (of_nat n) now (bu_bytes b)) (bu_bytes b)"
      by (rule evidence_record_in [OF b64 checked_add_of_nat]) (use n(2) fits in simp)
    moreover have "evidence_record L (of_nat n) now (bu_bytes b) \<in> set ?evs"
      unfolding set_map by (rule image_eqI [OF _ n(1)]) simp
    ultimately show ?thesis by blast
  qed
  then show "\<exists>r \<in> set (log_records C (concat lines)). evidence_in L r (bu_bytes b)" if "(d, b) \<in> set (bundles idx)"
    using that unfolding recs set_append by blast
  show "\<exists>s \<in> S. session_id s = sid \<and> logged C L (log_records C (concat lines)) s (retention_until e)" if e: "ent idx sid = Some e"
  proof -
    obtain s x doc where s: "s \<in> S" "session_id s = sid" "bundle_of L s = Some (en_content_type e, x)"
      "entry_digest e = Some (sha256_hex L x)" "(en_stripped e)\<lparr>evidence := evidence (document s)\<rparr> = document s"
      "document_to_vec C (en_stripped e) = Some doc" "seal L (document s) = Inr s"
      "\<exists>d b. (d, b) \<in> set (bundles idx) \<and> bu_bytes b = x" by (rule entry_session [OF safe C e])
    obtain r where r: "r \<in> set ?evs" "evidence_in L r x" using s(8) ev by blast
    have "(sid, e) \<in> set (sessions_oldest_first idx)" using map_of_SomeD [OF e] by (simp add: sessions_oldest_first_def)
    then obtain n where n: "(n, sid, e) \<in> set (enumerate (length (bundles idx)) (sessions_oldest_first idx))"
      "n < length (bundles idx) + length (by_id idx)"
      using enumerate_mem [of _ "sessions_oldest_first idx" "length (bundles idx)"] by (auto simp: sessions_oldest_first_def)
    let ?se = "session_record L (of_nat n) now (en_fingerprint e) (retention_until e) (en_content_type e) doc"
    have "checked_add (of_nat n) 1 \<noteq> None" using n(2) fits by (intro checked_add_of_nat) simp
    moreover have "plain_content_type (en_content_type e)" using plain s(1,3) by (simp add: plain_set_def)
    ultimately have se: "session_in C L ?se s x (retention_until e)"
      using session_record_in [OF b64 C s(1,3) _ s(6,5)] s(4) by (simp add: entry_digest_def)
    have "?se \<in> set (map ?rec (enumerate (length (bundles idx)) (sessions_oldest_first idx)))"
      unfolding set_map by (rule image_eqI [OF _ n(1)]) (simp add: s(6))
    then obtain p q where "map ?rec (enumerate (length (bundles idx)) (sessions_oldest_first idx)) = p @ ?se # q" by (meson split_list)
    then have "log_records C (concat lines) = (?evs @ p) @ ?se # q" unfolding recs by simp
    moreover have "logged C L ((?evs @ p) @ ?se # q) s (retention_until e)"
      by (rule loggedI [OF _ r(2) se s(7)]) (use r(1) in simp)
    ultimately have "logged C L (log_records C (concat lines)) s (retention_until e)" by simp
    then show ?thesis using s(1,2) by blast
  qed
qed

section \<open>Every step\<close>

definition step_ok :: "codec \<Rightarrow> 'x lib_scheme \<Rightarrow> attested_session set \<Rightarrow> u64 option \<Rightarrow> jsonl_conf \<Rightarrow> jsonl_conf \<Rightarrow> bool" where
  "step_ok C L S t c c' = (conf_inv C L S c' \<and>
     (\<forall>sid d. durable C L S c sid d \<and> (\<forall>n. t = Some n \<longrightarrow> n < d) \<longrightarrow> durable C L S c' sid d))"

lemma index_step_ok:
  assumes inv: "conf_inv C L S c" and idx: "store_inv L S idx" "bundles_logged C L (log_records C (jl_file (cf_store c))) idx"
    and kept: "\<And>sid d. promised (jl_index (cf_store c)) sid d \<Longrightarrow> (\<And>n. t = Some n \<Longrightarrow> n < d) \<Longrightarrow> promised idx sid d"
  shows "step_ok C L S t c (c\<lparr>cf_store := (cf_store c)\<lparr>jl_index := idx\<rparr>\<rparr>)"
  using index_step [OF inv idx] kept by (simp add: step_ok_def durable_def)

lemma conf_parts:
  assumes "conf_inv C L S c"
  shows "store_inv L S (jl_index (cf_store c))" "bundles_logged C L (log_records C (jl_file (cf_store c))) (jl_index (cf_store c))"
    "index_wf L (jl_index (cf_store c))" "safe_store L S (jl_index (cf_store c))" "codec_ok C S" "plain_set L S" "b64_ok L"
  using assms by (simp_all add: conf_inv_def safe_store_def store_inv_def Let_def)

lemma lookup_step_ok:
  assumes "conf_inv C L S c"
  shows "step_ok C L S (Some now) c (on_index (lookup_index fp r now) c)"
proof -
  note look = lookup_index_ok [OF conf_parts(1) [OF assms], where fp = fp and r = r and now = now]
  show ?thesis unfolding on_index_def
    by (rule index_step_ok [OF assms look(1) look(3) [OF conf_parts(2) [OF assms]]]) (blast intro: promise_kept [OF look(2)])
qed

lemma get_step_ok:
  assumes "conf_inv C L S c"
  shows "step_ok C L S (Some now) c (c\<lparr>cf_store := fst (jsonl_get_session L sid now (cf_store c))\<rparr>)"
proof -
  have "step_ok C L S (Some now) c (c\<lparr>cf_store := (cf_store c)\<lparr>jl_index := evict_lapsed now (jl_index (cf_store c))\<rparr>\<rparr>)"
    using evict_store_inv [OF conf_parts(1) [OF assms]] evict_logged [OF conf_parts(2) [OF assms]]
      evict_keeps [OF conf_parts(3) [OF assms]]
    by (intro index_step_ok [OF assms]) (auto intro: promise_kept)
  then show ?thesis by (simp add: jsonl_get_session_def index_get_def Let_def)
qed

lemma extend_step_ok:
  assumes "conf_inv C L S c"
  shows "step_ok C L S None c (c\<lparr>cf_store := fst (jsonl_extend_retention lease dl (cf_store c))\<rparr>)"
proof (cases "SessionIndex.extend lease dl (jl_index (cf_store c))")
  case (Inl e)
  then show ?thesis using assms by (simp add: jsonl_extend_retention_def step_ok_def)
next
  case (Inr idx)
  have "promised idx sid d" if "promised (jl_index (cf_store c)) sid d" for sid d
    using that extend_deadline [OF Inr] by (fastforce simp: promised_def le_max_iff_disj)
  moreover have "bundles_logged C L (log_records C (jl_file (cf_store c))) idx"
    using bundles_logged_frame conf_parts(2) [OF assms] extend_ent [OF Inr] by blast
  ultimately have "step_ok C L S None c (c\<lparr>cf_store := (cf_store c)\<lparr>jl_index := idx\<rparr>\<rparr>)"
    using extend_store_inv [OF conf_parts(1) [OF assms] Inr] by (intro index_step_ok [OF assms])
  then show ?thesis by (simp add: jsonl_extend_retention_def Inr)
qed

lemma lease_step_ok:
  assumes "conf_inv C L S c" and "index_wf L (leases_update f (jl_index (cf_store c)))"
  shows "step_ok C L S None c (on_index (leases_update f) c)"
  unfolding on_index_def
  using leases_store_inv [OF conf_parts(1) [OF assms(1)] assms(2)] conf_parts(2) [OF assms(1)]
  by (intro index_step_ok [OF assms(1)]) (auto simp: promised_def deadline_of_def intro: bundles_logged_frame)

lemma commit_step_ok:
  assumes inv: "conf_inv C L S c" and pend: "cf_pending c = Some (fp, split, r, now)"
  shows "step_ok C L S (Some now) c (jsonl_step C L (JCommit now) c)"
    and "durable C L S (jsonl_step C L (JCommit now) c) (sp_session_id split) r"
proof -
  let ?rs = "log_records C (jl_file (cf_store c))"
  obtain s where s: "s \<in> S" "split_session_new L s = Inr split" "logged C L ?rs s r"
    using inv pend unfolding conf_inv_def pending_ok_def Let_def by blast
  obtain w res where run: "append_commit fp split r now (cf_store c) = (w, res)" by fastforce
  note ok = append_commit_ok [OF inv s run]
  have step: "jsonl_step C L (JCommit now) c = c\<lparr>cf_store := w, cf_pending := None\<rparr>" by (simp add: pend run)
  have "conf_inv C L S (c\<lparr>cf_store := w, cf_pending := None\<rparr>)"
    using inv ok by (simp add: conf_inv_def safe_store_def pending_ok_def Let_def)
  moreover have "durable C L S (c\<lparr>cf_store := w, cf_pending := None\<rparr>) sid d" if "durable C L S c sid d" "now < d" for sid d
    using that promise_kept [OF ok(2)] ok(6) by (simp add: durable_def)
  ultimately show "step_ok C L S (Some now) c (jsonl_step C L (JCommit now) c)"
    unfolding step by (simp add: step_ok_def)
  have "sp_session_id split = session_id s" using split_facts(2) [OF conf_parts(7) [OF inv] s(2)] .
  then show "durable C L S (jsonl_step C L (JCommit now) c) (sp_session_id split) r"
    unfolding step using ok(5,6) s by (auto simp: durable_def)
qed

lemma seal_write_cases:
  fixes c :: jsonl_conf and fp :: string and r now :: u64 and L :: "'x lib_scheme"
  defines "w0 \<equiv> (cf_store c)\<lparr>jl_index := lookup_index fp r now (jl_index (cf_store c))\<rparr>"
  obtains "seal_write C L fault fp r now sealed c = c\<lparr>cf_store := w0\<rparr>"
  | (wr) split w res where "and_then sealed (split_session_new L) = Inr split"
      "append_write C L fault fp split (max r (expires_at (sp_stripped split))) now w0 = (w, res)"
      "seal_write C L fault fp r now sealed c = (case res of Inl _ \<Rightarrow> c\<lparr>cf_store := w\<rparr>
         | Inr _ \<Rightarrow> c\<lparr>cf_store := w, cf_pending := Some (fp, split, max r (expires_at (sp_stripped split)), now)\<rparr>)"
proof (cases "\<exists>i. current fp r now (jl_index (cf_store c)) = Inr (i, None)")
  case False
  then have "seal_write C L fault fp r now sealed c = c\<lparr>cf_store := w0\<rparr>"
    by (simp add: seal_write_def w0_def Let_def split: sum.split prod.split option.split)
  then show ?thesis by (rule that(1))
next
  case True
  then obtain i where i: "current fp r now (jl_index (cf_store c)) = Inr (i, None)" by blast
  show ?thesis
  proof (cases "and_then sealed (split_session_new L)")
    case (Inl e)
    then have "seal_write C L fault fp r now sealed c = c\<lparr>cf_store := w0\<rparr>" by (simp add: seal_write_def w0_def Let_def i)
    then show ?thesis by (rule that(1))
  next
    case (Inr split)
    obtain w res where run: "append_write C L fault fp split (max r (expires_at (sp_stripped split))) now w0 = (w, res)" by fastforce
    then have "seal_write C L fault fp r now sealed c = (case res of Inl _ \<Rightarrow> c\<lparr>cf_store := w\<rparr>
         | Inr _ \<Rightarrow> c\<lparr>cf_store := w, cf_pending := Some (fp, split, max r (expires_at (sp_stripped split)), now)\<rparr>)"
      using Inr by (simp add: seal_write_def w0_def Let_def i split: sum.split)
    with Inr run show ?thesis by (rule that(2))
  qed
qed

lemma seal_step_ok:
  assumes inv: "conf_inv C L S c" and pend: "cf_pending c = None" and sealed: "\<And>s. sealed = Inr s \<Longrightarrow> s \<in> S"
  shows "step_ok C L S (Some now) c (seal_write C L fault fp r now sealed c)"
proof -
  let ?w = "(cf_store c)\<lparr>jl_index := lookup_index fp r now (jl_index (cf_store c))\<rparr>"
  let ?c = "c\<lparr>cf_store := ?w\<rparr>"
  have look: "step_ok C L S (Some now) c ?c" using lookup_step_ok [OF inv] by (simp add: on_index_def)
  then have inv1: "conf_inv C L S ?c" by (simp add: step_ok_def)
  show ?thesis
  proof (cases rule: seal_write_cases [of C L fault fp r now sealed c])
    case 1
    then show ?thesis using look by simp
  next
    case (wr split w res)
    let ?r = "max r (expires_at (sp_stripped split))"
    obtain s where s: "s \<in> S" "split_session_new L s = Inr split" using wr(1) sealed by (auto simp: result_iffs)
    note ok = append_write_ok [OF inv1 s, of fault fp ?r now w res]
    have w: "jl_index w = jl_index ?w" "ends_line (jl_file w) \<or> needs_separator w"
      using ok wr(2) by auto
    obtain rest where rest: "log_records C (jl_file w) = log_records C (jl_file (cf_store c)) @ rest" using ok(3) wr(2) by auto
    have base: "conf_inv C L S (c\<lparr>cf_store := w, cf_pending := p\<rparr>)" if "pending_ok C L S (c\<lparr>cf_store := w, cf_pending := p\<rparr>)" for p
      using inv1 w rest that by (simp add: conf_inv_def Let_def bundles_logged_more)
    have dur: "durable C L S (c\<lparr>cf_store := w, cf_pending := p\<rparr>) sid d" if "durable C L S ?c sid d" for p sid d
      using that w(1) rest logged_append by (fastforce simp: durable_def)
    have all: "step_ok C L S (Some now) c (c\<lparr>cf_store := w, cf_pending := p\<rparr>)" if "pending_ok C L S (c\<lparr>cf_store := w, cf_pending := p\<rparr>)" for p
      using base [OF that] dur look by (simp add: step_ok_def)
    show ?thesis
    proof (cases res)
      case (Inl e)
      have "step_ok C L S (Some now) c (c\<lparr>cf_store := w, cf_pending := None\<rparr>)" by (rule all) (simp add: pending_ok_def)
      moreover have "c\<lparr>cf_store := w, cf_pending := None\<rparr> = c\<lparr>cf_store := w\<rparr>" using pend by (cases c) simp
      ultimately show ?thesis using wr(3) Inl by simp
    next
      case (Inr q)
      have "pending_ok C L S (c\<lparr>cf_store := w, cf_pending := Some (fp, split, ?r, now)\<rparr>)"
        using ok(4) wr(2) s Inr by (auto simp: pending_ok_def)
      then show ?thesis using all wr(3) Inr by simp
    qed
  qed
qed

lemma promised_ent: "promised idx sid d \<longleftrightarrow> (\<exists>e. ent idx sid = Some e \<and> d \<le> retention_until e)"
  by (auto simp: promised_def deadline_of_def)

definition compacted :: "string list \<Rightarrow> session_index \<Rightarrow> jsonl_store \<Rightarrow> jsonl_store" where
  "compacted lines idx w = w\<lparr>jl_file := concat lines, jl_index := persist_all idx, jl_next_seq := of_nat (length lines),
     needs_separator := False\<rparr>"

lemma compacted_inv:
  assumes safe: "safe_store L S idx" and C: "codec_ok C S" "plain_set L S" and run: "compact_lines C L now idx = Inr lines"
    and fits: "length (bundles idx) + length (by_id idx) < 2 ^ 63" and pend: "cf_pending c = None"
  shows "conf_inv C L S (c\<lparr>cf_store := compacted lines idx w\<rparr>)"
    and "promised idx sid d \<Longrightarrow> durable C L S (c\<lparr>cf_store := compacted lines idx w\<rparr>) sid d"
proof -
  let ?rs = "log_records C (concat lines)"
  note log = compact_logged [OF safe C run fits]
  have pa: "store_inv L S (persist_all idx)" using persist_all_ok [of L S idx] safe by (simp_all add: safe_store_def)
  have "bundles_logged C L ?rs (persist_all idx)"
    unfolding bundles_logged_def bundles_sat_def
  proof (intro allI impI)
    fix d x assume "map_of (bundles (persist_all idx)) d = Some x"
    then obtain b where b: "map_of (bundles idx) d = Some b" "bu_bytes x = bu_bytes b"
      by (auto simp: persist_all_def map_of_map)
    show "\<exists>r \<in> set ?rs. evidence_in L r (bu_bytes x)" using log(2) [OF map_of_SomeD [OF b(1)]] b(2) by simp
  qed
  moreover have "ends_line (concat lines)" using compact_lines_records [OF safe C(1) run] by blast
  ultimately show "conf_inv C L S (c\<lparr>cf_store := compacted lines idx w\<rparr>)"
    using pa safe pend C by (simp add: conf_inv_def safe_store_def pending_ok_def Let_def compacted_def)
  show "durable C L S (c\<lparr>cf_store := compacted lines idx w\<rparr>) sid d" if p: "promised idx sid d"
  proof -
    obtain e where e: "ent idx sid = Some e" "d \<le> retention_until e" using p by (auto simp: promised_ent)
    have "promised (persist_all idx) sid d" using p by (simp add: promised_ent persist_all_def)
    then show ?thesis using log(1) [OF e(1)] e(2) by (auto simp: durable_def compacted_def)
  qed
qed

lemma compact_step_ok:
  assumes inv: "conf_inv C L S c" and ok: "jsonl_ok S (JCompact fault now) c"
  shows "step_ok C L S (Some now) c (c\<lparr>cf_store := fst (jsonl_compact C L fault now (cf_store c))\<rparr>)"
proof -
  define idx where "idx = evict_lapsed now (jl_index (cf_store c))"
  let ?c = "c\<lparr>cf_store := (cf_store c)\<lparr>jl_index := idx\<rparr>\<rparr>"
  have look: "step_ok C L S (Some now) c ?c"
    using get_step_ok [OF inv] by (simp add: jsonl_get_session_def index_get_def Let_def idx_def)
  then have inv1: "conf_inv C L S ?c" by (simp add: step_ok_def)
  have safe: "safe_store L S idx" using conf_parts(4) [OF inv1] by simp
  show ?thesis
  proof (cases "compact_lines C L now idx")
    case (Inl e)
    then show ?thesis using look by (simp add: jsonl_compact_def idx_def Let_def)
  next
    case (Inr lines)
    show ?thesis
    proof (cases fault)
      case (Some e)
      then show ?thesis using look Inr by (simp add: jsonl_compact_def idx_def Let_def)
    next
      case None
      have w: "fst (jsonl_compact C L fault now (cf_store c)) = compacted lines idx (cf_store c)"
        using None Inr by (simp add: jsonl_compact_def idx_def Let_def compacted_def)
      have fits: "length (bundles idx) + length (by_id idx) < 2 ^ 63" and pend: "cf_pending c = None"
        using ok by (simp_all add: idx_def Let_def)
      note fin = compacted_inv [OF safe conf_parts(5,6) [OF inv] Inr fits pend, where w = "cf_store c"]
      have "durable C L S (c\<lparr>cf_store := compacted lines idx (cf_store c)\<rparr>) sid d" if "durable C L S ?c sid d" for sid d
        using fin(2) that by (simp add: durable_def)
      then show ?thesis using look fin(1) unfolding w by (simp add: step_ok_def)
    qed
  qed
qed

lemma jsonl_step_ok:
  assumes inv: "conf_inv C L S c" and ok: "jsonl_ok S op c"
  shows "step_ok C L S (jsonl_clock op) c (jsonl_step C L op c)"
proof (cases op)
  case (JSeal fault fp r now sealed)
  show ?thesis unfolding JSeal jsonl_step.simps jsonl_clock.simps
    by (rule seal_step_ok [OF inv]) (use ok JSeal in auto)
next
  case (JCommit now)
  then obtain fp split r where "cf_pending c = Some (fp, split, r, now)" using ok by auto
  from commit_step_ok(1) [OF inv this] show ?thesis unfolding JCommit jsonl_clock.simps .
next
  case (JClone l)
  then have "index_wf L (clone_lease l (jl_index (cf_store c)))"
    using clone_lease_wf(1) [OF conf_parts(3) [OF inv]] ok by simp
  then show ?thesis using lease_step_ok [OF inv] JClone by (simp add: clone_lease_def [abs_def] on_index_def)
next
  case (JDrop l)
  have "index_wf L (drop_lease l (jl_index (cf_store c)))" by (rule drop_lease_wf [OF conf_parts(3) [OF inv]])
  then show ?thesis using lease_step_ok [OF inv] JDrop by (simp add: drop_lease_def on_index_def)
next
  case (JCompact fault now)
  then show ?thesis using compact_step_ok [OF inv ok [unfolded JCompact]] by simp
qed (use lookup_step_ok [OF inv] get_step_ok [OF inv] extend_step_ok [OF inv] in simp_all)

interpretation jsonl: session_store "conf_inv C L S" "durable C L S" "jsonl_ok S" "jsonl_step C L" jsonl_clock for C L S
proof
  fix c op sid d assume c: "conf_inv C L S c" "jsonl_ok S op c"
  note step = jsonl_step_ok [OF c, unfolded step_ok_def]
  show "conf_inv C L S (jsonl_step C L op c)" using step by blast
  show "durable C L S (jsonl_step C L op c) sid d" if "durable C L S c sid d" "\<And>t. jsonl_clock op = Some t \<Longrightarrow> t < d"
    using step that by blast
qed

end
