(* ===== verification/SessionCrash.thy ===== *)
theory SessionCrash
  imports SessionDurable
begin

text \<open>
  The properties of the durable session store: opening any log, and the survival of acknowledged sessions
  over crashes, with a concrete log on which they apply.
\<close>

section \<open>Properties\<close>

lemma jsonl_open_file:
  "jsonl_open C L False (Inr (Some file)) now = Inr \<lparr>jl_file = file,
     jl_next_seq = rp_next_seq (fold (replay_record C L now) (log_records C file) replay_start), needs_separator = False,
     jl_index = persist_all (rp_index (fold (replay_record C L now) (log_records C file) replay_start))\<rparr>"
  by (simp add: jsonl_open_def replay_records Let_def)

lemma open_safe:
  fixes now :: u64
  assumes "log_safe C L (set (log_records C file))"
  defines "idx \<equiv> rp_index (fold (replay_record C L now) (log_records C file) replay_start)"
  shows "safe_store L (record_sessions C L (set (log_records C file))) (persist_all idx)"
    and "deadline_of (persist_all idx) sid = Some d \<Longrightarrow> now < d"
proof -
  have inv: "replay_inv C L now (set (log_records C file)) (fold (replay_record C L now) (log_records C file) replay_start)"
    by (rule replay_records_inv [OF assms(1) subset_refl replay_start_inv])
  then show "safe_store L (record_sessions C L (set (log_records C file))) (persist_all idx)"
    using persist_all_ok(1) [of L _ idx] assms(1) by (simp add: replay_inv_def safe_store_def log_safe_def idx_def)
  show "now < d" if "deadline_of (persist_all idx) sid = Some d"
    using that inv by (simp add: replay_inv_def deadline_of_def persist_all_def idx_def)
qed

lemma replay_seq:
  assumes "r \<in> set rs" and "checked_add (lr_seq r) 1 = Some n"
  shows "n \<le> rp_next_seq (fold (replay_record C L now) rs st)"
proof -
  have grow: "m \<le> rp_next_seq (replay_record C L now x st)" if "m \<le> rp_next_seq st" for m x st
  proof (cases "checked_add (lr_seq x) 1")
    case None
    then show ?thesis using that by (simp add: replay_record_def)
  next
    case (Some q)
    then show ?thesis
      by (cases rule: replay_record_cases [where st = st and C = C and L = L and now = now]) (use that in \<open>auto simp: le_max_iff_disj\<close>)
  qed
  obtain p q where rs: "rs = p @ r # q" using assms(1) by (meson split_list)
  have "n \<le> rp_next_seq (replay_record C L now r (fold (replay_record C L now) p st))" using assms(2)
    by (cases rule: replay_record_cases [where st = "fold (replay_record C L now) p st" and C = C and L = L and now = now]) auto
  then show ?thesis unfolding rs fold_append fold_Cons comp_def
    by (rule fold_keeps [where P = "\<lambda>st. n \<le> rp_next_seq st"]) (rule grow)
qed

text \<open>Startup copes with any log. Whatever bytes the file holds, lines cut off or tampered with included,
  opening it succeeds with a consistent index: every entry is a session rebuilt from the log under the id
  computed from its own content, none has lapsed, and new records are numbered above all those read.\<close>

theorem open_any_log:
  assumes "log_safe C L (set (log_records C file))"
  shows "\<exists>w. jsonl_open C L False (Inr (Some file)) now = Inr w \<and> index_wf L (jl_index w) \<and>
    (\<forall>sid e. ent (jl_index w) sid = Some e \<longrightarrow> now < retention_until e \<and>
       (\<exists>s \<in> record_sessions C L (set (log_records C file)). session_id s = sid \<and> rebuild L (jl_index w) sid e = Some s)) \<and>
    (\<forall>r \<in> set (log_records C file). \<forall>n. checked_add (lr_seq r) 1 = Some n \<longrightarrow> n \<le> jl_next_seq w)"
proof -
  let ?st = "fold (replay_record C L now) (log_records C file) replay_start"
  let ?w = "\<lparr>jl_file = file, jl_next_seq = rp_next_seq ?st, needs_separator = False, jl_index = persist_all (rp_index ?st)\<rparr>"
  have safe: "safe_store L (record_sessions C L (set (log_records C file))) (jl_index ?w)" using open_safe(1) [OF assms] by simp
  have inv: "store_inv L (record_sessions C L (set (log_records C file))) (jl_index ?w)"
    and S: "sealed_set L (record_sessions C L (set (log_records C file)))" "hex_ok L" using safe by (simp_all add: safe_store_def)
  have "now < retention_until e \<and> (\<exists>s \<in> record_sessions C L (set (log_records C file)). session_id s = sid \<and>
      rebuild L (jl_index ?w) sid e = Some s)" if "ent (jl_index ?w) sid = Some e" for sid e
    using open_safe(2) [OF assms, where sid = sid and now = now] rebuild_original [OF inv S that] that by (simp add: deadline_of_def)
  moreover have "index_wf L (jl_index ?w)" using inv by (simp add: store_inv_def)
  ultimately show ?thesis using replay_seq jsonl_open_file by (intro exI [of _ ?w]) auto
qed


lemma record_sessions_plain:
  assumes "b64_ok L"
  shows "plain_set L (record_sessions C L R)"
  unfolding plain_set_def
proof (intro ballI allI impI)
  fix s ct x assume s: "s \<in> record_sessions C L R" "bundle_of L s = Some (ct, x)"
  then obtain ct' d b where ct': "plain_content_type ct'" "seal L (d\<lparr>evidence := evidence_from_bytes L ct' b\<rparr>) = Inr s"
    unfolding record_sessions_def by blast
  have "\<not> contains_str '';base64,'' ct'"
  proof
    assume "contains_str '';base64,'' ct'"
    then obtain p q where "ct' = p @ '';base64,'' @ q" unfolding contains_str_iff by blast
    then have "CHR '','' \<in> set ct'" by simp
    then show False using ct'(1) by (simp add: plain_content_type_def)
  qed
  from evidence_decode_from_bytes [OF assms this, of b] ct'(2)
  have "bundle_of L s = Some (ct', b)" by (auto simp: bundle_of_def seal_Inr)
  then show "plain_content_type ct" using s(2) ct'(1) by simp
qed

text \<open>Startup leaves the store in order. Whatever the log held, and also when its last line was cut off by a
  crash, opening it and the compaction that follows before requests are served establish the invariant under
  which acknowledged sessions survive, and every session read is durable until its deadline again.\<close>

theorem startup_restores_invariant:
  fixes now :: u64
  assumes "log_safe C L (set (log_records C file))" and "jsonl_open C L False (Inr (Some file)) now = Inr w"
  defines "S \<equiv> record_sessions C L (set (log_records C file))" and "idx \<equiv> evict_lapsed now (jl_index w)"
  assumes "codec_ok C S" and "length (bundles idx) + length (by_id idx) < 2 ^ 63"
    and "jsonl_compact C L None now w = (w', Inr kept)"
  shows "conf_inv C L S \<lparr>cf_store = w', cf_pending = None\<rparr> \<and>
    (\<forall>sid e. ent (jl_index w) sid = Some e \<longrightarrow> durable C L S \<lparr>cf_store = w', cf_pending = None\<rparr> sid (retention_until e))"
proof -
  have w: "jl_index w = persist_all (rp_index (fold (replay_record C L now) (log_records C file) replay_start))"
    using assms(2) jsonl_open_file [of C L "file" now] by auto
  have safe0: "safe_store L S (jl_index w)" unfolding w S_def by (rule open_safe(1) [OF assms(1)])
  have inv0: "store_inv L S (jl_index w)" using safe0 by (simp add: safe_store_def)
  then have safe: "safe_store L S idx" using safe0 evict_store_inv by (simp add: safe_store_def idx_def)
  have plain: "plain_set L S" unfolding S_def by (rule record_sessions_plain) (use assms(1) in \<open>simp add: log_safe_def\<close>)
  obtain lines where lines: "compact_lines C L now idx = Inr lines" "w' = compacted lines idx w"
    using assms(7) by (auto simp: jsonl_compact_def idx_def Let_def compacted_def split: sum.splits)
  let ?c = "\<lparr>cf_store = w, cf_pending = None\<rparr>"
  have c: "?c\<lparr>cf_store := compacted lines idx w\<rparr> = \<lparr>cf_store = w', cf_pending = None\<rparr>" by (simp add: lines(2))
  note fin = compacted_inv [OF safe assms(5) plain lines(1) assms(6), where c = ?c and w = w, unfolded c]
  have "durable C L S \<lparr>cf_store = w', cf_pending = None\<rparr> sid (retention_until e)" if e: "ent (jl_index w) sid = Some e" for sid e
  proof -
    have "now < retention_until e"
      using open_safe(2) [OF assms(1), where sid = sid and now = now] e unfolding w by (simp add: deadline_of_def)
    moreover have "keeps now (jl_index w) idx" unfolding idx_def using evict_keeps inv0 by (auto simp: store_inv_def)
    ultimately have "promised idx sid (retention_until e)" using promise_kept e by (auto simp: promised_ent)
    then show ?thesis using fin(2) by simp
  qed
  then show ?thesis using fin(1) by simp
qed

section \<open>A concrete log\<close>

definition sample_key :: "session_log_record \<Rightarrow> nat" where
  "sample_key r = to_nat (unat (lr_seq r), unat (lr_ts r), record_type r, lr_fingerprint r,
     map_option unat (lr_retention_until r), lr_content_type r, payload_b64 r)"

definition sample_record :: "nat \<Rightarrow> session_log_record" where
  "sample_record n = (case from_nat n of (sq, ts, ty, fp, ret, ct, p) \<Rightarrow>
     \<lparr>lr_seq = of_nat sq, lr_ts = of_nat ts, record_type = ty, lr_fingerprint = fp,
      lr_retention_until = map_option of_nat ret, lr_content_type = ct, payload_b64 = p\<rparr>)"

definition sample_codec :: codec where
  "sample_codec = \<lparr>record_to_string = (\<lambda>r. Some (replicate (Suc (sample_key r)) (CHR ''x''))),
     record_from_slice = (\<lambda>b. Some (sample_record (length b - 1))),
     document_to_vec = (\<lambda>d. Some (CHR ''d'' # replicate (to_nat (ev_digest (evidence d), ev_data (evidence d))) (CHR ''x''))),
     document_from_slice = (\<lambda>b. let (g, v) = from_nat (length b - 1)
       in Some ((sample_document 1 5)\<lparr>evidence := \<lparr>ev_digest = g, ev_data = v\<rparr>\<rparr>))\<rparr>"

lemma sample_key_record: "sample_record (sample_key r) = r"
  by (cases r) (simp add: sample_record_def sample_key_def option.map_comp comp_def option.map_ident)

lemma sample_codec_ok:
  assumes "document s = sample_document 1 5"
  shows "codec_ok sample_codec {s}"
proof -
  have trim: "trim_ascii (replicate n (CHR ''x'')) = replicate n (CHR ''x'')" for n
    by (simp add: trim_ascii_def is_ascii_whitespace_def)
  have doc: "d = (sample_document 1 5)\<lparr>evidence := evidence d\<rparr>"
    if "d\<lparr>evidence := evidence (document s)\<rparr> = document s" for d
    using that assms by (cases d) (simp add: sample_document_def)
  have "\<exists>t. record_to_string sample_codec r = Some t \<and> t \<noteq> [] \<and> newline \<notin> set t \<and> trim_ascii t = t \<and>
      record_from_slice sample_codec t = Some r" for r
    using trim [of "Suc (sample_key r)"]
    by (intro exI [of _ "replicate (Suc (sample_key r)) (CHR ''x'')"]) (simp add: sample_codec_def sample_key_record)
  moreover have "\<exists>b. document_to_vec sample_codec d = Some b \<and> document_from_slice sample_codec b = Some d"
    if "d\<lparr>evidence := evidence (document s)\<rparr> = document s" for d
  proof -
    have "(sample_document 1 5)\<lparr>evidence := \<lparr>ev_digest = ev_digest (evidence d), ev_data = ev_data (evidence d)\<rparr>\<rparr> = d"
      by (subst (3) doc [OF that]) (cases "evidence d", simp)
    then show ?thesis by (simp add: sample_codec_def)
  qed
  ultimately show ?thesis by (simp add: codec_ok_def)
qed

text \<open>A store with an empty log, after the write of the sample session.\<close>

definition sample_conf :: jsonl_conf where
  "sample_conf = \<lparr>cf_store = \<lparr>jl_file = [], jl_next_seq = 0, needs_separator = False, jl_index = index_default\<rparr>, cf_pending = None\<rparr>"

lemma sample_conf_inv:
  assumes "sealed_set sample_lib {s}" and "document s = sample_document 1 5" and "bundle_of sample_lib s = Some (''text/plain'', ''proof'')"
  shows "conf_inv sample_codec sample_lib {s} sample_conf"
proof -
  have "plain_content_type ''text/plain''" unfolding plain_content_type_def by code_simp
  then have "plain_set sample_lib {s}" using assms(3) by (simp add: plain_set_def)
  moreover have "bundles_logged sample_codec sample_lib [] index_default"
    by (simp add: bundles_logged_def bundles_sat_def index_default_def)
  ultimately show ?thesis using default_safe [OF assms(1)] sample_codec_ok [OF assms(2)]
    by (simp add: conf_inv_def sample_conf_def Let_def ends_line_def pending_ok_def)
qed

text \<open>The records of the log that holds the sample session.\<close>

definition sample_records :: "string \<Rightarrow> session_log_record list" where
  "sample_records doc = [evidence_record sample_lib 0 1 ''proof'', session_record sample_lib 1 1 ''channel'' 10 ''text/plain'' doc]"

lemma current_default: "current fp r now index_default = Inr (index_default, None)"
proof -
  have "evict_lapsed now index_default = index_default" by (simp add: evict_lapsed_def index_default_def)
  then show ?thesis by (simp add: current_def Let_def) (simp add: index_default_def)
qed

lemma sample_written:
  assumes "seal sample_lib (sample_document 1 5) = Inr s" and "sealed_set sample_lib {s}"
    and "bundle_of sample_lib s = Some (''text/plain'', ''proof'')"
  obtains c split doc where "c = jsonl_step sample_codec sample_lib (JSeal None ''channel'' 10 1 (Inr s)) sample_conf"
    "cf_pending c = Some (''channel'', split, 10, 1)" "conf_inv sample_codec sample_lib {s} c"
    "log_records sample_codec (jl_file (cf_store c)) = sample_records doc"
    "document_to_vec sample_codec (sp_stripped split) = Some doc" "split_session_new sample_lib s = Inr split"
proof -
  let ?s0 = "cf_store sample_conf"
  have sd: "document s = sample_document 1 5" using assms(1) by (simp add: seal_Inr)
  obtain split where split: "split_session_new sample_lib s = Inr split"
    using evidence_decode_digest [of sample_lib "evidence (document s)" "''text/plain''" "''proof''"] assms(3)
    by (simp add: split_session_new_def bundle_of_def Let_def)
  note sf = split_facts [OF sample_lib_laws(4) split]
  have ct: "sp_content_type split = ''text/plain''" "sp_bundle split = ''proof''" using sf(1) assms(3) by simp_all
  have exp: "expires_at (sp_stripped split) = 5" using arg_cong [OF sf(6), of expires_at] sd by (simp add: sample_document_def)
  have inv: "conf_inv sample_codec sample_lib {s} sample_conf" by (rule sample_conf_inv [OF assms(2) sd assms(3)])
  have C: "codec_ok sample_codec {s}" by (rule conf_parts(5) [OF inv])
  obtain doc where doc: "document_to_vec sample_codec (sp_stripped split) = Some doc" by (simp add: sample_codec_def)
  have idx: "jl_index ?s0 = index_default" "jl_next_seq ?s0 = 0" "needs_separator ?s0 = False" "jl_file ?s0 = []" "cf_pending sample_conf = None"
    by (simp_all add: sample_conf_def)
  obtain e where e: "record_line sample_codec (evidence_record sample_lib 0 1 ''proof'') = Inr e" using record_line_ok [OF C] by metis
  obtain t where t: "record_line sample_codec (session_record sample_lib 1 1 ''channel'' 10 ''text/plain'' doc) = Inr t"
    using record_line_ok [OF C] by metis
  have add: "checked_add 0 1 = Some 1" "checked_add 1 1 = Some 2" by (simp_all add: checked_add_def)
  have pers: "\<not> bundle_persisted index_default d" for d by (simp add: bundle_persisted_def index_default_def)
  have out: "append_text sample_codec sample_lib ''channel'' split 10 1 ?s0 = Inr (e @ t, 1, 2)"
    by (simp add: append_text_def idx pers evidence_line_def session_line_def ct doc e t add Let_def)
  obtain body rs where rs: "appended sample_codec sample_lib ''channel'' split 10 1 ?s0 rs"
    "log_records sample_codec (jl_file ?s0 @ e @ t) = log_records sample_codec (jl_file ?s0) @ rs"
    by (rule append_text_records [OF C out]) (auto simp: idx ends_line_def)
  have same: "?s0\<lparr>jl_index := index_default\<rparr> = ?s0" by (simp add: sample_conf_def)
  define c where "c = jsonl_step sample_codec sample_lib (JSeal None ''channel'' 10 1 (Inr s)) sample_conf"
  have c: "cf_store c = ?s0\<lparr>jl_file := e @ t, jl_next_seq := 2, needs_separator := False\<rparr>"
    "cf_pending c = Some (''channel'', split, 10, 1)"
    using out by (simp_all add: c_def seal_write_def lookup_index_def idx current_default split exp same append_write_def write_all_def Let_def)
  have "conf_inv sample_codec sample_lib {s} c"
    using jsonl_step_ok [OF inv, of "JSeal None ''channel'' 10 1 (Inr s)"] by (simp add: step_ok_def c_def idx)
  moreover have "log_records sample_codec (jl_file (cf_store c)) = sample_records doc"
    using rs by (simp add: c idx appended_def pers doc ct add sample_records_def)
  ultimately show ?thesis using that [OF c_def c(2)] doc split by blast
qed

lemma sample_log_decode: "b64_decode sample_lib (b64_encode sample_lib b) = Some b"
  using sample_lib_laws(4) by (simp add: b64_ok_def)

lemma sample_document_back:
  assumes "seal sample_lib (sample_document 1 5) = Inr s" and "split_session_new sample_lib s = Inr split"
    and "document_to_vec sample_codec (sp_stripped split) = Some doc"
  shows "document_from_slice sample_codec doc = Some (sp_stripped split)"
proof -
  have "codec_ok sample_codec {s}" using assms(1) by (intro sample_codec_ok) (simp add: seal_Inr)
  then show ?thesis using split_facts(6) [OF sample_lib_laws(4) assms(2)] assms(3) unfolding codec_ok_def by fastforce
qed

lemma sample_bundles_apart:
  assumes "document_to_vec sample_codec d = Some doc"
  shows "sha256 sample_lib ''proof'' \<noteq> sha256 sample_lib doc"
proof -
  obtain n where "doc = CHR ''d'' # replicate n (CHR ''x'')" using assms by (auto simp: sample_codec_def)
  then show ?thesis by (simp add: sample_lib_def sample_pad_def numeral_eq_Suc)
qed

lemma sample_log_safe:
  assumes s: "seal sample_lib (sample_document 1 5) = Inr s" "sealed_set sample_lib {s}"
    "bundle_of sample_lib s = Some (''text/plain'', ''proof'')"
    and split: "split_session_new sample_lib s = Inr split" "document_to_vec sample_codec (sp_stripped split) = Some doc"
  shows "log_safe sample_codec sample_lib (set (sample_records doc))" (is "log_safe _ _ ?R")
    and "record_sessions sample_codec sample_lib (set (sample_records doc)) \<subseteq> {s}"
proof -
  note sf = split_facts [OF sample_lib_laws(4) split(1)] and apart = sample_bundles_apart [OF split(2)]
  have R: "record_bundles sample_lib ?R = {''proof'', doc}"
    by (auto simp: sample_records_def record_bundles_def evidence_record_def session_record_def sample_log_decode)
  have no: "\<not> collision (sha256 sample_lib) b c" if "b \<in> {''proof'', doc}" "c \<in> {''proof'', doc}" for b c
    using that apart apart [symmetric] by (auto simp: collision_def)
  have only: "t = s" if "t \<in> record_sessions sample_codec sample_lib ?R" for t
  proof -
    from that obtain b where b: "b \<in> {''proof'', doc}"
      "ev_digest (evidence (sp_stripped split)) = Some (sha256_hex sample_lib b)"
      "seal sample_lib ((sp_stripped split)\<lparr>evidence := evidence_from_bytes sample_lib ''text/plain'' b\<rparr>) = Inr t"
      unfolding record_sessions_def R
      by (auto simp: sample_records_def evidence_record_def session_record_def sample_log_decode sample_document_back [OF s(1) split])
    have "sha256_hex sample_lib b = sha256_hex sample_lib ''proof''" using b(2) sf(1,3,4) s(3) by simp
    then have "sha256 sample_lib b = sha256 sample_lib ''proof''"
      using sample_lib_laws(3) by (simp add: sha256_hex_def hex_ok_inj)
    then have "b = ''proof''" using b(1) apart by auto
    then have "seal sample_lib (document s) = Inr t" using b(3) sf(1,5) s(3) by simp
    then show ?thesis using s(1,2) by (simp add: sealed_set_def)
  qed
  then show "record_sessions sample_codec sample_lib ?R \<subseteq> {s}" by blast
  have "sealed_set sample_lib (record_sessions sample_codec sample_lib ?R)"
    using only s(2) unfolding sealed_set_def by blast
  then show "log_safe sample_codec sample_lib ?R" using sample_lib_laws no unfolding log_safe_def R by blast
qed


theorem open_any_log_witness:
  "\<exists>file w. log_records sample_codec file \<noteq> [] \<and> jsonl_open sample_codec sample_lib False (Inr (Some file)) 2 = Inr w \<and>
     index_wf sample_lib (jl_index w)"
proof -
  obtain s where s: "seal sample_lib (sample_document 1 5) = Inr s" "sealed_set sample_lib {s}"
    "bundle_of sample_lib s = Some (''text/plain'', ''proof'')" by (rule sample_sealed)
  obtain c split doc where "c = jsonl_step sample_codec sample_lib (JSeal None ''channel'' 10 1 (Inr s)) sample_conf"
    "cf_pending c = Some (''channel'', split, 10, 1)" "conf_inv sample_codec sample_lib {s} c" and recs: "log_records sample_codec (jl_file (cf_store c)) = sample_records doc"
    and doc: "document_to_vec sample_codec (sp_stripped split) = Some doc" "split_session_new sample_lib s = Inr split"
    by (rule sample_written [OF s])
  have "log_safe sample_codec sample_lib (set (log_records sample_codec (jl_file (cf_store c))))"
    using sample_log_safe(1) [OF s doc(2,1)] recs by simp
  from open_any_log [OF this, of 2] obtain w where
    "jsonl_open sample_codec sample_lib False (Inr (Some (jl_file (cf_store c)))) 2 = Inr w" "index_wf sample_lib (jl_index w)" by blast
  then show ?thesis using recs by (intro exI [of _ "jl_file (cf_store c)"] exI [of _ w]) (simp add: sample_records_def)
qed

lemma record_line_total:
  assumes "codec_ok C S"
  shows "\<exists>l. record_line C r = Inr l"
proof -
  obtain t where "record_line C r = Inr (t @ [newline])" "log_records C (t @ [newline]) = [r]"
    by (rule record_line_ok [OF assms])
  then show ?thesis by simp
qed

lemma compact_succeeds:
  assumes safe: "safe_store L S (evict_lapsed now (jl_index w))" and C: "codec_ok C S"
  shows "\<exists>w' kept. jsonl_compact C L None now w = (w', Inr kept)"
proof -
  let ?idx = "evict_lapsed now (jl_index w)"
  have se: "\<exists>ls. try_map (\<lambda>(n, _, e). session_line C L (of_nat n) now (en_fingerprint e) (retention_until e)
      (en_content_type e) (en_stripped e)) (enumerate k (sessions_oldest_first ?idx)) = Inr ls" for k
  proof (intro try_map_total ballI, clarify)
    fix n sid e assume "(n, sid, e) \<in> set (enumerate k (sessions_oldest_first ?idx))"
    then have "(sid, e) \<in> set (by_id ?idx)" using set_enumerate_snd by (fastforce simp: sessions_oldest_first_def)
    then have "ent ?idx sid = Some e" using safe by (simp add: safe_store_def store_inv_def index_inv_def shape_wf_def)
    then obtain doc where "document_to_vec C (en_stripped e) = Some doc" by (rule entry_session [OF safe C])
    then show "\<exists>y. session_line C L (of_nat n) now (en_fingerprint e) (retention_until e) (en_content_type e) (en_stripped e) = Inr y"
      using record_line_total [OF C] by (simp add: session_line_def)
  qed
  obtain es where es: "try_map (\<lambda>(n, _, b). evidence_line C L (of_nat n) now (bu_bytes b)) (enumerate 0 (bundles ?idx)) = Inr es"
    using try_map_total [of "enumerate 0 (bundles ?idx)" "\<lambda>(n, _, b). evidence_line C L (of_nat n) now (bu_bytes b)"]
      record_line_total [OF C] unfolding evidence_line_def by fastforce
  obtain ls where "compact_lines C L now ?idx = Inr ls" using se [of "length es"] es by (auto simp: compact_lines_def)
  then show ?thesis by (simp add: jsonl_compact_def Let_def)
qed

lemma codec_ok_mono: "codec_ok C S \<Longrightarrow> T \<subseteq> S \<Longrightarrow> codec_ok C T"
  unfolding codec_ok_def by (meson subsetD)

lemma sample_replay:
  assumes s: "seal sample_lib (sample_document 1 5) = Inr s" "sealed_set sample_lib {s}"
    "bundle_of sample_lib s = Some (''text/plain'', ''proof'')"
    and split: "split_session_new sample_lib s = Inr split" "document_to_vec sample_codec (sp_stripped split) = Some doc"
  shows "rp_index (fold (replay_record sample_codec sample_lib 2) (sample_records doc) replay_start) =
    index_insert ''channel'' split 10 index_default"
proof -
  note sf = split_facts [OF sample_lib_laws(4) split(1)]
  have add: "checked_add 0 1 = Some 1" "checked_add 1 1 = Some 2" by (simp_all add: checked_add_def)
  have "\<not> contains_str '';base64'' ''text/plain''" by code_simp
  moreover have "CHR '','' \<notin> set ''text/plain''" by simp
  moreover have "sp_content_type split = ''text/plain''" "sp_bundle split = ''proof''" using sf(1) s(3) by simp_all
  moreover have "seal sample_lib (document s) = Inr s" using s(2) by (simp add: sealed_set_def)
  ultimately have "replay_session sample_codec sample_lib (session_record sample_lib 1 1 ''channel'' 10 ''text/plain'' doc)
      [(sha256_hex sample_lib ''proof'', ''proof'')] = Some split"
    using sample_document_back [OF s(1) split] sf split(1)
    by (simp add: replay_session_def session_record_def sample_log_decode)
  then show ?thesis
    by (simp add: sample_records_def replay_record_def evidence_record_def session_record_def sample_log_decode add Let_def
        RECORD_TYPE_EVIDENCE_def RECORD_TYPE_SESSION_def)
qed

theorem startup_restores_invariant_witness:
  "\<exists>file w w' kept S. log_records sample_codec file \<noteq> [] \<and> jsonl_open sample_codec sample_lib False (Inr (Some file)) 2 = Inr w \<and>
     jsonl_compact sample_codec sample_lib None 2 w = (w', Inr kept) \<and>
     conf_inv sample_codec sample_lib S \<lparr>cf_store = w', cf_pending = None\<rparr>"
proof -
  obtain s where s: "seal sample_lib (sample_document 1 5) = Inr s" "sealed_set sample_lib {s}"
    "bundle_of sample_lib s = Some (''text/plain'', ''proof'')" by (rule sample_sealed)
  obtain c split doc where "c = jsonl_step sample_codec sample_lib (JSeal None ''channel'' 10 1 (Inr s)) sample_conf"
    "cf_pending c = Some (''channel'', split, 10, 1)" "conf_inv sample_codec sample_lib {s} c" and
    recs: "log_records sample_codec (jl_file (cf_store c)) = sample_records doc"
    and doc: "document_to_vec sample_codec (sp_stripped split) = Some doc" "split_session_new sample_lib s = Inr split"
    by (rule sample_written [OF s])
  let ?f = "jl_file (cf_store c)" let ?S = "record_sessions sample_codec sample_lib (set (log_records sample_codec ?f))"
  have safe: "log_safe sample_codec sample_lib (set (log_records sample_codec ?f))" and sub: "?S \<subseteq> {s}"
    using sample_log_safe [OF s doc(2,1)] recs by simp_all
  obtain w where w: "jsonl_open sample_codec sample_lib False (Inr (Some ?f)) 2 = Inr w"
    "jl_index w = persist_all (index_insert ''channel'' split 10 index_default)"
    using jsonl_open_file [of sample_codec sample_lib ?f 2] sample_replay [OF s doc(2,1)] recs by simp
  let ?idx = "evict_lapsed 2 (jl_index w)"
  have exp: "expires_at (sp_stripped split) = 5"
    using arg_cong [OF split_facts(6) [OF sample_lib_laws(4) doc(2)], of expires_at] s(1) by (auto simp: seal_Inr sample_document_def)
  have "?idx = jl_index w"
    unfolding w(2) by (simp add: evict_lapsed_def persist_all_def index_insert_def index_default_def add_hint_def bucket_add_def exp Let_def)
  then have fits: "length (bundles ?idx) + length (by_id ?idx) < 2 ^ 63"
    unfolding w(2) by (simp add: persist_all_def index_insert_def index_default_def add_hint_def Let_def)
  have "codec_ok sample_codec {s}" using s(1) by (intro sample_codec_ok) (simp add: seal_Inr)
  then have C: "codec_ok sample_codec ?S" by (rule codec_ok_mono [OF _ sub])
  have "safe_store sample_lib ?S (jl_index w)"
    using open_safe(1) [OF safe, of 2] jsonl_open_file [of sample_codec sample_lib ?f 2] w(1) by simp
  then have "safe_store sample_lib ?S ?idx" using evict_store_inv [of sample_lib ?S "jl_index w" 2] by (simp add: safe_store_def)
  then obtain w' kept where cp: "jsonl_compact sample_codec sample_lib None 2 w = (w', Inr kept)" using compact_succeeds C by blast
  from startup_restores_invariant [OF safe w(1) C fits cp] w(1) cp recs show ?thesis
    by (intro exI [of _ ?f] exI [of _ w] exI [of _ w'] exI [of _ kept] exI [of _ ?S]) (simp add: sample_records_def)
qed

end
