(* ===== verification/ReceiptStore.thy ===== *)
theory ReceiptStore
  imports SessionMem
begin

text \<open>
  The receipt store (\<open>src/aggregator/service/receipt_store.rs\<close>) with its three indexes, the specification it
  refines (a map from ids to receipts with deadlines), and the publication of a receipt together with the
  retention of the session it cites (\<open>store_receipt\<close> of \<open>receipts.rs\<close>).
\<close>

section \<open>State and operations\<close>

record receipt_owner =
  auth_token_sha256 :: string

definition from_bearer :: "'x lib_scheme \<Rightarrow> string \<Rightarrow> receipt_owner" where
  "from_bearer L token = \<lparr>auth_token_sha256 = sha256_hex L token\<rparr>"

record stored_receipt =
  st_receipt :: signed_receipt
  st_owner :: "receipt_owner option"
  st_expires_at :: u64

record receipt_store =
  by_receipt :: "(string \<times> stored_receipt) list"
  by_chat :: "(string \<times> string) list"
  by_expiry :: buckets

definition receipt_store_default :: receipt_store where
  "receipt_store_default = \<lparr>by_receipt = [], by_chat = [], by_expiry = []\<rparr>"

definition drop_chat_mapping :: "stored_receipt \<Rightarrow> string \<Rightarrow> receipt_store \<Rightarrow> receipt_store" where
  "drop_chat_mapping entry rid st =
     (case sr_chat_id (st_receipt entry) of
        None \<Rightarrow> st
      | Some chat \<Rightarrow> if map_of (by_chat st) chat = Some rid then st\<lparr>by_chat := AList.delete chat (by_chat st)\<rparr> else st)"

definition drop_expiry_hint :: "string \<Rightarrow> u64 \<Rightarrow> receipt_store \<Rightarrow> receipt_store" where
  "drop_expiry_hint rid t st = st\<lparr>by_expiry := bucket_drop t rid (by_expiry st)\<rparr>"

definition store_remove :: "string \<Rightarrow> receipt_store \<Rightarrow> receipt_store" where
  "store_remove rid st =
     (case map_of (by_receipt st) rid of
        None \<Rightarrow> st
      | Some entry \<Rightarrow>
          let st = st\<lparr>by_receipt := AList.delete rid (by_receipt st)\<rparr>;
              st = drop_chat_mapping entry rid st
          in drop_expiry_hint rid (st_expires_at entry) st)"

definition store_insert :: "signed_receipt \<Rightarrow> receipt_owner option \<Rightarrow> u64 \<Rightarrow> receipt_store \<Rightarrow> receipt_store" where
  "store_insert receipt owner expires st =
     (let rid = sr_receipt_id receipt;
          st = store_remove rid st;
          st = (case sr_chat_id receipt of None \<Rightarrow> st | Some chat \<Rightarrow> st\<lparr>by_chat := AList.update chat rid (by_chat st)\<rparr>);
          st = st\<lparr>by_expiry := bucket_add expires rid (by_expiry st)\<rparr>
      in st\<lparr>by_receipt := AList.update rid \<lparr>st_receipt = receipt, st_owner = owner, st_expires_at = expires\<rparr> (by_receipt st)\<rparr>)"

definition evict_receipt :: "receipt_store \<Rightarrow> string \<Rightarrow> receipt_store" where
  "evict_receipt st rid =
     (case map_of (by_receipt st) rid of
        None \<Rightarrow> st
      | Some entry \<Rightarrow> drop_chat_mapping entry rid (st\<lparr>by_receipt := AList.delete rid (by_receipt st)\<rparr>))"

lemma drop_chat_frame [simp]:
  "by_receipt (drop_chat_mapping e rid st) = by_receipt st" "by_expiry (drop_chat_mapping e rid st) = by_expiry st"
  by (simp_all add: drop_chat_mapping_def split: option.split)

lemma evict_receipt_expiry [simp]: "by_expiry (evict_receipt st rid) = by_expiry st"
  by (simp add: evict_receipt_def split: option.split)

lemma evict_receipts_expiry [simp]: "by_expiry (foldl evict_receipt st ids) = by_expiry st"
  by (induction ids arbitrary: st) simp_all

text \<open>The loop pops one bucket a turn, so it ends with the buckets.\<close>

function evict_expired :: "u64 \<Rightarrow> receipt_store \<Rightarrow> receipt_store" where
  "evict_expired now st =
     (case by_expiry st of
        [] \<Rightarrow> st
      | (t, ids) # rest \<Rightarrow>
          if t > now then st else evict_expired now (foldl evict_receipt (st\<lparr>by_expiry := rest\<rparr>) ids))"
  by pat_completeness auto
termination
  by (relation "measure (\<lambda>(now, st). length (by_expiry st))") auto

declare evict_expired.simps [simp del]

definition receipt_put :: "signed_receipt \<Rightarrow> receipt_owner option \<Rightarrow> u64 \<Rightarrow> u64 \<Rightarrow> receipt_store \<Rightarrow> receipt_store" where
  "receipt_put receipt owner now expires st = store_insert receipt owner expires (evict_expired now st)"

definition get_by_receipt_id :: "string \<Rightarrow> u64 \<Rightarrow> receipt_store \<Rightarrow> receipt_store \<times> signed_receipt option" where
  "get_by_receipt_id rid now st =
     (case map_of (by_receipt st) rid of
        None \<Rightarrow> (st, None)
      | Some entry \<Rightarrow>
          if now \<ge> st_expires_at entry then (store_remove rid st, None)
          else (st, map_option st_receipt (map_of (by_receipt st) rid)))"

definition get_by_chat_id :: "string \<Rightarrow> u64 \<Rightarrow> receipt_store \<Rightarrow> receipt_store \<times> signed_receipt option" where
  "get_by_chat_id chat now st =
     (case map_of (by_chat st) chat of
        None \<Rightarrow> (st, None)
      | Some rid \<Rightarrow>
          (case map_of (by_receipt st) rid of
             None \<Rightarrow> (st, None)
           | Some entry \<Rightarrow>
               if now \<ge> st_expires_at entry then (store_remove rid st, None)
               else (st, map_option st_receipt (map_of (by_receipt st) rid))))"

definition owner_of :: "string \<Rightarrow> u64 \<Rightarrow> receipt_store \<Rightarrow> receipt_store \<times> receipt_owner option" where
  "owner_of rid now st =
     (case map_of (by_receipt st) rid of
        None \<Rightarrow> (st, None)
      | Some entry \<Rightarrow>
          if now \<ge> st_expires_at entry then (store_remove rid st, None)
          else (st, Option.bind (map_of (by_receipt st) rid) st_owner))"

section \<open>Publication\<close>

text \<open>\<open>ext\<close> is \<open>extend_retention\<close> of the session store in use.\<close>

datatype service_error = SessionStoreError store_error

definition store_receipt ::
  "(session_lease \<Rightarrow> u64 \<Rightarrow> 's \<Rightarrow> 's \<times> (store_error + unit)) \<Rightarrow> signed_receipt \<Rightarrow> receipt_owner option \<Rightarrow> u64 \<Rightarrow> u64
     \<Rightarrow> session_lease option \<Rightarrow> 's \<Rightarrow> receipt_store \<Rightarrow> 's \<times> receipt_store \<times> (service_error + unit)" where
  "store_receipt ext receipt requester now ttl lease sessions st =
     (let expires = saturating_add now ttl
      in case (case lease of None \<Rightarrow> (sessions, Inr ())
           | Some l \<Rightarrow> (case ext l expires sessions of (s, r) \<Rightarrow> (s, map_err SessionStoreError r))) of
           (sessions, Inl e) \<Rightarrow> (sessions, st, Inl e)
         | (sessions, Inr _) \<Rightarrow> (sessions, receipt_put receipt requester now expires st, Inr ()))"

section \<open>The invariant\<close>

declare map_of_eq_Some_iff [simp del]

definition receipt_store_wf :: "receipt_store \<Rightarrow> bool" where
  "receipt_store_wf st = (hm_wf (by_receipt st) \<and> hm_wf (by_chat st) \<and> buckets_wf (by_expiry st) \<and>
     (\<forall>rid t. rid \<in> bucket (by_expiry st) t \<longleftrightarrow> (\<exists>e. map_of (by_receipt st) rid = Some e \<and> st_expires_at e = t)) \<and>
     (\<forall>chat rid. map_of (by_chat st) chat = Some rid \<longrightarrow>
        (\<exists>e. map_of (by_receipt st) rid = Some e \<and> sr_chat_id (st_receipt e) = Some chat)) \<and>
     (\<forall>rid e. map_of (by_receipt st) rid = Some e \<longrightarrow> sr_receipt_id (st_receipt e) = rid))"

lemma receipt_store_default_wf: "receipt_store_wf receipt_store_default"
  by (simp add: receipt_store_wf_def receipt_store_default_def)

lemma drop_chat_by_chat:
  "map_of (by_chat (drop_chat_mapping e rid st)) chat =
     (if sr_chat_id (st_receipt e) = Some chat \<and> map_of (by_chat st) chat = Some rid then None else map_of (by_chat st) chat)"
  by (auto simp: drop_chat_mapping_def split: option.split)

lemma drop_chat_hm_wf: "hm_wf (by_chat st) \<Longrightarrow> hm_wf (by_chat (drop_chat_mapping e rid st))"
  by (simp add: drop_chat_mapping_def split: option.split)

text \<open>The hints and the chat index of a store, up to the buckets \<open>D\<close> popped but not yet emptied.\<close>

definition store_inv_upto :: "(u64 \<times> string) set \<Rightarrow> receipt_store \<Rightarrow> bool" where
  "store_inv_upto D st = (hm_wf (by_receipt st) \<and> hm_wf (by_chat st) \<and> buckets_wf (by_expiry st) \<and>
     (\<forall>rid t. (rid \<in> bucket (by_expiry st) t \<or> (t, rid) \<in> D) \<longleftrightarrow> (\<exists>e. map_of (by_receipt st) rid = Some e \<and> st_expires_at e = t)) \<and>
     (\<forall>chat rid. map_of (by_chat st) chat = Some rid \<longrightarrow>
        (\<exists>e. map_of (by_receipt st) rid = Some e \<and> sr_chat_id (st_receipt e) = Some chat)) \<and>
     (\<forall>rid e. map_of (by_receipt st) rid = Some e \<longrightarrow> sr_receipt_id (st_receipt e) = rid))"

lemma wf_upto: "receipt_store_wf st = store_inv_upto {} st"
  by (simp add: receipt_store_wf_def store_inv_upto_def)

lemma evict_receipt_inv:
  assumes "store_inv_upto (insert (t, rid) D) st" and "(t, rid) \<notin> D" and "rid \<notin> bucket (by_expiry st) t"
  shows "store_inv_upto D (evict_receipt st rid)"
    and "map_of (by_receipt (evict_receipt st rid)) = (map_of (by_receipt st))(rid := None)"
proof -
  obtain e where e: "map_of (by_receipt st) rid = Some e" "st_expires_at e = t"
    using assms(1) unfolding store_inv_upto_def by blast
  let ?st = "st\<lparr>by_receipt := AList.delete rid (by_receipt st)\<rparr>"
  have ev: "evict_receipt st rid = drop_chat_mapping e rid ?st" by (simp add: evict_receipt_def e)
  show "map_of (by_receipt (evict_receipt st rid)) = (map_of (by_receipt st))(rid := None)" by (simp add: ev)
  have chat: "map_of (by_chat st) c = Some k \<and> k \<noteq> rid" if "map_of (by_chat (drop_chat_mapping e rid ?st)) c = Some k" for c k
  proof -
    have c: "map_of (by_chat st) c = Some k" "\<not> (sr_chat_id (st_receipt e) = Some c \<and> k = rid)"
      using that unfolding drop_chat_by_chat by (auto split: if_splits)
    then obtain f where "map_of (by_receipt st) k = Some f" "sr_chat_id (st_receipt f) = Some c"
      using assms(1) unfolding store_inv_upto_def by blast
    then show ?thesis using c e(1) by auto
  qed
  have hint: "(k \<in> bucket (by_expiry st) u \<or> (u, k) = (t, rid) \<or> (u, k) \<in> D) \<longleftrightarrow>
      (\<exists>e. map_of (by_receipt st) k = Some e \<and> st_expires_at e = u)" for k u
    using assms(1) by (simp add: store_inv_upto_def)
  have "(k \<in> bucket (by_expiry st) u \<or> (u, k) \<in> D) \<longleftrightarrow> k \<noteq> rid \<and> (\<exists>e. map_of (by_receipt st) k = Some e \<and> st_expires_at e = u)" for k u
  proof (cases "k = rid")
    case True
    then show ?thesis using hint [of rid u] e assms(2,3) by (cases "u = t") auto
  next
    case False
    then show ?thesis using hint [of k u] by simp
  qed
  then have "(k \<in> bucket (by_expiry (evict_receipt st rid)) u \<or> (u, k) \<in> D) \<longleftrightarrow>
      (\<exists>e. map_of (by_receipt (evict_receipt st rid)) k = Some e \<and> st_expires_at e = u)" for k u by (simp add: ev)
  moreover have "\<exists>f. map_of (by_receipt (evict_receipt st rid)) k = Some f \<and> sr_chat_id (st_receipt f) = Some c"
    if "map_of (by_chat (evict_receipt st rid)) c = Some k" for c k
    using chat [OF that [unfolded ev]] assms(1) unfolding store_inv_upto_def by (simp add: ev)
  moreover have "sr_receipt_id (st_receipt f) = k" if "map_of (by_receipt (evict_receipt st rid)) k = Some f" for k f
    using that assms(1) by (simp add: ev store_inv_upto_def split: if_splits)
  moreover have "hm_wf (by_receipt (evict_receipt st rid)) \<and> hm_wf (by_chat (evict_receipt st rid)) \<and> buckets_wf (by_expiry (evict_receipt st rid))"
    using assms(1) drop_chat_hm_wf [of ?st e rid] by (simp add: ev store_inv_upto_def)
  ultimately show "store_inv_upto D (evict_receipt st rid)" unfolding store_inv_upto_def by blast
qed

lemma evict_receipts_inv:
  assumes "store_inv_upto ({t} \<times> set ids) st" and "distinct ids" and "bucket (by_expiry st) t = {}"
  shows "receipt_store_wf (foldl evict_receipt st ids) \<and>
    map_of (by_receipt (foldl evict_receipt st ids)) = (\<lambda>rid. if rid \<in> set ids then None else map_of (by_receipt st) rid)"
  using assms
proof (induction ids arbitrary: st)
  case Nil
  then show ?case by (simp add: wf_upto)
next
  case (Cons r ids)
  have split: "{t} \<times> set (r # ids) = insert (t, r) ({t} \<times> set ids)" by auto
  note step = evict_receipt_inv [OF Cons.prems(1) [unfolded split]]
  have "receipt_store_wf (foldl evict_receipt (evict_receipt st r) ids) \<and>
    map_of (by_receipt (foldl evict_receipt (evict_receipt st r) ids)) =
      (\<lambda>rid. if rid \<in> set ids then None else map_of (by_receipt (evict_receipt st r)) rid)"
    using Cons.prems(2,3) step by (intro Cons.IH) auto
  then show ?case using step(2) Cons.prems(2,3) by (auto simp: fun_eq_iff)
qed

lemma buckets_wf_tl: "buckets_wf ((t, ids) # m) \<Longrightarrow> buckets_wf m \<and> distinct ids \<and> t \<notin> fst ` set m"
proof -
  assume wf: "buckets_wf ((t, ids) # m)"
  have less: "\<forall>x \<in> set m. t < fst x" and "bt_wf m" using wf by (auto simp: buckets_wf_def)
  then have t: "t \<notin> fst ` set m" by auto
  have "map_of ((t, ids) # m) u = Some v" if "map_of m u = Some v" for u v
    using that t by (auto dest: map_of_SomeD intro: rev_image_eqI)
  then have "v \<noteq> [] \<and> distinct v" if "map_of m u = Some v" for u v using that wf unfolding buckets_wf_def by blast
  moreover have "distinct ids" using wf unfolding buckets_wf_def by (auto dest!: spec [of _ t])
  ultimately show ?thesis using \<open>bt_wf m\<close> t by (simp add: buckets_wf_def)
qed

lemma bucket_Cons: "bucket ((t, ids) # m) u = (if u = t then set ids else bucket m u)"
  by (simp add: bucket_def)

lemma bucket_no_key: "t \<notin> fst ` set m \<Longrightarrow> bucket m t = {}"
  using bucket_key by blast

text \<open>Eviction ends, keeps the store consistent, and removes exactly the receipts whose deadline has passed.\<close>

lemma evict_expired_ok:
  assumes "receipt_store_wf st"
  shows "receipt_store_wf (evict_expired now st) \<and> map_of (by_receipt (evict_expired now st)) =
    (\<lambda>rid. case map_of (by_receipt st) rid of Some e \<Rightarrow> if st_expires_at e \<le> now then None else Some e | None \<Rightarrow> None)"
  using assms
proof (induction now st rule: evict_expired.induct)
  case (1 now st)
  have hint: "rid \<in> bucket (by_expiry st) u \<longleftrightarrow> (\<exists>e. map_of (by_receipt st) rid = Some e \<and> st_expires_at e = u)" for rid u
    using "1.prems" by (simp add: receipt_store_wf_def)
  show ?case
  proof (cases "by_expiry st")
    case Nil
    then have "map_of (by_receipt st) rid = None" for rid using hint [of rid] by (cases "map_of (by_receipt st) rid") auto
    then show ?thesis using "1.prems" Nil by (simp add: evict_expired.simps [of now st])
  next
    case (Cons p rest)
    obtain t ids where p: "p = (t, ids)" by fastforce
    have wf: "buckets_wf rest" "distinct ids" "t \<notin> fst ` set rest"
      using "1.prems" Cons p buckets_wf_tl [of t ids rest] by (simp_all add: receipt_store_wf_def)
    have keys: "u = t \<or> t < u" if "rid \<in> bucket (by_expiry st) u" for rid u
    proof -
      have "bt_wf (by_expiry st)" using "1.prems" by (simp add: receipt_store_wf_def buckets_wf_def)
      then show ?thesis using bucket_key [OF that] Cons p by auto
    qed
    show ?thesis
    proof (cases "t > now")
      case True
      have "\<not> st_expires_at e \<le> now" if "map_of (by_receipt st) rid = Some e" for rid e
        using keys [of rid "st_expires_at e"] hint [of rid "st_expires_at e"] that True by auto
      then have "map_of (by_receipt st) = (\<lambda>rid. case map_of (by_receipt st) rid of
          Some e \<Rightarrow> if st_expires_at e \<le> now then None else Some e | None \<Rightarrow> None)"
        by (simp add: fun_eq_iff split: option.split)
      then show ?thesis using "1.prems" Cons p True by (simp add: evict_expired.simps [of now st])
    next
      case False
      let ?st1 = "st\<lparr>by_expiry := rest\<rparr>"
      have "(rid \<in> bucket rest u \<or> (u, rid) \<in> {t} \<times> set ids) \<longleftrightarrow> rid \<in> bucket (by_expiry st) u" for rid u
        using bucket_no_key [OF wf(3)] by (auto simp: Cons p bucket_Cons)
      then have "store_inv_upto ({t} \<times> set ids) ?st1"
        using "1.prems" wf(1) by (simp add: receipt_store_wf_def store_inv_upto_def)
      then have step: "receipt_store_wf (foldl evict_receipt ?st1 ids) \<and> map_of (by_receipt (foldl evict_receipt ?st1 ids)) =
          (\<lambda>rid. if rid \<in> set ids then None else map_of (by_receipt st) rid)"
        using evict_receipts_inv [of t ids ?st1] wf bucket_no_key [OF wf(3)] by (simp add: fun_eq_iff)
      have in_bucket: "rid \<in> set ids \<longleftrightarrow> (\<exists>e. map_of (by_receipt st) rid = Some e \<and> st_expires_at e = t)" for rid
        using hint [of rid t] Cons p by (simp add: bucket_Cons)
      note IH = "1.IH" [OF Cons p [symmetric] False step [THEN conjunct1]]
      have "evict_expired now st = evict_expired now (foldl evict_receipt ?st1 ids)"
        using Cons p False by (simp add: evict_expired.simps [of now st])
      moreover have "map_of (by_receipt (evict_expired now (foldl evict_receipt ?st1 ids))) rid =
          (case map_of (by_receipt st) rid of Some e \<Rightarrow> if st_expires_at e \<le> now then None else Some e | None \<Rightarrow> None)" for rid
        using IH step in_bucket [of rid] False by (cases "rid \<in> set ids") (auto simp: not_less split: option.split)
      ultimately show ?thesis using IH by (simp add: fun_eq_iff)
    qed
  qed
qed

section \<open>Removal and insertion\<close>

lemma store_remove_ok:
  assumes wf: "receipt_store_wf st"
  shows "receipt_store_wf (store_remove rid st)"
    and "map_of (by_receipt (store_remove rid st)) = (map_of (by_receipt st))(rid := None)"
    and "map_of (by_chat (store_remove rid st)) chat \<noteq> Some rid"
    and "map_of (by_chat st) chat = Some k \<Longrightarrow> k \<noteq> rid \<Longrightarrow> map_of (by_chat (store_remove rid st)) chat = Some k"
proof -
  have "receipt_store_wf (store_remove rid st) \<and> map_of (by_receipt (store_remove rid st)) = (map_of (by_receipt st))(rid := None) \<and>
    map_of (by_chat (store_remove rid st)) chat \<noteq> Some rid \<and>
    (map_of (by_chat st) chat = Some k \<longrightarrow> k \<noteq> rid \<longrightarrow> map_of (by_chat (store_remove rid st)) chat = Some k)"
  proof (cases "map_of (by_receipt st) rid")
    case None
    have "map_of (by_chat st) chat \<noteq> Some rid" using wf None unfolding receipt_store_wf_def by fastforce
    then show ?thesis using wf None by (auto simp: store_remove_def)
  next
    case (Some e)
    let ?t = "st_expires_at e"
    let ?st1 = "st\<lparr>by_expiry := bucket_drop ?t rid (by_expiry st)\<rparr>"
    have rem: "store_remove rid st = evict_receipt ?st1 rid"
      using Some by (simp add: store_remove_def evict_receipt_def drop_expiry_hint_def drop_chat_mapping_def Let_def split: option.split)
    have "(k \<in> bucket (by_expiry ?st1) u \<or> (u, k) = (?t, rid)) \<longleftrightarrow> (\<exists>e. map_of (by_receipt st) k = Some e \<and> st_expires_at e = u)" for k u
      using wf Some by (auto simp: receipt_store_wf_def bucket_drop)
    then have "store_inv_upto (insert (?t, rid) {}) ?st1"
      using wf buckets_wf_drop by (simp add: receipt_store_wf_def store_inv_upto_def)
    note step = evict_receipt_inv [OF this]
    have "map_of (by_chat (evict_receipt ?st1 rid)) c =
        (if sr_chat_id (st_receipt e) = Some c \<and> map_of (by_chat st) c = Some rid then None else map_of (by_chat st) c)" for c
      using Some by (simp add: evict_receipt_def drop_chat_by_chat)
    moreover have "sr_chat_id (st_receipt e) = Some c" if "map_of (by_chat st) c = Some rid" for c
      using wf that Some unfolding receipt_store_wf_def by fastforce
    ultimately show ?thesis using step unfolding rem wf_upto by (auto simp: bucket_drop)
  qed
  then show "receipt_store_wf (store_remove rid st)"
    "map_of (by_receipt (store_remove rid st)) = (map_of (by_receipt st))(rid := None)"
    "map_of (by_chat (store_remove rid st)) chat \<noteq> Some rid"
    "map_of (by_chat st) chat = Some k \<Longrightarrow> k \<noteq> rid \<Longrightarrow> map_of (by_chat (store_remove rid st)) chat = Some k" by blast+
qed

lemma store_insert_ok:
  fixes r :: signed_receipt
  assumes wf: "receipt_store_wf st"
  defines "rid \<equiv> sr_receipt_id r"
  shows "receipt_store_wf (store_insert r owner ex st)"
    and "map_of (by_receipt (store_insert r owner ex st)) =
      (map_of (by_receipt st))(rid \<mapsto> \<lparr>st_receipt = r, st_owner = owner, st_expires_at = ex\<rparr>)"
    and "sr_chat_id r = Some chat \<Longrightarrow> map_of (by_chat (store_insert r owner ex st)) chat = Some rid"
proof -
  let ?s = "store_remove rid st" and ?e = "\<lparr>st_receipt = r, st_owner = owner, st_expires_at = ex\<rparr>"
  note rm = store_remove_ok [OF wf, of rid]
  define chats where "chats = (case sr_chat_id r of None \<Rightarrow> by_chat ?s | Some c \<Rightarrow> AList.update c rid (by_chat ?s))"
  have ins: "store_insert r owner ex st = ?s\<lparr>by_chat := chats, by_expiry := bucket_add ex rid (by_expiry ?s),
      by_receipt := AList.update rid ?e (by_receipt ?s)\<rparr>"
    by (simp add: store_insert_def rid_def chats_def Let_def split: option.split)
  show recs: "map_of (by_receipt (store_insert r owner ex st)) = (map_of (by_receipt st))(rid \<mapsto> ?e)"
    by (simp add: ins rm(2))
  show "map_of (by_chat (store_insert r owner ex st)) chat = Some rid" if "sr_chat_id r = Some chat"
    by (simp add: ins chats_def that)
  have gone: "map_of (by_receipt ?s) rid = None" by (simp add: rm(2))
  have hint: "k \<in> bucket (by_expiry ?s) u \<longleftrightarrow> (\<exists>e. map_of (by_receipt ?s) k = Some e \<and> st_expires_at e = u)" for k u
    using rm(1) by (simp add: receipt_store_wf_def)
  have "k \<in> bucket (bucket_add ex rid (by_expiry ?s)) u \<longleftrightarrow>
      (\<exists>e. ((map_of (by_receipt ?s))(rid \<mapsto> ?e)) k = Some e \<and> st_expires_at e = u)" for k u
    using hint [of k u] gone by (auto simp: bucket_add)
  moreover have "\<exists>f. ((map_of (by_receipt ?s))(rid \<mapsto> ?e)) k = Some f \<and> sr_chat_id (st_receipt f) = Some c"
    if "map_of chats c = Some k" for c k
    using that rm(1,3) unfolding chats_def receipt_store_wf_def by (auto split: option.splits if_splits)
  ultimately show "receipt_store_wf (store_insert r owner ex st)"
    using rm(1) unfolding receipt_store_wf_def ins
    by (auto simp: buckets_wf_add chats_def rid_def split: option.splits if_splits)
qed

section \<open>Properties\<close>

text \<open>What the store promises: a map from ids to receipts, each live until its deadline.\<close>

definition live :: "receipt_store \<Rightarrow> u64 \<Rightarrow> string \<Rightarrow> stored_receipt option" where
  "live st now rid = (case map_of (by_receipt st) rid of
     Some e \<Rightarrow> if now < st_expires_at e then Some e else None | None \<Rightarrow> None)"

lemma store_remove_live:
  assumes "receipt_store_wf st" and "map_of (by_receipt st) rid = Some e" and "st_expires_at e \<le> now" and "now \<le> t"
  shows "live (store_remove rid st) t = live st t"
proof -
  have "\<not> t < st_expires_at e" using assms(3,4) by simp
  then show ?thesis using store_remove_ok(2) [OF assms(1), of rid] assms(2) by (auto simp: live_def fun_eq_iff)
qed

lemma get_by_receipt_id_ok:
  assumes "receipt_store_wf st"
  shows "snd (get_by_receipt_id rid now st) = map_option st_receipt (live st now rid)"
    and "receipt_store_wf (fst (get_by_receipt_id rid now st))"
    and "now \<le> t \<Longrightarrow> live (fst (get_by_receipt_id rid now st)) t = live st t"
  using store_remove_live [OF assms] store_remove_ok(1) [OF assms] assms
  by (auto simp: get_by_receipt_id_def live_def not_less leD split: option.splits)

lemma get_by_chat_id_ok:
  assumes "receipt_store_wf st"
  shows "snd (get_by_chat_id chat now st) = Option.bind (map_of (by_chat st) chat) (\<lambda>rid. map_option st_receipt (live st now rid))"
    and "receipt_store_wf (fst (get_by_chat_id chat now st))"
    and "now \<le> t \<Longrightarrow> live (fst (get_by_chat_id chat now st)) t = live st t"
  using store_remove_live [OF assms] store_remove_ok(1) [OF assms] assms
  by (auto simp: get_by_chat_id_def live_def not_less leD split: option.splits)

lemma owner_of_ok:
  assumes "receipt_store_wf st"
  shows "snd (owner_of rid now st) = Option.bind (live st now rid) st_owner"
    and "receipt_store_wf (fst (owner_of rid now st))"
    and "now \<le> t \<Longrightarrow> live (fst (owner_of rid now st)) t = live st t"
  using store_remove_live [OF assms] store_remove_ok(1) [OF assms] assms
  by (auto simp: owner_of_def live_def not_less leD split: option.splits)

lemma receipt_put_ok:
  assumes "receipt_store_wf st"
  shows "receipt_store_wf (receipt_put r owner now ex st)"
    and "map_of (by_receipt (receipt_put r owner now ex st)) (sr_receipt_id r) = Some \<lparr>st_receipt = r, st_owner = owner, st_expires_at = ex\<rparr>"
    and "now \<le> t \<Longrightarrow> live (receipt_put r owner now ex st) t =
      (live st t)(sr_receipt_id r := if t < ex then Some \<lparr>st_receipt = r, st_owner = owner, st_expires_at = ex\<rparr> else None)"
    and "sr_chat_id r = Some chat \<Longrightarrow> map_of (by_chat (receipt_put r owner now ex st)) chat = Some (sr_receipt_id r)"
proof -
  note ev = evict_expired_ok [OF assms, of now]
  note ins = store_insert_ok [OF ev [THEN conjunct1], where r = r and owner = owner and ex = ex]
  show "receipt_store_wf (receipt_put r owner now ex st)" using ins(1) by (simp add: receipt_put_def)
  show "map_of (by_receipt (receipt_put r owner now ex st)) (sr_receipt_id r) = Some \<lparr>st_receipt = r, st_owner = owner, st_expires_at = ex\<rparr>"
    by (simp add: receipt_put_def ins(2))
  show "map_of (by_chat (receipt_put r owner now ex st)) chat = Some (sr_receipt_id r)" if "sr_chat_id r = Some chat"
    using ins(3) [OF that] by (simp add: receipt_put_def)
  show "live (receipt_put r owner now ex st) t =
      (live st t)(sr_receipt_id r := if t < ex then Some \<lparr>st_receipt = r, st_owner = owner, st_expires_at = ex\<rparr> else None)"
    if "now \<le> t"
  proof
    fix k
    have "st_expires_at e \<le> now \<Longrightarrow> \<not> t < st_expires_at e" for e :: stored_receipt using that by (meson leD order_trans)
    then show "live (receipt_put r owner now ex st) t k = ((live st t)(sr_receipt_id r := if t < ex then
        Some \<lparr>st_receipt = r, st_owner = owner, st_expires_at = ex\<rparr> else None)) k"
      using ev by (auto simp: live_def receipt_put_def ins(2) split: option.splits)
  qed
qed

text \<open>C29: The receipt store implements a map with deadlines. Whatever the three indexes hold, storing a receipt
  makes it, with its owner, the live entry of its id until its deadline, under its id and its chat id, and
  leaves every other live entry as it was; the lookups return exactly the live entry, and none of them changes
  what is live from then on.\<close>

theorem receipt_store_refines:
  fixes r :: signed_receipt and owner :: "receipt_owner option" and ex :: u64
  assumes "receipt_store_wf st" and "now \<le> t"
  defines "e \<equiv> \<lparr>st_receipt = r, st_owner = owner, st_expires_at = ex\<rparr>" and "st' \<equiv> receipt_put r owner now ex st"
  shows "receipt_store_wf st' \<and> live st' t = (live st t)(sr_receipt_id r := if t < ex then Some e else None) \<and>
    (sr_chat_id r = Some chat \<longrightarrow> snd (get_by_chat_id chat t st') = (if t < ex then Some r else None)) \<and>
    snd (get_by_receipt_id rid t st) = map_option st_receipt (live st t rid) \<and>
    snd (owner_of rid t st) = Option.bind (live st t rid) st_owner \<and>
    live (fst (get_by_receipt_id rid now st)) t = live st t \<and> live (fst (get_by_chat_id chat now st)) t = live st t \<and>
    live (fst (owner_of rid now st)) t = live st t"
proof -
  note put = receipt_put_ok [OF assms(1), where r = r and owner = owner and now = now and ex = ex]
  have "snd (get_by_chat_id chat t st') = (if t < ex then Some r else None)" if "sr_chat_id r = Some chat"
    using get_by_chat_id_ok(1) [OF put(1), of chat t] put(4) [OF that] put(2) by (simp add: st'_def live_def)
  then show ?thesis
    using put(1) put(3) [OF assms(2)] get_by_receipt_id_ok [OF assms(1)] get_by_chat_id_ok(3) [OF assms(1)] owner_of_ok [OF assms(1)] assms(2)
    by (simp add: e_def st'_def)
qed

definition sample_receipt :: "string \<Rightarrow> signed_receipt" where
  "sample_receipt rid = \<lparr>sr_receipt_id = rid, sr_chat_id = Some ''chat-1'', sr_workload_keyset_digest = ''digest'',
     sr_document = ''{}'', sr_key_id = ''key'', sr_signature_hex = ''00''\<rparr>"

theorem receipt_store_refines_witness:
  "snd (get_by_chat_id ''chat-1'' 7 (receipt_put (sample_receipt ''rcpt-1'') None 5 10 receipt_store_default)) = Some (sample_receipt ''rcpt-1'')"
proof -
  have "(5 :: u64) \<le> 7" by simp
  from receipt_store_refines [OF receipt_store_default_wf this, where r = "sample_receipt ''rcpt-1''" and owner = None and ex = 10
      and chat = "''chat-1''"]
  show ?thesis by (simp add: sample_receipt_def)
qed

text \<open>C11: A receipt never outlives the session it cites. When a receipt is published with the lease of its
  session, then at any later time at which the receipt can be fetched, and after any operations on the session
  store up to that time, the cited session is served too, as it was sealed.\<close>

theorem cited_session_retained:
  assumes "safe_store L S sessions" and "lease_ok l sessions"
    and "store_receipt mem_extend_retention receipt owner now ttl (Some l) sessions st = (sessions', st', Inr ())"
    and "receipt_store_wf st"
    and "map_of (by_receipt st'') (sr_receipt_id receipt) = map_of (by_receipt st') (sr_receipt_id receipt)"
    and "receipt_store_wf st''" and "snd (get_by_receipt_id (sr_receipt_id receipt) t st'') = Some receipt"
    and "run_ok (mem_ok S) (mem_step L) ops sessions'" and "\<And>op n. op \<in> set ops \<Longrightarrow> mem_clock op = Some n \<Longrightarrow> n \<le> t"
  shows "\<exists>s \<in> S. session_id s = ls_session_id l \<and>
    snd (mem_get_session L (ls_session_id l) t (run (mem_step L) ops sessions')) = Some s"
proof -
  let ?ex = "saturating_add now ttl"
  obtain idx where idx: "SessionIndex.extend l ?ex sessions = Inr idx" using extend_lease [OF assms(2)] by blast
  have out: "sessions' = idx" "st' = receipt_put receipt owner now ?ex st"
    using assms(3) idx by (auto simp: store_receipt_def mem_extend_retention_def)
  have safe: "safe_store L S sessions'"
    using assms(1) extend_store_inv [OF _ idx] by (auto simp: safe_store_def out)
  obtain d where "deadline_of sessions (ls_session_id l) = Some d" using assms(2) by (auto simp: lease_ok_def deadline_of_def)
  from extend_deadline [OF idx this] have p: "promised sessions' (ls_session_id l) ?ex" by (simp add: promised_def out)
  have "map_option st_receipt (live st'' t (sr_receipt_id receipt)) = Some receipt"
    using get_by_receipt_id_ok(1) [OF assms(6)] assms(7) by simp
  then have "t < ?ex"
    using assms(5) receipt_put_ok(2) [OF assms(4), of receipt owner now ?ex]
    by (auto simp: live_def out split: if_splits)
  then have "promised (run (mem_step L) ops sessions') (ls_session_id l) ?ex"
    using mem.run_keeps [OF safe assms(8) p] assms(9) by (meson le_less_trans)
  then show ?thesis using served_until_deadline mem.run_inv [OF safe assms(8)] \<open>t < ?ex\<close> by blast
qed

theorem cited_session_retained_witness:
  "\<exists>s idx l idx' st'. mem_current_or_seal sample_lib ''channel'' 10 1 (Inr s) index_default = (idx, Inr l) \<and>
     store_receipt mem_extend_retention (sample_receipt ''rcpt-1'') None 1 99 (Some l) idx receipt_store_default = (idx', st', Inr ()) \<and>
     (\<exists>t. snd (mem_get_session sample_lib (ls_session_id l) 60 (run (mem_step sample_lib) [DropLease l, GetSession ''other'' 50] idx')) = Some t)"
proof -
  obtain s where s: "seal sample_lib (sample_document 1 5) = Inr s" "sealed_set sample_lib {s}"
    "bundle_of sample_lib s = Some (''text/plain'', ''proof'')" by (rule sample_sealed)
  obtain idx l where run: "mem_current_or_seal sample_lib ''channel'' 10 1 (Inr s) index_default = (idx, Inr l)"
    by (rule sample_current_or_seal [OF s(1,3,2)])
  have "store_inv sample_lib {s} index_default" using default_safe [OF s(2)] by (simp add: safe_store_def)
  from mem_current_or_seal_ok [OF sample_lib_laws(3-5) s(2) this _ run]
  have safe: "safe_store sample_lib {s} idx" and l: "lease_ok l idx" using sample_lib_laws s(2) by (auto simp: safe_store_def)
  have ex: "saturating_add 1 99 = 100" by (simp add: saturating_add_def)
  obtain idx' where ext: "SessionIndex.extend l 100 idx = Inr idx'" using extend_lease [OF l] by blast
  define st' where st': "st' = receipt_put (sample_receipt ''rcpt-1'') None 1 100 receipt_store_default"
  have st: "store_receipt mem_extend_retention (sample_receipt ''rcpt-1'') None 1 99 (Some l) idx receipt_store_default = (idx', st', Inr ())"
    by (simp add: store_receipt_def mem_extend_retention_def ex ext st')
  note put = receipt_put_ok [OF receipt_store_default_wf, where r = "sample_receipt ''rcpt-1''" and owner = None and now = 1 and ex = 100]
  have wf: "receipt_store_wf st'" unfolding st' by (rule put(1))
  have got: "snd (get_by_receipt_id (sr_receipt_id (sample_receipt ''rcpt-1'')) 60 st') = Some (sample_receipt ''rcpt-1'')"
    using get_by_receipt_id_ok(1) [OF wf] put(2) by (simp add: st' live_def)
  have "\<exists>t \<in> {s}. session_id t = ls_session_id l \<and> snd (mem_get_session sample_lib (ls_session_id l) 60
      (run (mem_step sample_lib) [DropLease l, GetSession ''other'' 50] idx')) = Some t"
    by (rule cited_session_retained [OF safe l st receipt_store_default_wf refl wf got]) auto
  then show ?thesis using run st by blast
qed

end
