(* ===== verification/ReceiptApi.thy ===== *)
theory ReceiptApi
  imports ReceiptStore
begin

text \<open>
  The retrieval endpoints: bearer tokens and guards (\<open>src/http/app/util.rs\<close>), the receipt, legacy signature and
  session handlers (\<open>src/http/app/handlers.rs\<close>) and the hashes a legacy signature covers
  (\<open>src/aggregator/service/helpers.rs\<close>). Every service call reads the clock anew, so the handlers take one
  reading per call.
\<close>

section \<open>Headers and responses\<close>

text \<open>A header is absent, present with a value \<open>to_str\<close> refuses (\<open>Some None\<close>), or present with a text.\<close>

type_synonym header_map = "string \<Rightarrow> string option option"

datatype response =
    JsonResponse nat json
  | JsonBytes bytes

definition error_response :: "nat \<Rightarrow> string \<Rightarrow> string \<Rightarrow> response" where
  "error_response status ty message = JsonResponse status (JObject [(''error'', JObject [(''message'', JString message),
     (''type'', JString ty), (''code'', JNull), (''param'', JNull)])])"

definition admin_not_found_response :: response where
  "admin_not_found_response = error_response 404 ''not_found'' ''admin upstream config endpoint is not enabled''"

definition quoted :: "string \<Rightarrow> string" where
  "quoted s = CHR 0x27 # s @ [CHR 0x27]"

definition invalid_signing_algo_response :: response where
  "invalid_signing_algo_response = error_response 400 ''invalid_signing_algo''
     (''Invalid signing algorithm. Must be '' @ quoted ''ed25519'' @ '' or '' @ quoted ''ecdsa'')"

definition or_else :: "'a option \<Rightarrow> 'a option \<Rightarrow> 'a option" where
  "or_else a b = (case a of Some x \<Rightarrow> Some x | None \<Rightarrow> b)"

definition header_str :: "header_map \<Rightarrow> string \<Rightarrow> string option" where
  "header_str headers name = Option.bind (headers name) (\<lambda>v. v)"

definition extract_bearer :: "header_map \<Rightarrow> string option" where
  "extract_bearer headers =
     Option.bind (header_str headers ''authorization'') (\<lambda>v.
     Option.bind (or_else (strip_prefix ''Bearer '' v) (strip_prefix ''bearer '' v)) (\<lambda>token.
     let token = trim token in if token = [] then None else Some token))"

definition has_e2ee_headers :: "header_map \<Rightarrow> bool" where
  "has_e2ee_headers headers = list_ex (\<lambda>name. headers name \<noteq> None)
     [''x-signing-algo'', ''x-client-pub-key'', ''x-model-pub-key'', ''x-e2ee-version'', ''x-e2ee-nonce'', ''x-e2ee-timestamp'']"

definition normalize_host_domain :: "string \<Rightarrow> string option" where
  "normalize_host_domain raw =
     (let raw = trim raw
      in if raw = [] then None
         else Option.bind (case strip_prefix ''['' raw of
             Some rest \<Rightarrow> map_option fst (split_once '']'' rest)
           | None \<Rightarrow> Some (case split_once '':'' raw of Some (host, _) \<Rightarrow> host | None \<Rightarrow> raw)) (\<lambda>host.
           let domain = to_ascii_lowercase (trim_end_matches (CHR ''.'') (trim host))
           in if domain = [] \<or> contains_str ''/'' domain \<or> contains_str ''='' domain \<or> contains_str '','' domain
                \<or> contains_whitespace domain then None else Some domain))"

definition request_host_domain :: "header_map \<Rightarrow> string option" where
  "request_host_domain headers = Option.bind (header_str headers ''host'') normalize_host_domain"

fun split_char :: "char \<Rightarrow> string \<Rightarrow> string list" where
  "split_char c [] = [[]]"
| "split_char c (x # xs) =
     (if x = c then [] # split_char c xs
      else (case split_char c xs of [] \<Rightarrow> [[x]] | p # ps \<Rightarrow> (x # p) # ps))"

fun join_str :: "string \<Rightarrow> string list \<Rightarrow> string" where
  "join_str sep [] = []"
| "join_str sep [p] = p"
| "join_str sep (p # q # ps) = p @ sep @ join_str sep (q # ps)"

definition force_tee_true :: "string option \<Rightarrow> string" where
  "force_tee_true query =
     join_str ''&'' (filter (\<lambda>p. p \<noteq> ''tee'' \<and> \<not> starts_with ''tee='' p)
       (filter (\<lambda>p. p \<noteq> []) (split_char (CHR ''&'') (case query of Some q \<Rightarrow> q | None \<Rightarrow> ''''))) @ [''tee=true''])"

section \<open>Guards\<close>

definition enforce_owner ::
  "'x lib_scheme \<Rightarrow> header_map \<Rightarrow> string \<Rightarrow> u64 \<Rightarrow> receipt_store \<Rightarrow> receipt_store \<times> response option" where
  "enforce_owner L headers rid now st =
     (case owner_of rid now st of
        (st, None) \<Rightarrow> (st, None)
      | (st, Some recorded) \<Rightarrow>
          (st, case extract_bearer headers of
             None \<Rightarrow> Some (error_response 401 ''unauthorized''
               ''this receipt is owned; authenticate with the original bearer token'')
           | Some token \<Rightarrow>
               if from_bearer L token = recorded then None
               else Some (error_response 404 ''not_found'' ''receipt not found'')))"

definition enforce_admin :: "string option \<Rightarrow> header_map \<Rightarrow> response option" where
  "enforce_admin admin_token headers =
     (case admin_token of
        None \<Rightarrow> Some admin_not_found_response
      | Some expected \<Rightarrow>
          (case extract_bearer headers of
             None \<Rightarrow> Some (error_response 401 ''unauthorized'' ''admin bearer token required'')
           | Some token \<Rightarrow>
               if token = expected then None
               else Some (error_response 403 ''forbidden'' ''invalid admin bearer token'')))"

section \<open>Handlers\<close>

text \<open>\<open>first.or_else(second)\<close> over two lookups of the store.\<close>

definition lookup_either where
  "lookup_either first second st =
     (case first st of (st, Some r) \<Rightarrow> (st, Some r) | (st, None) \<Rightarrow> second st)"

definition aci_receipt ::
  "'x lib_scheme \<Rightarrow> header_map \<Rightarrow> string \<Rightarrow> u64 \<Rightarrow> u64 \<Rightarrow> u64 \<Rightarrow> receipt_store \<Rightarrow> receipt_store \<times> response" where
  "aci_receipt L headers rid t1 t2 t3 st =
     (case lookup_either (get_by_receipt_id rid t1) (get_by_chat_id rid t2) st of
        (st, None) \<Rightarrow> (st, error_response 404 ''not_found'' ''receipt id (receipt_id or chat_id) not found or expired'')
      | (st, Some receipt) \<Rightarrow>
          (case enforce_owner L headers (sr_receipt_id receipt) t3 st of
             (st, Some resp) \<Rightarrow> (st, resp)
           | (st, None) \<Rightarrow> (st, JsonBytes (sr_document receipt))))"

definition attested_session_handler :: "'x lib_scheme \<Rightarrow> string \<Rightarrow> u64 \<Rightarrow> session_index \<Rightarrow> session_index \<times> response" where
  "attested_session_handler L sid now idx =
     (case mem_get_session L sid now idx of
        (idx, None) \<Rightarrow> (idx, error_response 404 ''not_found'' ''attested session not found or expired'')
      | (idx, Some s) \<Rightarrow> (idx, JsonBytes (session_bytes s)))"

definition strip_sha256_prefix :: "string \<Rightarrow> string option" where
  "strip_sha256_prefix v = strip_prefix ''sha256:'' v"

definition logged_body_hash :: "json list \<Rightarrow> string \<Rightarrow> string option" where
  "logged_body_hash evs ty =
     Option.bind (find (\<lambda>e. jget_str e ''type'' = Some ty) evs) (\<lambda>e.
     Option.bind (jget_str e ''body_hash'') strip_sha256_prefix)"

definition legacy_signature_text :: "'x lib_scheme \<Rightarrow> signed_receipt \<Rightarrow> string option" where
  "legacy_signature_text L receipt =
     Option.bind (from_slice L (sr_document receipt)) (\<lambda>payload.
     Option.bind (jget payload ''event_log'') (\<lambda>log.
     Option.bind (as_array log) (\<lambda>evs.
     Option.bind (logged_body_hash evs EVENT_REQUEST_RECEIVED) (\<lambda>req.
     Option.bind (logged_body_hash evs EVENT_RESPONSE_RETURNED) (\<lambda>resp.
     Some (req @ '':'' @ resp))))))"

record legacy_signature =
  lg_signing_algo :: string
  lg_signing_address :: string
  lg_signature :: string

record legacy_signature_result =
  lr_message :: string
  lr_signature :: string
  lr_signing_address :: string
  lr_signing_algo :: string

text \<open>\<open>sign\<close> is \<open>sign_legacy_message\<close> of the key provider.\<close>

definition legacy_signature_for_receipt ::
  "'x lib_scheme \<Rightarrow> (string \<Rightarrow> string \<Rightarrow> key_error + legacy_signature) \<Rightarrow> signed_receipt \<Rightarrow> string option
     \<Rightarrow> (receipt_error + key_error) + legacy_signature_result" where
  "legacy_signature_for_receipt L sign receipt signing_algo =
     (case legacy_signature_text L receipt of
        None \<Rightarrow> Inl (Inl (MissingRequiredEvent EVENT_RESPONSE_RETURNED))
      | Some text' \<Rightarrow>
          and_then (map_err Inr (sign (case signing_algo of Some a \<Rightarrow> a | None \<Rightarrow> LEGACY_ALGO_ECDSA) text')) (\<lambda>s.
          Inr \<lparr>lr_message = text', lr_signature = lg_signature s, lr_signing_address = lg_signing_address s,
            lr_signing_algo = lg_signing_algo s\<rparr>))"

text \<open>\<open>show_error\<close> renders an internal error.\<close>

definition receipt_by_chat_id ::
  "'x lib_scheme \<Rightarrow> (string \<Rightarrow> string \<Rightarrow> key_error + legacy_signature) \<Rightarrow> (receipt_error + key_error \<Rightarrow> string) \<Rightarrow> header_map
     \<Rightarrow> string \<Rightarrow> string option \<Rightarrow> u64 \<Rightarrow> u64 \<Rightarrow> u64 \<Rightarrow> receipt_store \<Rightarrow> receipt_store \<times> response" where
  "receipt_by_chat_id L sign show_error headers rid signing_algo t1 t2 t3 st =
     (case lookup_either (get_by_chat_id rid t1) (get_by_receipt_id rid t2) st of
        (st, None) \<Rightarrow> (st, error_response 404 ''not_found'' ''receipt id (chat_id or receipt_id) not found or expired'')
      | (st, Some receipt) \<Rightarrow>
          (case enforce_owner L headers (sr_receipt_id receipt) t3 st of
             (st, Some resp) \<Rightarrow> (st, resp)
           | (st, None) \<Rightarrow>
               (st, case legacy_signature_for_receipt L sign receipt signing_algo of
                  Inr sig \<Rightarrow> JsonResponse 200 (JObject [(''api_version'', JString ''aci/1''), (''text'', JString (lr_message sig)),
                    (''signature'', JString (lr_signature sig)), (''signing_address'', JString (lr_signing_address sig)),
                    (''signing_algo'', JString (lr_signing_algo sig)),
                    (''receipt'', case from_slice L (sr_document receipt) of Some v \<Rightarrow> v | None \<Rightarrow> JNull)])
                | Inl (Inr (UnsupportedAlgo _)) \<Rightarrow> invalid_signing_algo_response
                | Inl e \<Rightarrow> error_response 500 ''internal_error'' (show_error e))))"

section \<open>The guard of owned receipts\<close>

text \<open>The entry a lookup by either id may return: one stored under the id or named by it as its chat id.\<close>

definition names :: "receipt_store \<Rightarrow> string \<Rightarrow> stored_receipt \<Rightarrow> bool" where
  "names st rid e = (\<exists>k. map_of (by_receipt st) k = Some e \<and> (k = rid \<or> map_of (by_chat st) rid = Some k))"

lemma live_Some: "live st t k = Some e \<longleftrightarrow> map_of (by_receipt st) k = Some e \<and> t < st_expires_at e"
  by (auto simp: live_def split: option.splits if_splits)

lemma store_remove_names:
  assumes "receipt_store_wf st" and "names (store_remove k st) rid e"
  shows "names st rid e"
proof -
  have "map_of (by_chat (store_remove k st)) c = Some k' \<Longrightarrow> map_of (by_chat st) c = Some k'" for c k'
    using assms(1) by (auto simp: store_remove_def drop_expiry_hint_def drop_chat_by_chat receipt_store_wf_def Let_def split: option.splits if_splits)
  then show ?thesis using assms(2) store_remove_ok(2) [OF assms(1)] by (auto simp: names_def split: if_splits)
qed

lemma lookup_names:
  assumes "receipt_store_wf st"
  shows "names (fst (get_by_receipt_id k t st)) rid e \<Longrightarrow> names st rid e"
    and "names (fst (get_by_chat_id k t st)) rid e \<Longrightarrow> names st rid e"
    and "snd (get_by_receipt_id rid t st) = Some r \<Longrightarrow> \<exists>e. names st rid e \<and> st_receipt e = r \<and> live st t (sr_receipt_id r) = Some e"
    and "snd (get_by_chat_id rid t st) = Some r \<Longrightarrow> \<exists>e. names st rid e \<and> st_receipt e = r \<and> live st t (sr_receipt_id r) = Some e"
proof -
  show "names (fst (get_by_receipt_id k t st)) rid e \<Longrightarrow> names st rid e" "names (fst (get_by_chat_id k t st)) rid e \<Longrightarrow> names st rid e"
    using store_remove_names [OF assms] by (auto simp: get_by_receipt_id_def get_by_chat_id_def split: option.splits if_splits)
  have key: "live st t k = Some e \<Longrightarrow> sr_receipt_id (st_receipt e) = k" for k e
    using assms by (auto simp: live_Some receipt_store_wf_def)
  show "\<exists>e. names st rid e \<and> st_receipt e = r \<and> live st t (sr_receipt_id r) = Some e" if got: "snd (get_by_receipt_id rid t st) = Some r"
  proof -
    obtain e where e: "live st t rid = Some e" "st_receipt e = r" using got get_by_receipt_id_ok(1) [OF assms, of rid t] by auto
    then show ?thesis using key by (auto simp: names_def live_Some)
  qed
  show "\<exists>e. names st rid e \<and> st_receipt e = r \<and> live st t (sr_receipt_id r) = Some e" if got: "snd (get_by_chat_id rid t st) = Some r"
  proof -
    obtain k e where e: "map_of (by_chat st) rid = Some k" "live st t k = Some e" "st_receipt e = r"
      using got get_by_chat_id_ok(1) [OF assms, of rid t] by (auto simp: bind_eq_Some_conv)
    then show ?thesis using key by (auto simp: names_def live_Some)
  qed
qed

text \<open>A lookup by two ids finds an entry that was live when it was read.\<close>

lemma lookup_either_ok:
  assumes ok: "\<And>st. receipt_store_wf st \<Longrightarrow> receipt_store_wf (fst (g1 st)) \<and> receipt_store_wf (fst (g2 st))"
    and live: "\<And>st t. receipt_store_wf st \<Longrightarrow> t1 \<le> t \<Longrightarrow> live (fst (g1 st)) t = live st t"
      "\<And>st t. receipt_store_wf st \<Longrightarrow> t2 \<le> t \<Longrightarrow> live (fst (g2 st)) t = live st t"
    and nm: "\<And>st e. receipt_store_wf st \<Longrightarrow> names (fst (g1 st)) rid e \<Longrightarrow> names st rid e"
    and found: "\<And>st r. receipt_store_wf st \<Longrightarrow> snd (g1 st) = Some r \<Longrightarrow> \<exists>e. names st rid e \<and> st_receipt e = r \<and> live st t1 (sr_receipt_id r) = Some e"
      "\<And>st r. receipt_store_wf st \<Longrightarrow> snd (g2 st) = Some r \<Longrightarrow> \<exists>e. names st rid e \<and> st_receipt e = r \<and> live st t2 (sr_receipt_id r) = Some e"
    and run: "lookup_either g1 g2 st = (st', Some r)" and wf: "receipt_store_wf st" and "t1 \<le> t2"
  shows "receipt_store_wf st' \<and> (\<exists>e. names st rid e \<and> st_receipt e = r \<and> live st t1 (sr_receipt_id r) = Some e \<and>
    (\<forall>t \<ge> t2. live st' t = live st t))"
proof -
  obtain st1 r1 where g1: "g1 st = (st1, r1)" by fastforce
  show ?thesis
  proof (cases r1)
    case None
    then have g2: "g2 st1 = (st', Some r)" using run g1 by (simp add: lookup_either_def)
    have wf1: "receipt_store_wf st1" using ok [OF wf] g1 by simp
    have l1: "t1 \<le> t \<Longrightarrow> live st1 t = live st t" for t using live(1) [OF wf] g1 by simp
    obtain e where e: "names st1 rid e" "st_receipt e = r" "live st1 t2 (sr_receipt_id r) = Some e"
      using found(2) [OF wf1] g2 by auto
    have "live st t1 (sr_receipt_id r) = Some e"
      using e(3) l1 [OF assms(9)] assms(9) by (auto simp: live_Some)
    moreover have "t2 \<le> t \<Longrightarrow> live st' t = live st t" for t
      using live(2) [OF wf1, of t] l1 [of t] g2 assms(9) by simp
    moreover have "names st rid e" using nm [OF wf] e(1) g1 by simp
    ultimately show ?thesis using ok [OF wf1] g2 e(2) by auto
  next
    case (Some r')
    then have g: "g1 st = (st', Some r)" using run g1 by (simp add: lookup_either_def)
    then show ?thesis using found(1) [OF wf] ok [OF wf] live(1) [OF wf] assms(9) by fastforce
  qed
qed

lemma lookup_receipt_ok:
  assumes "receipt_store_wf st" and "t1 \<le> t2"
    and "lookup_either (get_by_receipt_id rid t1) (get_by_chat_id rid t2) st = (st', Some r) \<or>
      lookup_either (get_by_chat_id rid t1) (get_by_receipt_id rid t2) st = (st', Some r)"
  shows "receipt_store_wf st' \<and> (\<exists>e. names st rid e \<and> st_receipt e = r \<and> live st t1 (sr_receipt_id r) = Some e \<and>
    (\<forall>t \<ge> t2. live st' t = live st t))"
  using assms(3)
proof
  assume "lookup_either (get_by_receipt_id rid t1) (get_by_chat_id rid t2) st = (st', Some r)"
  from lookup_either_ok [OF _ get_by_receipt_id_ok(3) get_by_chat_id_ok(3) lookup_names(1) lookup_names(3) lookup_names(4) this assms(1,2)]
  show ?thesis by (simp add: get_by_receipt_id_ok(2) get_by_chat_id_ok(2))
next
  assume "lookup_either (get_by_chat_id rid t1) (get_by_receipt_id rid t2) st = (st', Some r)"
  from lookup_either_ok [OF _ get_by_chat_id_ok(3) get_by_receipt_id_ok(3) lookup_names(2) lookup_names(4) lookup_names(3) this assms(1,2)]
  show ?thesis by (simp add: get_by_receipt_id_ok(2) get_by_chat_id_ok(2))
qed

text \<open>The caller may see the entry: it is anonymous, or the caller presents a bearer token with the owner's digest.\<close>

definition may_see :: "'x lib_scheme \<Rightarrow> header_map \<Rightarrow> stored_receipt \<Rightarrow> bool" where
  "may_see L headers e = (case st_owner e of None \<Rightarrow> True
     | Some owner \<Rightarrow> (case extract_bearer headers of None \<Rightarrow> False | Some token \<Rightarrow> from_bearer L token = owner))"

lemma enforce_owner_ok:
  assumes "receipt_store_wf st"
  shows "snd (enforce_owner L headers k t st) = None \<longleftrightarrow> (\<forall>e. live st t k = Some e \<longrightarrow> may_see L headers e)"
  using owner_of_ok(1) [OF assms, of k t]
  by (cases "owner_of k t st"; cases "live st t k") (auto simp: enforce_owner_def may_see_def split: option.splits)

lemma served_entry:
  assumes "receipt_store_wf st" and "t1 \<le> t2" and "t2 \<le> t3"
    and "lookup_either (get_by_receipt_id rid t1) (get_by_chat_id rid t2) st = (st', Some r) \<or>
      lookup_either (get_by_chat_id rid t1) (get_by_receipt_id rid t2) st = (st', Some r)"
    and "snd (enforce_owner L headers (sr_receipt_id r) t3 st') = None"
  shows "\<exists>e. names st rid e \<and> t1 < st_expires_at e \<and> st_receipt e = r \<and> (t3 < st_expires_at e \<longrightarrow> may_see L headers e)"
proof -
  obtain e where e: "receipt_store_wf st'" "names st rid e" "st_receipt e = r" "live st t1 (sr_receipt_id r) = Some e"
    "\<And>t. t2 \<le> t \<Longrightarrow> live st' t = live st t"
    using lookup_receipt_ok [OF assms(1,2,4)] by blast
  have "t3 < st_expires_at e \<Longrightarrow> live st' t3 (sr_receipt_id r) = Some e"
    using e(4) e(5) [OF assms(3)] by (simp add: live_Some)
  then have "t3 < st_expires_at e \<longrightarrow> may_see L headers e"
    using enforce_owner_ok [OF e(1), THEN iffD1, OF assms(5)] by blast
  then show ?thesis using e(2-4) by (auto simp: live_Some)
qed

lemma enforce_owner_refusal: "snd (enforce_owner L headers k t st) = Some r \<Longrightarrow> \<exists>n v. r = JsonResponse n v \<and> n \<in> {401, 404}"
  by (auto simp: enforce_owner_def error_response_def split: prod.splits option.splits if_splits)

lemma aci_receipt_served:
  assumes "aci_receipt L headers rid t1 t2 t3 st = (st', JsonBytes b)"
  shows "\<exists>st1 r. lookup_either (get_by_receipt_id rid t1) (get_by_chat_id rid t2) st = (st1, Some r) \<and>
    snd (enforce_owner L headers (sr_receipt_id r) t3 st1) = None \<and> b = sr_document r"
proof -
  obtain st1 r where r: "lookup_either (get_by_receipt_id rid t1) (get_by_chat_id rid t2) st = (st1, Some r)"
    using assms by (auto simp: aci_receipt_def error_response_def split: prod.splits option.splits)
  obtain st2 res where g: "enforce_owner L headers (sr_receipt_id r) t3 st1 = (st2, res)" by fastforce
  have "res = None"
    using assms r g enforce_owner_refusal [of L headers "sr_receipt_id r" t3 st1] by (cases res) (auto simp: aci_receipt_def)
  then show ?thesis using assms r g by (simp add: aci_receipt_def)
qed

lemma receipt_by_chat_id_served:
  assumes "receipt_by_chat_id L sign show_error headers rid alg t1 t2 t3 st = (st', JsonResponse 200 v)"
  shows "\<exists>st1 r. lookup_either (get_by_chat_id rid t1) (get_by_receipt_id rid t2) st = (st1, Some r) \<and>
    snd (enforce_owner L headers (sr_receipt_id r) t3 st1) = None \<and>
    jget v ''receipt'' = Some (case from_slice L (sr_document r) of Some v \<Rightarrow> v | None \<Rightarrow> JNull)"
proof -
  obtain st1 r where r: "lookup_either (get_by_chat_id rid t1) (get_by_receipt_id rid t2) st = (st1, Some r)"
    using assms by (auto simp: receipt_by_chat_id_def error_response_def split: prod.splits option.splits)
  obtain st2 res where g: "enforce_owner L headers (sr_receipt_id r) t3 st1 = (st2, res)" by fastforce
  have "res = None"
  proof (cases res)
    case (Some resp)
    then have "resp = JsonResponse 200 v" using assms r g by (simp add: receipt_by_chat_id_def)
    then show ?thesis using enforce_owner_refusal [of L headers "sr_receipt_id r" t3 st1] g Some by fastforce
  qed
  then have "snd (enforce_owner L headers (sr_receipt_id r) t3 st1) = None" using g by simp
  moreover have "jget v ''receipt'' = Some (case from_slice L (sr_document r) of Some v \<Rightarrow> v | None \<Rightarrow> JNull)"
    using assms r g \<open>res = None\<close>
    by (auto simp: receipt_by_chat_id_def error_response_def invalid_signing_algo_response_def split: sum.splits key_error.splits)
  ultimately show ?thesis using r by blast
qed

text \<open>C30: A receipt is served to its owner only. Whatever id a caller asks for, the receipt endpoint answers with a
  document, and the signature endpoint with a receipt, only if it is the document of a stored receipt that the id names and
  that was live at the first read; and, while the receipt is still live when the guard reads the clock, the receipt is
  anonymous or the caller presented the bearer token the owner presented, unless the two tokens collide under SHA-256.\<close>

theorem owned_receipt_guard:
  assumes "receipt_store_wf st" and "t1 \<le> t2" and "t2 \<le> t3" and "hex_ok L"
  shows "(aci_receipt L headers rid t1 t2 t3 st = (st', JsonBytes b) \<longrightarrow> (\<exists>e. names st rid e \<and> t1 < st_expires_at e \<and>
        sr_document (st_receipt e) = b \<and> (t3 < st_expires_at e \<longrightarrow> may_see L headers e))) \<and>
    (receipt_by_chat_id L sign show_error headers rid alg t1 t2 t3 st = (st', JsonResponse 200 v) \<longrightarrow>
      (\<exists>e. names st rid e \<and> t1 < st_expires_at e \<and> (t3 < st_expires_at e \<longrightarrow> may_see L headers e) \<and>
        jget v ''receipt'' = Some (case from_slice L (sr_document (st_receipt e)) of Some d \<Rightarrow> d | None \<Rightarrow> JNull))) \<and>
    (may_see L headers e \<and> st_owner e = Some (from_bearer L owner) \<longrightarrow>
      (\<exists>token. extract_bearer headers = Some token \<and> (token = owner \<or> collision (sha256 L) token owner)))"
proof (intro conjI impI)
  show "\<exists>e. names st rid e \<and> t1 < st_expires_at e \<and> sr_document (st_receipt e) = b \<and> (t3 < st_expires_at e \<longrightarrow> may_see L headers e)"
    if "aci_receipt L headers rid t1 t2 t3 st = (st', JsonBytes b)"
    using aci_receipt_served [OF that] served_entry [OF assms(1-3)] by blast
  show "\<exists>e. names st rid e \<and> t1 < st_expires_at e \<and> (t3 < st_expires_at e \<longrightarrow> may_see L headers e) \<and>
        jget v ''receipt'' = Some (case from_slice L (sr_document (st_receipt e)) of Some d \<Rightarrow> d | None \<Rightarrow> JNull)"
    if "receipt_by_chat_id L sign show_error headers rid alg t1 t2 t3 st = (st', JsonResponse 200 v)"
    using receipt_by_chat_id_served [OF that] served_entry [OF assms(1-3)] by blast
  show "\<exists>token. extract_bearer headers = Some token \<and> (token = owner \<or> collision (sha256 L) token owner)"
    if "may_see L headers e \<and> st_owner e = Some (from_bearer L owner)"
    using that assms(4) by (auto simp: may_see_def from_bearer_def sha256_hex_def hex_ok_inj collision_def split: option.splits)
qed

definition sample_headers :: "string \<Rightarrow> header_map" where
  "sample_headers token = (\<lambda>name. if name = ''authorization'' then Some (Some (''Bearer '' @ token)) else None)"

definition sample_receipts :: receipt_store where
  "sample_receipts = receipt_put (sample_receipt ''rcpt-1'') (Some (from_bearer sample_lib ''k1'')) 5 10 receipt_store_default"

lemma sample_receipts_wf: "receipt_store_wf sample_receipts"
  unfolding sample_receipts_def by (rule receipt_put_ok(1) [OF receipt_store_default_wf])

lemma sample_receipts_entry: "map_of (by_receipt sample_receipts) ''rcpt-1'' =
    Some \<lparr>st_receipt = sample_receipt ''rcpt-1'', st_owner = Some (from_bearer sample_lib ''k1''), st_expires_at = 10\<rparr>"
  using receipt_put_ok(2) [OF receipt_store_default_wf, of "sample_receipt ''rcpt-1''" "Some (from_bearer sample_lib ''k1'')" 5 10]
  by (simp add: sample_receipts_def sample_receipt_def)

lemma aci_receipt_live:
  assumes "map_of (by_receipt st) rid = Some e" and "t1 < st_expires_at e"
  shows "aci_receipt L headers rid t1 t2 t3 st =
    (case enforce_owner L headers (sr_receipt_id (st_receipt e)) t3 st of
       (st, Some resp) \<Rightarrow> (st, resp) | (st, None) \<Rightarrow> (st, JsonBytes (sr_document (st_receipt e))))"
  using assms by (auto simp: aci_receipt_def lookup_either_def get_by_receipt_id_def)

theorem owned_receipt_guard_witness:
  "\<exists>st b e. aci_receipt sample_lib (sample_headers ''k1'') ''rcpt-1'' 6 6 7 sample_receipts = (st, JsonBytes b) \<and>
     names sample_receipts ''rcpt-1'' e \<and> sr_document (st_receipt e) = b"
proof -
  have bearer: "extract_bearer (sample_headers ''k1'') = Some ''k1''" by code_simp
  have "sr_receipt_id (sample_receipt ''rcpt-1'') = ''rcpt-1''" by (simp add: sample_receipt_def)
  then have run: "aci_receipt sample_lib (sample_headers ''k1'') ''rcpt-1'' 6 6 7 sample_receipts =
      (sample_receipts, JsonBytes (sr_document (sample_receipt ''rcpt-1'')))"
    using sample_receipts_entry by (simp add: aci_receipt_live enforce_owner_def owner_of_def bearer)
  have "(6 :: u64) \<le> 6" and "(6 :: u64) \<le> 7" by simp_all
  from owned_receipt_guard [OF sample_receipts_wf this sample_lib_laws(3)]
  show ?thesis using run by blast
qed

text \<open>C31: The guard reads the clock after the lookup, so it can pass by expiry. When an owned receipt is live at the lookup
  and has expired by the time the guard asks for its owner, the receipt endpoint serves it to any caller, with any bearer
  token or none.\<close>

theorem owner_check_race:
  assumes "receipt_store_wf st" and "map_of (by_receipt st) rid = Some e" and "st_owner e = Some owner"
    and "t1 < st_expires_at e" and "st_expires_at e \<le> t3"
  shows "snd (aci_receipt L headers rid t1 t2 t3 st) = JsonBytes (sr_document (st_receipt e))"
proof -
  have "sr_receipt_id (st_receipt e) = rid" using assms(1,2) by (auto simp: receipt_store_wf_def)
  then show ?thesis using assms(2,4,5) by (simp add: aci_receipt_live enforce_owner_def owner_of_def)
qed

theorem owner_check_race_witness:
  "snd (aci_receipt sample_lib (\<lambda>_. None) ''rcpt-1'' 9 9 10 sample_receipts) = JsonBytes (sr_document (sample_receipt ''rcpt-1''))"
  using owner_check_race [OF sample_receipts_wf sample_receipts_entry, of "from_bearer sample_lib ''k1''" 9 10 sample_lib "\<lambda>_. None" 9]
  by simp

end
