(* ===== verification/E2ee.thy ===== *)
theory E2ee
  imports Receipt
begin

text \<open>
  The cipher suites of end-to-end encryption (\<open>src/aci/e2ee.rs\<close>): key normalisation, and encryption and decryption
  of one field under the two E2EE v2 suites and the two inherited ones. The curves, HKDF, AES-GCM and SHA-512 are
  operations of other packages, fields of \<open>crypto\<close>; \<open>crypto_ok\<close> states what is relied on. Random draws (the
  ephemeral secret and the nonce) are an argument. An error of another package keeps the gateway's message without the
  detail that package adds.
\<close>

unbundle bit_operations_syntax

section \<open>Text\<close>

text \<open>Decimal digits, as \<open>format!\<close> prints an integer.\<close>

fun show_nat :: "nat \<Rightarrow> string" where
  "show_nat n = (if n < 10 then [char_of (48 + n)] else show_nat (n div 10) @ [char_of (48 + n mod 10)])"

declare show_nat.simps [simp del]

definition strip_0x :: "string \<Rightarrow> string" where
  "strip_0x v = (case strip_prefix ''0x'' v of Some r \<Rightarrow> r | None \<Rightarrow> v)"

section \<open>Operations of other packages\<close>

text \<open>A secp256k1 public key is its uncompressed SEC1 encoding, an Ed25519 signing key its seed.\<close>

record crypto = lib +
  hkdf_sha256 :: "bytes \<Rightarrow> bytes \<Rightarrow> bytes option"
  aead_encrypt :: "bytes \<Rightarrow> bytes \<Rightarrow> bytes \<Rightarrow> bytes \<Rightarrow> bytes option"
  aead_decrypt :: "bytes \<Rightarrow> bytes \<Rightarrow> bytes \<Rightarrow> bytes \<Rightarrow> bytes option"
  x25519_public :: "bytes \<Rightarrow> bytes"
  x25519_dh :: "bytes \<Rightarrow> bytes \<Rightarrow> bytes"
  sec1_encoded :: "bytes \<Rightarrow> bytes option"
  sec1_public :: "bytes \<Rightarrow> bytes option"
  k256_public :: "bytes \<Rightarrow> bytes"
  k256_dh :: "bytes \<Rightarrow> bytes \<Rightarrow> bytes"
  edwards_montgomery :: "bytes \<Rightarrow> bytes option"
  ed25519_public :: "bytes \<Rightarrow> bytes"
  sha512 :: "bytes \<Rightarrow> bytes"

section \<open>Constants\<close>

definition E2EE_VERSION_V2 :: string where "E2EE_VERSION_V2 = ''2''"
definition E2EE_VERSION_V1 :: string where "E2EE_VERSION_V1 = ''1''"
definition E2EE_ALGO_X25519_AESGCM :: string where "E2EE_ALGO_X25519_AESGCM = ''x25519-aes-256-gcm-hkdf-sha256''"
definition E2EE_ALGO_SECP256K1_AESGCM :: string where "E2EE_ALGO_SECP256K1_AESGCM = ''secp256k1-aes-256-gcm-hkdf-sha256''"
definition E2EE_ALGO_LEGACY_ECDSA :: string where "E2EE_ALGO_LEGACY_ECDSA = ''ecdsa''"
definition E2EE_ALGO_LEGACY_ED25519 :: string where "E2EE_ALGO_LEGACY_ED25519 = ''ed25519''"
definition SECP256K1_HKDF_INFO :: bytes where "SECP256K1_HKDF_INFO = ''aci.e2ee.v2.secp256k1''"
definition X25519_HKDF_INFO :: bytes where "X25519_HKDF_INFO = ''aci.e2ee.v2.x25519''"
definition LEGACY_ECDSA_HKDF_INFO :: bytes where "LEGACY_ECDSA_HKDF_INFO = ''ecdsa_encryption''"
definition LEGACY_ED25519_HKDF_INFO :: bytes where "LEGACY_ED25519_HKDF_INFO = ''ed25519_encryption''"
definition PUBLIC_KEY_LEN :: nat where "PUBLIC_KEY_LEN = 65"
definition X25519_PUBLIC_KEY_LEN :: nat where "X25519_PUBLIC_KEY_LEN = 32"
definition E2EE_NONCE_LEN :: nat where "E2EE_NONCE_LEN = 12"
definition TAG_LEN :: nat where "TAG_LEN = 16"

lemmas e2ee_algos = E2EE_ALGO_X25519_AESGCM_def E2EE_ALGO_SECP256K1_AESGCM_def E2EE_ALGO_LEGACY_ECDSA_def
  E2EE_ALGO_LEGACY_ED25519_def

lemmas e2ee_lens = PUBLIC_KEY_LEN_def X25519_PUBLIC_KEY_LEN_def E2EE_NONCE_LEN_def TAG_LEN_def

section \<open>Keys\<close>

text \<open>\<open>hex::decode\<close> of a text with an optional \<open>0x\<close>, with the message of its caller.\<close>

definition decode_0x :: "'x lib_scheme \<Rightarrow> string \<Rightarrow> string \<Rightarrow> key_error + bytes" where
  "decode_0x L message v = ok_or (Crypto message) (hex_decode L (strip_0x v))"

definition uncompressed_point :: "bytes \<Rightarrow> bytes option" where
  "uncompressed_point b =
     (if length b = 65 \<and> hd b = CHR 0x04 then Some b
      else if length b = 64 then Some (CHR 0x04 # b) else None)"

definition normalize_secp256k1_public_key_hex :: "'x crypto_scheme \<Rightarrow> string \<Rightarrow> key_error + string" where
  "normalize_secp256k1_public_key_hex C v =
     and_then (decode_0x C ''invalid secp256k1 public key hex'' v) (\<lambda>b.
     and_then (ok_or (Crypto (''secp256k1 public key must be 64 or 65 bytes, got '' @ show_nat (length b)))
         (uncompressed_point b)) (\<lambda>p.
     and_then (ok_or (Crypto ''invalid secp256k1 public key'') (sec1_encoded C p)) (\<lambda>encoded.
     and_then (ok_or (Crypto ''invalid secp256k1 public key'') (sec1_public C encoded)) (\<lambda>_.
     Inr (hex_encode C encoded)))))"

definition public_key_from_secret :: "'x crypto_scheme \<Rightarrow> bytes \<Rightarrow> string" where
  "public_key_from_secret C secret = hex_encode C (k256_public C secret)"

definition legacy_ecdsa_public_key_from_secret :: "'x crypto_scheme \<Rightarrow> bytes \<Rightarrow> string" where
  "legacy_ecdsa_public_key_from_secret C secret = hex_encode C (drop 1 (k256_public C secret))"

definition ed25519_public_key_hex :: "'x crypto_scheme \<Rightarrow> bytes \<Rightarrow> string" where
  "ed25519_public_key_hex C secret = hex_encode C (ed25519_public C secret)"

definition is_aci_e2ee_suite :: "string \<Rightarrow> bool" where
  "is_aci_e2ee_suite alg = (alg = E2EE_ALGO_X25519_AESGCM \<or> alg = E2EE_ALGO_SECP256K1_AESGCM)"

definition normalize_x25519_public_key_hex :: "'x lib_scheme \<Rightarrow> string \<Rightarrow> key_error + string" where
  "normalize_x25519_public_key_hex L v =
     and_then (decode_0x L ''invalid X25519 public key hex'' v) (\<lambda>b.
     and_then (ensure (length b = X25519_PUBLIC_KEY_LEN)
         (Crypto (''X25519 public key must be 32 bytes, got '' @ show_nat (length b)))) (\<lambda>_.
     Inr (hex_encode L b)))"

definition normalize_aci_e2ee_public_key_hex :: "'x crypto_scheme \<Rightarrow> string \<Rightarrow> string \<Rightarrow> key_error + string" where
  "normalize_aci_e2ee_public_key_hex C alg v =
     (if alg = E2EE_ALGO_X25519_AESGCM then normalize_x25519_public_key_hex C v
      else if alg = E2EE_ALGO_SECP256K1_AESGCM then normalize_secp256k1_public_key_hex C v
      else Inl (UnsupportedAlgo alg))"

definition x25519_public_key_hex :: "'x crypto_scheme \<Rightarrow> bytes \<Rightarrow> string" where
  "x25519_public_key_hex C secret = hex_encode C (x25519_public C secret)"

definition x25519_secret_key_from_bytes :: "bytes \<Rightarrow> key_error + bytes" where
  "x25519_secret_key_from_bytes b =
     and_then (ensure (length b = 32) (Crypto (''invalid X25519 E2EE key: must be 32 bytes, got '' @ show_nat (length b)))) (\<lambda>_. Inr b)"

definition public_key_from_hex :: "'x crypto_scheme \<Rightarrow> string \<Rightarrow> key_error + bytes" where
  "public_key_from_hex C v =
     and_then (normalize_secp256k1_public_key_hex C v) (\<lambda>normalized.
     and_then (ok_or (Crypto ''invalid secp256k1 public key hex'') (hex_decode C normalized)) (\<lambda>b.
     ok_or (Crypto ''invalid secp256k1 public key'') (sec1_public C b)))"

text \<open>Decoding the normalised key again succeeds, so the two \<open>expect\<close>s are a \<open>None\<close> that is never reached.\<close>

definition x25519_public_key_from_hex :: "'x lib_scheme \<Rightarrow> string \<Rightarrow> key_error + bytes" where
  "x25519_public_key_from_hex L v =
     and_then (normalize_x25519_public_key_hex L v) (\<lambda>normalized.
     ok_or (Crypto ''panic: normalized X25519 hex decodes'') (hex_decode L normalized))"

definition ed25519_public_to_x25519_public_key :: "'x crypto_scheme \<Rightarrow> string \<Rightarrow> key_error + bytes" where
  "ed25519_public_to_x25519_public_key C v =
     and_then (decode_0x C ''invalid Ed25519 public key hex'' v) (\<lambda>b.
     and_then (ensure (length b = 32) (Crypto (''Ed25519 public key must be 32 bytes, got '' @ show_nat (length b)))) (\<lambda>_.
     ok_or (Crypto ''invalid Ed25519 public key point'') (edwards_montgomery C b)))"

definition mask :: "(nat \<Rightarrow> nat) \<Rightarrow> nat \<Rightarrow> bytes \<Rightarrow> bytes" where
  "mask f i b = b[i := char_of (f (of_char (b ! i)))]"

definition ed25519_private_to_x25519_private_key :: "'x crypto_scheme \<Rightarrow> bytes \<Rightarrow> bytes" where
  "ed25519_private_to_x25519_private_key C secret =
     mask (\<lambda>c. c OR 64) 31 (mask (\<lambda>c. c AND 127) 31 (mask (\<lambda>c. c AND 248) 0 (take 32 (sha512 C secret))))"

section \<open>Ciphers\<close>

definition cipher_from_shared_secret :: "'x crypto_scheme \<Rightarrow> bytes \<Rightarrow> key_error + bytes" where
  "cipher_from_shared_secret C shared = ok_or (Crypto ''HKDF expand failed'') (hkdf_sha256 C shared SECP256K1_HKDF_INFO)"

definition x25519_cipher_from_shared_secret :: "'x crypto_scheme \<Rightarrow> bytes \<Rightarrow> key_error + bytes" where
  "x25519_cipher_from_shared_secret C shared = ok_or (Crypto ''HKDF expand failed'') (hkdf_sha256 C shared X25519_HKDF_INFO)"

definition legacy_cipher_from_shared_secret :: "'x crypto_scheme \<Rightarrow> bytes \<Rightarrow> string \<Rightarrow> key_error + bytes" where
  "legacy_cipher_from_shared_secret C shared signing_algo =
     and_then (if signing_algo = E2EE_ALGO_LEGACY_ECDSA then Inr LEGACY_ECDSA_HKDF_INFO
       else if signing_algo = E2EE_ALGO_LEGACY_ED25519 then Inr LEGACY_ED25519_HKDF_INFO
       else Inl (UnsupportedAlgo signing_algo)) (\<lambda>info.
     ok_or (Crypto ''legacy HKDF expand failed'') (hkdf_sha256 C shared info))"

text \<open>The wire form: the ephemeral public key, the nonce and the sealed text, in hexadecimal.\<close>

definition seal_field :: "'x crypto_scheme \<Rightarrow> string \<Rightarrow> bytes \<Rightarrow> bytes \<Rightarrow> bytes \<Rightarrow> bytes \<Rightarrow> bytes \<Rightarrow> key_error + string" where
  "seal_field C message cipher ephemeral_public nonce plaintext aad =
     and_then (ok_or (Crypto message) (aead_encrypt C cipher nonce aad plaintext)) (\<lambda>ciphertext.
     Inr (hex_encode C (ephemeral_public @ nonce @ ciphertext)))"

definition open_blob :: "'x lib_scheme \<Rightarrow> string \<Rightarrow> string \<Rightarrow> nat \<Rightarrow> string \<Rightarrow> key_error + (bytes \<times> bytes \<times> bytes)" where
  "open_blob L bad_hex too_short key_len ciphertext_hex =
     and_then (decode_0x L bad_hex ciphertext_hex) (\<lambda>blob.
     and_then (ensure (key_len + E2EE_NONCE_LEN + TAG_LEN \<le> length blob)
         (Crypto (too_short @ '': got '' @ show_nat (length blob) @ '' bytes''))) (\<lambda>_.
     Inr (take key_len blob, take E2EE_NONCE_LEN (drop key_len blob), drop (key_len + E2EE_NONCE_LEN) blob)))"

definition open_field :: "'x crypto_scheme \<Rightarrow> string \<Rightarrow> bytes \<Rightarrow> bytes \<Rightarrow> bytes \<Rightarrow> bytes \<Rightarrow> key_error + bytes" where
  "open_field C message cipher nonce aad ciphertext = ok_or (Crypto message) (aead_decrypt C cipher nonce aad ciphertext)"

definition opt_aad :: "bytes option \<Rightarrow> bytes" where
  "opt_aad aad = (case aad of Some a \<Rightarrow> a | None \<Rightarrow> [])"

section \<open>Encryption and decryption of a field\<close>

type_synonym draw = "bytes \<times> bytes"

definition encrypt_x25519_for_public_key :: "'x crypto_scheme \<Rightarrow> draw \<Rightarrow> string \<Rightarrow> bytes \<Rightarrow> bytes \<Rightarrow> key_error + string" where
  "encrypt_x25519_for_public_key C draw recipient_hex plaintext aad =
     (case draw of (ephemeral, nonce) \<Rightarrow>
       and_then (x25519_public_key_from_hex C recipient_hex) (\<lambda>recipient.
       and_then (x25519_cipher_from_shared_secret C (x25519_dh C ephemeral recipient)) (\<lambda>cipher.
       seal_field C ''X25519 E2EE encrypt failed'' cipher (x25519_public C ephemeral) nonce plaintext aad)))"

definition decrypt_x25519_with_secret_key :: "'x crypto_scheme \<Rightarrow> bytes \<Rightarrow> string \<Rightarrow> bytes \<Rightarrow> key_error + bytes" where
  "decrypt_x25519_with_secret_key C secret ciphertext_hex aad =
     and_then (open_blob C ''invalid X25519 E2EE ciphertext hex'' ''X25519 E2EE ciphertext too short'' X25519_PUBLIC_KEY_LEN ciphertext_hex)
       (\<lambda>(eph, nonce, ciphertext).
     and_then (x25519_cipher_from_shared_secret C (x25519_dh C secret eph)) (\<lambda>cipher.
     open_field C ''X25519 E2EE decrypt failed'' cipher nonce aad ciphertext))"

definition encrypt_for_public_key :: "'x crypto_scheme \<Rightarrow> draw \<Rightarrow> string \<Rightarrow> bytes \<Rightarrow> bytes \<Rightarrow> key_error + string" where
  "encrypt_for_public_key C draw recipient_hex plaintext aad =
     (case draw of (ephemeral, nonce) \<Rightarrow>
       and_then (public_key_from_hex C recipient_hex) (\<lambda>recipient.
       and_then (cipher_from_shared_secret C (k256_dh C ephemeral recipient)) (\<lambda>cipher.
       seal_field C ''E2EE encrypt failed'' cipher (k256_public C ephemeral) nonce plaintext aad)))"

definition encrypt_aci_e2ee_for_public_key ::
  "'x crypto_scheme \<Rightarrow> draw \<Rightarrow> string \<Rightarrow> string \<Rightarrow> bytes \<Rightarrow> bytes \<Rightarrow> key_error + string" where
  "encrypt_aci_e2ee_for_public_key C draw alg recipient_hex plaintext aad =
     (if alg = E2EE_ALGO_X25519_AESGCM then encrypt_x25519_for_public_key C draw recipient_hex plaintext aad
      else if alg = E2EE_ALGO_SECP256K1_AESGCM then encrypt_for_public_key C draw recipient_hex plaintext aad
      else Inl (UnsupportedAlgo alg))"

definition encrypt_legacy_for_public_key ::
  "'x crypto_scheme \<Rightarrow> draw \<Rightarrow> string \<Rightarrow> string \<Rightarrow> bytes \<Rightarrow> bytes option \<Rightarrow> key_error + string" where
  "encrypt_legacy_for_public_key C draw signing_algo recipient_hex plaintext aad =
     (case draw of (ephemeral, nonce) \<Rightarrow>
       if signing_algo = E2EE_ALGO_LEGACY_ECDSA then
         and_then (public_key_from_hex C recipient_hex) (\<lambda>recipient.
         and_then (legacy_cipher_from_shared_secret C (k256_dh C ephemeral recipient) E2EE_ALGO_LEGACY_ECDSA) (\<lambda>cipher.
         seal_field C ''legacy E2EE encrypt failed'' cipher (k256_public C ephemeral) nonce plaintext (opt_aad aad)))
       else if signing_algo = E2EE_ALGO_LEGACY_ED25519 then
         and_then (ed25519_public_to_x25519_public_key C recipient_hex) (\<lambda>recipient.
         and_then (legacy_cipher_from_shared_secret C (x25519_dh C ephemeral recipient) E2EE_ALGO_LEGACY_ED25519) (\<lambda>cipher.
         seal_field C ''legacy E2EE encrypt failed'' cipher (x25519_public C ephemeral) nonce plaintext (opt_aad aad)))
       else Inl (UnsupportedAlgo signing_algo))"

definition decrypt_with_secret_key :: "'x crypto_scheme \<Rightarrow> bytes \<Rightarrow> string \<Rightarrow> bytes \<Rightarrow> key_error + bytes" where
  "decrypt_with_secret_key C secret ciphertext_hex aad =
     and_then (open_blob C ''invalid E2EE ciphertext hex'' ''E2EE ciphertext too short'' PUBLIC_KEY_LEN ciphertext_hex)
       (\<lambda>(eph, nonce, ciphertext).
     and_then (ok_or (Crypto ''invalid E2EE ephemeral public key'') (sec1_public C eph)) (\<lambda>eph.
     and_then (cipher_from_shared_secret C (k256_dh C secret eph)) (\<lambda>cipher.
     open_field C ''E2EE decrypt failed'' cipher nonce aad ciphertext)))"

definition decrypt_legacy_ecdsa_with_secret_key :: "'x crypto_scheme \<Rightarrow> bytes \<Rightarrow> string \<Rightarrow> bytes option \<Rightarrow> key_error + bytes" where
  "decrypt_legacy_ecdsa_with_secret_key C secret ciphertext_hex aad =
     and_then (open_blob C ''invalid legacy E2EE ciphertext hex'' ''legacy ECDSA E2EE ciphertext too short'' PUBLIC_KEY_LEN ciphertext_hex)
       (\<lambda>(eph, nonce, ciphertext).
     and_then (ok_or (Crypto ''invalid legacy ECDSA ephemeral public key'') (sec1_public C eph)) (\<lambda>eph.
     and_then (legacy_cipher_from_shared_secret C (k256_dh C secret eph) E2EE_ALGO_LEGACY_ECDSA) (\<lambda>cipher.
     open_field C ''legacy ECDSA E2EE decrypt failed'' cipher nonce (opt_aad aad) ciphertext)))"

definition decrypt_legacy_ed25519_with_secret_key :: "'x crypto_scheme \<Rightarrow> bytes \<Rightarrow> string \<Rightarrow> bytes option \<Rightarrow> key_error + bytes" where
  "decrypt_legacy_ed25519_with_secret_key C secret ciphertext_hex aad =
     and_then (open_blob C ''invalid legacy E2EE ciphertext hex'' ''legacy Ed25519 E2EE ciphertext too short'' X25519_PUBLIC_KEY_LEN ciphertext_hex)
       (\<lambda>(eph, nonce, ciphertext).
     and_then (legacy_cipher_from_shared_secret C (x25519_dh C (ed25519_private_to_x25519_private_key C secret) eph) E2EE_ALGO_LEGACY_ED25519) (\<lambda>cipher.
     open_field C ''legacy Ed25519 E2EE decrypt failed'' cipher nonce (opt_aad aad) ciphertext))"

section \<open>What is relied on\<close>

text \<open>Documented behaviour: the length of keys, an agreement that both sides compute alike, the SEC1 encoding of a key of
  this curve, the conversion of an Ed25519 key to its X25519 form, and authenticated encryption that decrypts what it sealed
  and appends a tag of 16 bytes.\<close>

definition crypto_ok :: "'x crypto_scheme \<Rightarrow> bool" where
  "crypto_ok C =
     ((\<forall>k n a m c. aead_encrypt C k n a m = Some c \<longrightarrow> aead_decrypt C k n a c = Some m \<and> length c = length m + TAG_LEN) \<and>
      (\<forall>s. length (x25519_public C s) = X25519_PUBLIC_KEY_LEN) \<and>
      (\<forall>s t. x25519_dh C s (x25519_public C t) = x25519_dh C t (x25519_public C s)) \<and>
      (\<forall>s. length (k256_public C s) = PUBLIC_KEY_LEN \<and> hd (k256_public C s) = CHR 0x04 \<and>
         sec1_encoded C (k256_public C s) = Some (k256_public C s) \<and> sec1_public C (k256_public C s) = Some (k256_public C s)) \<and>
      (\<forall>s t. k256_dh C s (k256_public C t) = k256_dh C t (k256_public C s)) \<and>
      (\<forall>s. length (ed25519_public C s) = 32 \<and>
         edwards_montgomery C (ed25519_public C s) = Some (x25519_public C (ed25519_private_to_x25519_private_key C s))))"

section \<open>Lemmas\<close>

lemma strip_0x_hex: "list_all is_lower_hex s \<Longrightarrow> strip_0x s = s"
  by (auto simp: strip_0x_def strip_prefix_Some is_lower_hex_def is_ascii_digit_def split: option.split)

lemma decode_0x_encode: "hex_ok L \<Longrightarrow> decode_0x L e (hex_encode L b) = Inr b"
  by (simp add: decode_0x_def hex_ok_def strip_0x_hex)

lemma open_sealed:
  assumes "hex_ok C" and "crypto_ok C" and "length nonce = E2EE_NONCE_LEN" and "length eph = n"
    and "seal_field C e cipher eph nonce m aad = Inr ct"
  shows "\<exists>c. \<forall>e1 e2 e3. open_blob C e1 e2 n ct = Inr (eph, nonce, c) \<and> open_field C e3 cipher nonce aad c = Inr m"
proof -
  obtain c where c: "aead_encrypt C cipher nonce aad m = Some c" "ct = hex_encode C (eph @ nonce @ c)"
    using assms(5) by (auto simp: seal_field_def result_iffs)
  have "aead_decrypt C cipher nonce aad c = Some m" "length c = length m + TAG_LEN"
    using assms(2) c(1) by (auto simp: crypto_ok_def)
  then have "open_blob C e1 e2 n ct = Inr (eph, nonce, c) \<and> open_field C e3 cipher nonce aad c = Inr m" for e1 e2 e3
    using assms(1,3,4) c(2) by (simp add: open_blob_def open_field_def decode_0x_encode)
  then show ?thesis by blast
qed

lemma x25519_key_roundtrip: "hex_ok C \<Longrightarrow> crypto_ok C \<Longrightarrow> x25519_public_key_from_hex C (x25519_public_key_hex C s) = Inr (x25519_public C s)"
  by (simp add: x25519_public_key_from_hex_def x25519_public_key_hex_def normalize_x25519_public_key_hex_def decode_0x_encode
      crypto_ok_def hex_ok_def)

lemma uncompressed_k256:
  assumes "crypto_ok C"
  shows "uncompressed_point (k256_public C s) = Some (k256_public C s)"
    and "uncompressed_point (drop 1 (k256_public C s)) = Some (k256_public C s)"
proof -
  have k: "length (k256_public C s) = 65" "hd (k256_public C s) = CHR 0x04"
    using assms by (auto simp: crypto_ok_def PUBLIC_KEY_LEN_def)
  then show "uncompressed_point (k256_public C s) = Some (k256_public C s)" by (simp add: uncompressed_point_def)
  show "uncompressed_point (drop 1 (k256_public C s)) = Some (k256_public C s)"
    using k by (cases "k256_public C s") (auto simp: uncompressed_point_def)
qed

lemma k256_key_roundtrip:
  assumes "hex_ok C" and "crypto_ok C"
  shows "public_key_from_hex C (public_key_from_secret C s) = Inr (k256_public C s)"
    and "public_key_from_hex C (legacy_ecdsa_public_key_from_secret C s) = Inr (k256_public C s)"
proof -
  have "sec1_encoded C (k256_public C s) = Some (k256_public C s)" "sec1_public C (k256_public C s) = Some (k256_public C s)"
    "hex_decode C (hex_encode C (k256_public C s)) = Some (k256_public C s)"
    using assms by (auto simp: crypto_ok_def hex_ok_def)
  then show "public_key_from_hex C (public_key_from_secret C s) = Inr (k256_public C s)"
    and "public_key_from_hex C (legacy_ecdsa_public_key_from_secret C s) = Inr (k256_public C s)"
    using assms by (simp_all add: public_key_from_hex_def public_key_from_secret_def legacy_ecdsa_public_key_from_secret_def
        normalize_secp256k1_public_key_hex_def decode_0x_encode uncompressed_k256 del: One_nat_def)
qed

lemma x25519_roundtrip:
  assumes "hex_ok C" and "crypto_ok C" and "length nonce = E2EE_NONCE_LEN"
    and "encrypt_x25519_for_public_key C (eph, nonce) (x25519_public_key_hex C s) m aad = Inr ct"
  shows "decrypt_x25519_with_secret_key C s ct aad = Inr m"
proof -
  obtain cipher where c: "x25519_cipher_from_shared_secret C (x25519_dh C eph (x25519_public C s)) = Inr cipher"
    "seal_field C ''X25519 E2EE encrypt failed'' cipher (x25519_public C eph) nonce m aad = Inr ct"
    using assms(4) by (auto simp: encrypt_x25519_for_public_key_def x25519_key_roundtrip [OF assms(1,2)] result_iffs)
  have "length (x25519_public C eph) = X25519_PUBLIC_KEY_LEN" "x25519_dh C s (x25519_public C eph) = x25519_dh C eph (x25519_public C s)"
    using assms(2) by (auto simp: crypto_ok_def)
  note key = this
  obtain x where x: "\<And>e1 e2. open_blob C e1 e2 X25519_PUBLIC_KEY_LEN ct = Inr (x25519_public C eph, nonce, x)"
    "\<And>e. open_field C e cipher nonce aad x = Inr m"
    using open_sealed [OF assms(1-3) key(1) c(2)] by auto
  then show ?thesis using key c(1) by (simp add: decrypt_x25519_with_secret_key_def)
qed

lemma k256_roundtrip:
  assumes "hex_ok C" and "crypto_ok C" and "length nonce = E2EE_NONCE_LEN"
    and "encrypt_for_public_key C (eph, nonce) (public_key_from_secret C s) m aad = Inr ct"
  shows "decrypt_with_secret_key C s ct aad = Inr m"
proof -
  obtain cipher where c: "cipher_from_shared_secret C (k256_dh C eph (k256_public C s)) = Inr cipher"
    "seal_field C ''E2EE encrypt failed'' cipher (k256_public C eph) nonce m aad = Inr ct"
    using assms(4) by (auto simp: encrypt_for_public_key_def k256_key_roundtrip [OF assms(1,2)] result_iffs)
  have "length (k256_public C eph) = PUBLIC_KEY_LEN" "k256_dh C s (k256_public C eph) = k256_dh C eph (k256_public C s)"
    "sec1_public C (k256_public C eph) = Some (k256_public C eph)"
    using assms(2) by (auto simp: crypto_ok_def)
  note key = this
  obtain x where x: "\<And>e1 e2. open_blob C e1 e2 PUBLIC_KEY_LEN ct = Inr (k256_public C eph, nonce, x)"
    "\<And>e. open_field C e cipher nonce aad x = Inr m"
    using open_sealed [OF assms(1-3) key(1) c(2)] by auto
  then show ?thesis using key c(1) by (simp add: decrypt_with_secret_key_def)
qed

lemma legacy_ecdsa_roundtrip:
  assumes "hex_ok C" and "crypto_ok C" and "length nonce = E2EE_NONCE_LEN"
    and "encrypt_legacy_for_public_key C (eph, nonce) E2EE_ALGO_LEGACY_ECDSA (legacy_ecdsa_public_key_from_secret C s) m aad = Inr ct"
  shows "decrypt_legacy_ecdsa_with_secret_key C s ct aad = Inr m"
proof -
  obtain cipher where c: "legacy_cipher_from_shared_secret C (k256_dh C eph (k256_public C s)) E2EE_ALGO_LEGACY_ECDSA = Inr cipher"
    "seal_field C ''legacy E2EE encrypt failed'' cipher (k256_public C eph) nonce m (opt_aad aad) = Inr ct"
    using assms(4) by (auto simp: encrypt_legacy_for_public_key_def k256_key_roundtrip [OF assms(1,2)] result_iffs)
  have "length (k256_public C eph) = PUBLIC_KEY_LEN" "k256_dh C s (k256_public C eph) = k256_dh C eph (k256_public C s)"
    "sec1_public C (k256_public C eph) = Some (k256_public C eph)"
    using assms(2) by (auto simp: crypto_ok_def)
  note key = this
  obtain x where x: "\<And>e1 e2. open_blob C e1 e2 PUBLIC_KEY_LEN ct = Inr (k256_public C eph, nonce, x)"
    "\<And>e. open_field C e cipher nonce (opt_aad aad) x = Inr m"
    using open_sealed [OF assms(1-3) key(1) c(2)] by auto
  then show ?thesis using key c(1) by (simp add: decrypt_legacy_ecdsa_with_secret_key_def)
qed

lemma legacy_ed25519_roundtrip:
  assumes "hex_ok C" and "crypto_ok C" and "length nonce = E2EE_NONCE_LEN"
    and "encrypt_legacy_for_public_key C (eph, nonce) E2EE_ALGO_LEGACY_ED25519 (ed25519_public_key_hex C s) m aad = Inr ct"
  shows "decrypt_legacy_ed25519_with_secret_key C s ct aad = Inr m"
proof -
  let ?x = "ed25519_private_to_x25519_private_key C s"
  have key: "ed25519_public_to_x25519_public_key C (ed25519_public_key_hex C s) = Inr (x25519_public C ?x)"
    using assms(1,2) by (simp add: ed25519_public_to_x25519_public_key_def ed25519_public_key_hex_def decode_0x_encode crypto_ok_def)
  have alg: "E2EE_ALGO_LEGACY_ED25519 \<noteq> E2EE_ALGO_LEGACY_ECDSA" by (simp add: e2ee_algos)
  obtain cipher where c: "legacy_cipher_from_shared_secret C (x25519_dh C eph (x25519_public C ?x)) E2EE_ALGO_LEGACY_ED25519 = Inr cipher"
    "seal_field C ''legacy E2EE encrypt failed'' cipher (x25519_public C eph) nonce m (opt_aad aad) = Inr ct"
    using assms(4) alg by (auto simp: encrypt_legacy_for_public_key_def key result_iffs)
  have "length (x25519_public C eph) = X25519_PUBLIC_KEY_LEN" "x25519_dh C ?x (x25519_public C eph) = x25519_dh C eph (x25519_public C ?x)"
    using assms(2) by (auto simp: crypto_ok_def)
  note key = this
  obtain x where x: "\<And>e1 e2. open_blob C e1 e2 X25519_PUBLIC_KEY_LEN ct = Inr (x25519_public C eph, nonce, x)"
    "\<And>e. open_field C e cipher nonce (opt_aad aad) x = Inr m"
    using open_sealed [OF assms(1-3) key(1) c(2)] by auto
  then show ?thesis using key c(1) by (simp add: decrypt_legacy_ed25519_with_secret_key_def)
qed

section \<open>Properties\<close>

text \<open>C13: What a recipient publishes is what it can decrypt. In each of the four suites, a field encrypted to the public key
  text derived from a secret, with any ephemeral key and nonce, decrypts under that secret and the same associated data to the
  plaintext.\<close>

theorem e2ee_roundtrip:
  assumes "hex_ok C" and "crypto_ok C" and "length nonce = E2EE_NONCE_LEN"
  shows "(encrypt_aci_e2ee_for_public_key C (eph, nonce) E2EE_ALGO_X25519_AESGCM (x25519_public_key_hex C s) m aad = Inr ct \<longrightarrow>
      decrypt_x25519_with_secret_key C s ct aad = Inr m) \<and>
    (encrypt_aci_e2ee_for_public_key C (eph, nonce) E2EE_ALGO_SECP256K1_AESGCM (public_key_from_secret C s) m aad = Inr ct \<longrightarrow>
      decrypt_with_secret_key C s ct aad = Inr m) \<and>
    (encrypt_legacy_for_public_key C (eph, nonce) E2EE_ALGO_LEGACY_ECDSA (legacy_ecdsa_public_key_from_secret C s) m laad = Inr ct \<longrightarrow>
      decrypt_legacy_ecdsa_with_secret_key C s ct laad = Inr m) \<and>
    (encrypt_legacy_for_public_key C (eph, nonce) E2EE_ALGO_LEGACY_ED25519 (ed25519_public_key_hex C s) m laad = Inr ct \<longrightarrow>
      decrypt_legacy_ed25519_with_secret_key C s ct laad = Inr m)"
proof -
  have "E2EE_ALGO_SECP256K1_AESGCM \<noteq> E2EE_ALGO_X25519_AESGCM" by (simp add: e2ee_algos)
  then show ?thesis
    using x25519_roundtrip [OF assms] k256_roundtrip [OF assms] legacy_ecdsa_roundtrip [OF assms] legacy_ed25519_roundtrip [OF assms]
    by (simp add: encrypt_aci_e2ee_for_public_key_def)
qed

text \<open>Operations that satisfy the hypotheses, for the witnesses.\<close>

definition sample_mix :: "bytes \<Rightarrow> bytes \<Rightarrow> bytes" where
  "sample_mix a b = map2 (\<lambda>x y. char_of (of_char x + of_char y :: nat)) a b"

definition sample_tag :: "bytes \<Rightarrow> bytes \<Rightarrow> bytes \<Rightarrow> bytes" where
  "sample_tag k n a = sample_pad 16 (a @ n @ k)"

definition sample_clamp :: "bytes \<Rightarrow> bytes" where
  "sample_clamp s = mask (\<lambda>c. c OR 64) 31 (mask (\<lambda>c. c AND 127) 31 (mask (\<lambda>c. c AND 248) 0 (take 32 (sample_pad 64 s))))"

definition sample_chat :: json where
  "sample_chat = JObject [(''id'', JString ''r''), (''choices'', JArray [JObject [(''message'', JObject [(''content'', JString ''hi'')])]])]"

definition sample_prompt :: json where
  "sample_prompt = JObject [(''model'', JString ''m''), (''prompt'', JString ''00'')]"

definition sample_crypto :: crypto where
  "sample_crypto = lib.extend (sample_lib\<lparr>from_slice := (\<lambda>b. if b = ''chat'' then Some sample_chat
       else if b = ''prompt'' then Some sample_prompt else None)\<rparr>) \<lparr>
     hkdf_sha256 = (\<lambda>s i. Some (sample_pad 32 (s @ i))),
     aead_encrypt = (\<lambda>k n a m. Some (m @ sample_tag k n a)),
     aead_decrypt = (\<lambda>k n a c. if drop (length c - 16) c = sample_tag k n a then Some (take (length c - 16) c) else None),
     x25519_public = sample_pad 32,
     x25519_dh = (\<lambda>s. sample_mix (sample_pad 32 s)),
     sec1_encoded = Some,
     sec1_public = Some,
     k256_public = (\<lambda>s. CHR 0x04 # sample_pad 64 s),
     k256_dh = (\<lambda>s. sample_mix (CHR 0x04 # sample_pad 64 s)),
     edwards_montgomery = (\<lambda>p. Some (sample_pad 32 p)),
     ed25519_public = (\<lambda>s. sample_pad 32 (sample_clamp s)),
     sha512 = sample_pad 64\<rparr>"

lemma length_sample_pad [simp]: "length (sample_pad n b) = n"
  by (simp add: sample_pad_def)

lemma sample_pad_pad [simp]: "sample_pad n (sample_pad n b) = sample_pad n b"
  by (simp add: sample_pad_def)

lemma sample_mix_commute: "sample_mix a b = sample_mix b a"
  unfolding sample_mix_def by (simp add: list_eq_iff_nth_eq min.commute add.commute)

lemma sample_crypto_hex: "hex_ok sample_crypto"
  using sample_lib_laws(3) by (simp add: hex_ok_def sample_crypto_def lib.defs)

lemma sample_crypto_ok: "crypto_ok sample_crypto"
proof -
  have "ed25519_private_to_x25519_private_key sample_crypto s = sample_clamp s" for s
    by (simp add: ed25519_private_to_x25519_private_key_def sample_clamp_def sample_crypto_def lib.defs)
  then show ?thesis
    using sample_mix_commute by (simp add: crypto_ok_def sample_crypto_def lib.defs e2ee_lens sample_tag_def)
qed

theorem e2ee_roundtrip_witness:
  "\<exists>ct. encrypt_aci_e2ee_for_public_key sample_crypto (''e'', ''0123456789ab'') E2EE_ALGO_X25519_AESGCM
      (x25519_public_key_hex sample_crypto ''s'') ''hello'' ''aad'' = Inr ct \<and>
    decrypt_x25519_with_secret_key sample_crypto ''s'' ct ''aad'' = Inr ''hello''"
proof -
  have "length ''0123456789ab'' = E2EE_NONCE_LEN" by (simp add: E2EE_NONCE_LEN_def)
  note decrypts = e2ee_roundtrip [OF sample_crypto_hex sample_crypto_ok this]
  obtain k where "x25519_cipher_from_shared_secret sample_crypto (x25519_dh sample_crypto ''e'' (x25519_public sample_crypto ''s'')) = Inr k"
    by (simp add: x25519_cipher_from_shared_secret_def sample_crypto_def lib.defs)
  moreover obtain ct where "seal_field sample_crypto ''X25519 E2EE encrypt failed'' k (x25519_public sample_crypto ''e'') ''0123456789ab'' ''hello'' ''aad'' = Inr ct"
    by (simp add: seal_field_def sample_crypto_def lib.defs)
  ultimately have "encrypt_aci_e2ee_for_public_key sample_crypto (''e'', ''0123456789ab'') E2EE_ALGO_X25519_AESGCM
      (x25519_public_key_hex sample_crypto ''s'') ''hello'' ''aad'' = Inr ct"
    by (simp add: encrypt_aci_e2ee_for_public_key_def encrypt_x25519_for_public_key_def
        x25519_key_roundtrip [OF sample_crypto_hex sample_crypto_ok])
  then show ?thesis using decrypts by blast
qed

text \<open>C32: A normalised key text is canonical: lower-case hexadecimal of 64 digits, or of 130 digits starting with 04, that
  normalises to itself; and two accepted texts normalise alike exactly when they spell the same key.\<close>

theorem normalize_key_canonical:
  assumes "hex_ok C" and "\<And>p. length p = 65 \<Longrightarrow> hd p = CHR 0x04 \<Longrightarrow> sec1_encoded C p = Some p"
    and "normalize_aci_e2ee_public_key_hex C alg v = Inr h" and "normalize_aci_e2ee_public_key_hex C alg w = Inr h'"
  shows "list_all is_lower_hex h \<and> length h = (if alg = E2EE_ALGO_X25519_AESGCM then 64 else 130) \<and>
    normalize_aci_e2ee_public_key_hex C alg h = Inr h \<and>
    (h = h' \<longleftrightarrow> (if alg = E2EE_ALGO_X25519_AESGCM then hex_decode C (strip_0x v) = hex_decode C (strip_0x w)
       else Option.bind (hex_decode C (strip_0x v)) uncompressed_point = Option.bind (hex_decode C (strip_0x w)) uncompressed_point))"
proof (cases "alg = E2EE_ALGO_X25519_AESGCM")
  case True
  obtain b b' where "hex_decode C (strip_0x v) = Some b" "length b = 32" "h = hex_encode C b"
    "hex_decode C (strip_0x w) = Some b'" "h' = hex_encode C b'"
    using assms(3,4) True
    by (auto simp: normalize_aci_e2ee_public_key_hex_def normalize_x25519_public_key_hex_def decode_0x_def result_iffs e2ee_lens)
  then show ?thesis
    using assms(1) True by (auto simp: normalize_aci_e2ee_public_key_hex_def normalize_x25519_public_key_hex_def decode_0x_encode
        e2ee_lens hex_ok_inj) (auto simp: hex_ok_def)
next
  case False
  have point: "normalize_secp256k1_public_key_hex C v = Inr h \<longleftrightarrow>
      (\<exists>b p. hex_decode C (strip_0x v) = Some b \<and> uncompressed_point b = Some p \<and> sec1_public C p \<noteq> None \<and> h = hex_encode C p)" for v h
    using assms(2) by (auto simp: normalize_secp256k1_public_key_hex_def decode_0x_def result_iffs uncompressed_point_def split: if_splits)
  obtain b p b' p' where "hex_decode C (strip_0x v) = Some b" "uncompressed_point b = Some p" "sec1_public C p \<noteq> None" "h = hex_encode C p"
    "hex_decode C (strip_0x w) = Some b'" "uncompressed_point b' = Some p'" "h' = hex_encode C p'"
    using assms(3,4) False by (auto simp: normalize_aci_e2ee_public_key_hex_def point split: if_splits)
  moreover have "length p = 65 \<and> uncompressed_point p = Some p"
    using \<open>uncompressed_point b = Some p\<close> by (auto simp: uncompressed_point_def split: if_splits)
  moreover have "alg = E2EE_ALGO_SECP256K1_AESGCM" using assms(3) False by (auto simp: normalize_aci_e2ee_public_key_hex_def split: if_splits)
  moreover have "strip_0x h = h" "hex_decode C h = Some p" "list_all is_lower_hex h" "length h = 2 * length p"
    using assms(1) \<open>h = hex_encode C p\<close> strip_0x_hex by (auto simp: hex_ok_def)
  ultimately show ?thesis
    using assms(1) False by (auto simp: normalize_aci_e2ee_public_key_hex_def point hex_ok_inj)
qed

theorem normalize_key_canonical_witness:
  "\<exists>h. normalize_aci_e2ee_public_key_hex sample_crypto E2EE_ALGO_X25519_AESGCM (''0x'' @ x25519_public_key_hex sample_crypto ''s'') = Inr h \<and>
     normalize_aci_e2ee_public_key_hex sample_crypto E2EE_ALGO_X25519_AESGCM h = Inr h \<and> length h = 64"
proof -
  let ?h = "x25519_public_key_hex sample_crypto ''s''"
  have hex: "list_all is_lower_hex ?h" "hex_decode sample_crypto ?h = Some (sample_pad 32 ''s'')"
    using sample_crypto_hex by (auto simp: x25519_public_key_hex_def hex_ok_def sample_crypto_def lib.defs)
  have "hex_encode sample_crypto (sample_pad 32 ''s'') = ?h" by (simp add: x25519_public_key_hex_def sample_crypto_def lib.defs)
  then have norm: "normalize_aci_e2ee_public_key_hex sample_crypto E2EE_ALGO_X25519_AESGCM v = Inr ?h" if "strip_0x v = ?h" for v
    using hex that by (simp add: normalize_aci_e2ee_public_key_hex_def normalize_x25519_public_key_hex_def decode_0x_def e2ee_lens)
  have strip: "strip_0x (''0x'' @ ?h) = ?h" by (simp add: strip_0x_def)
  have "sec1_encoded sample_crypto p = Some p" for p by (simp add: sample_crypto_def lib.defs)
  then show ?thesis
    using normalize_key_canonical [OF sample_crypto_hex _ norm [OF strip] norm [OF strip_0x_hex [OF hex(1)]]] norm [OF strip] by simp
qed

end
