(* ===== verification/E2eeFields.thy ===== *)
theory E2eeFields
  imports E2ee
begin

text \<open>
  Which fields of a request and of a response are encrypted, and under which associated data
  (\<open>src/aggregator/service/e2ee_crypto.rs\<close>, with the context types of \<open>wire.rs\<close>). A function that changes a value in
  place returns the changed value. The number of fields decrypted so far, and the number of random draws so far, are threaded
  through the loops.
\<close>

section \<open>Types\<close>

datatype e2ee_error =
    HeaderMissing | InvalidSigningAlgo | InvalidVersion | InvalidPublicKey | ModelKeyMismatch | InvalidNonce | ReplayDetected
  | InvalidTimestamp | InvalidPayloadModel | DecryptionFailed | EncryptionFailed

datatype aad_mode = AciV2 | LegacyV1

definition is_aci :: "aad_mode \<Rightarrow> bool" where
  "is_aci mode = (mode = AciV2)"

datatype e2ee_decryptor = DecryptAciV2 string | DecryptLegacy string

record e2ee_request_context =
  cx_version :: string
  cx_algo :: string
  cx_aad_mode :: aad_mode
  cx_request_model :: string
  cx_client_public_key_hex :: string
  cx_nonce :: "string option"
  cx_timestamp :: "u64 option"

text \<open>The decrypting operations of the key provider.\<close>

record e2ee_provider =
  decrypt_e2ee :: "string \<Rightarrow> string \<Rightarrow> bytes \<Rightarrow> key_error + bytes"
  decrypt_legacy_e2ee :: "string \<Rightarrow> string \<Rightarrow> bytes option \<Rightarrow> key_error + bytes"
  legacy_e2ee_keys :: "keyed_public_key list"

record e2ee_field_crypto =
  fc_keys :: e2ee_provider
  fc_decryptor :: e2ee_decryptor
  fc_algo :: string
  fc_aad_mode :: aad_mode
  fc_model :: string
  fc_nonce :: "string option"
  fc_timestamp :: "u64 option"

definition COMPLETIONS_PATH :: string where "COMPLETIONS_PATH = ''/v1/completions''"
definition EMBEDDINGS_PATH :: string where "EMBEDDINGS_PATH = ''/v1/embeddings''"

section \<open>Standard library\<close>

text \<open>\<open>String::from_utf8\<close> accepts the well-formed byte sequences of the Unicode standard.\<close>

definition in_range :: "nat \<Rightarrow> nat \<Rightarrow> char \<Rightarrow> bool" where
  "in_range lo hi c = (lo \<le> of_char c \<and> of_char c \<le> hi)"

definition utf8_cont :: "char \<Rightarrow> bool" where
  "utf8_cont c = in_range 0x80 0xBF c"

fun utf8_valid :: "bytes \<Rightarrow> bool" where
  "utf8_valid [] = True"
| "utf8_valid (a # b) =
     (if in_range 0 0x7F a then utf8_valid b
      else if in_range 0xC2 0xDF a then (case b of c # r \<Rightarrow> utf8_cont c \<and> utf8_valid r | _ \<Rightarrow> False)
      else if in_range 0xE0 0xEF a then
        (case b of c # d # r \<Rightarrow> utf8_cont c \<and> utf8_cont d \<and> (of_char a = (0xE0 :: nat) \<longrightarrow> in_range 0xA0 0xBF c) \<and>
             (of_char a = (0xED :: nat) \<longrightarrow> in_range 0x80 0x9F c) \<and> utf8_valid r | _ \<Rightarrow> False)
      else if in_range 0xF0 0xF4 a then
        (case b of c # d # e # r \<Rightarrow> utf8_cont c \<and> utf8_cont d \<and> utf8_cont e \<and> (of_char a = (0xF0 :: nat) \<longrightarrow> in_range 0x90 0xBF c) \<and>
             (of_char a = (0xF4 :: nat) \<longrightarrow> in_range 0x80 0x8F c) \<and> utf8_valid r | _ \<Rightarrow> False)
      else False)"

definition from_utf8 :: "bytes \<Rightarrow> string option" where
  "from_utf8 b = (if utf8_valid b then Some b else None)"

text \<open>A loop over the elements of an array with their positions, that may fail.\<close>

fun try_walk :: "(nat \<Rightarrow> 'a \<Rightarrow> 's \<Rightarrow> 'e + 'a \<times> 's) \<Rightarrow> nat \<Rightarrow> 'a list \<Rightarrow> 's \<Rightarrow> 'e + 'a list \<times> 's" where
  "try_walk f i [] s = Inr ([], s)"
| "try_walk f i (x # xs) s =
     and_then (f i x s) (\<lambda>(x', s). and_then (try_walk f (Suc i) xs s) (\<lambda>(xs', s). Inr (x' # xs', s)))"

section \<open>Validation\<close>

definition validate_aci_e2ee_nonce :: "string \<Rightarrow> e2ee_error + unit" where
  "validate_aci_e2ee_nonce nonce = ensure (length nonce = 64 \<and> list_all is_ascii_hexdigit nonce) InvalidNonce"

definition normalize_ed25519_public_key_hex :: "'x lib_scheme \<Rightarrow> string \<Rightarrow> e2ee_error + string" where
  "normalize_ed25519_public_key_hex L v =
     and_then (ok_or InvalidPublicKey (hex_decode L (strip_0x v))) (\<lambda>b.
     and_then (ensure (length b = 32) InvalidPublicKey) (\<lambda>_. Inr (hex_encode L b)))"

text \<open>\<open>is_ok_and\<close> over both spellings.\<close>

definition same_ok :: "'e + 'a \<Rightarrow> 'e + 'a \<Rightarrow> bool" where
  "same_ok a b = (case (a, b) of (Inr x, Inr y) \<Rightarrow> x = y | _ \<Rightarrow> False)"

definition legacy_public_keys_match :: "'x crypto_scheme \<Rightarrow> string \<Rightarrow> string \<Rightarrow> string \<Rightarrow> bool" where
  "legacy_public_keys_match C signing_algo expected supplied =
     (if signing_algo = E2EE_ALGO_LEGACY_ECDSA
      then same_ok (normalize_secp256k1_public_key_hex C expected) (normalize_secp256k1_public_key_hex C supplied)
      else if signing_algo = E2EE_ALGO_LEGACY_ED25519
      then same_ok (normalize_ed25519_public_key_hex C expected) (normalize_ed25519_public_key_hex C supplied)
      else False)"

definition normalize_legacy_public_key_for_replay :: "'x crypto_scheme \<Rightarrow> string \<Rightarrow> string \<Rightarrow> e2ee_error + string" where
  "normalize_legacy_public_key_for_replay C signing_algo v =
     (if signing_algo = E2EE_ALGO_LEGACY_ECDSA then map_err (\<lambda>_. InvalidPublicKey) (normalize_secp256k1_public_key_hex C v)
      else if signing_algo = E2EE_ALGO_LEGACY_ED25519 then map_err (\<lambda>_. InvalidPublicKey) (normalize_ed25519_public_key_hex C v)
      else Inl InvalidSigningAlgo)"

definition validate_aci_payload_model :: "json \<Rightarrow> e2ee_error + string" where
  "validate_aci_payload_model payload = ok_or InvalidPayloadModel (jget_str payload ''model'')"

section \<open>Associated data\<close>

definition aci_request_document :: "string \<Rightarrow> string \<Rightarrow> string \<Rightarrow> string \<Rightarrow> u64 \<Rightarrow> json" where
  "aci_request_document alg model field nonce ts = JObject [(''purpose'', JString ''aci.e2ee.request.v2''), (''algo'', JString alg),
     (''model'', JString model), (''field'', JString field), (''nonce'', JString nonce), (''ts'', JNumber (PosInt ts))]"

definition aci_request_aad :: "'x lib_scheme \<Rightarrow> string \<Rightarrow> string \<Rightarrow> string \<Rightarrow> string \<Rightarrow> u64 \<Rightarrow> e2ee_error + bytes" where
  "aci_request_aad L alg model field nonce ts =
     map_err (\<lambda>_. DecryptionFailed) (jcs_bytes L (aci_request_document alg model field nonce ts))"

definition aci_response_document :: "string \<Rightarrow> string \<Rightarrow> string \<Rightarrow> string \<Rightarrow> string \<Rightarrow> u64 \<Rightarrow> json" where
  "aci_response_document alg model rid field nonce ts = JObject [(''purpose'', JString ''aci.e2ee.response.v2''), (''algo'', JString alg),
     (''model'', JString model), (''id'', JString rid), (''field'', JString field), (''nonce'', JString nonce),
     (''ts'', JNumber (PosInt ts))]"

definition aci_response_aad :: "'x lib_scheme \<Rightarrow> string \<Rightarrow> string \<Rightarrow> string \<Rightarrow> string \<Rightarrow> string \<Rightarrow> u64 \<Rightarrow> e2ee_error + bytes" where
  "aci_response_aad L alg model rid field nonce ts =
     map_err (\<lambda>_. EncryptionFailed) (jcs_bytes L (aci_response_document alg model rid field nonce ts))"

definition nonce_ts :: "e2ee_field_crypto \<Rightarrow> e2ee_error + (string \<times> u64)" where
  "nonce_ts crypto =
     and_then (ok_or DecryptionFailed (fc_nonce crypto)) (\<lambda>nonce.
     and_then (ok_or DecryptionFailed (fc_timestamp crypto)) (\<lambda>timestamp. Inr (nonce, timestamp)))"

definition request_field_aad :: "'x lib_scheme \<Rightarrow> e2ee_field_crypto \<Rightarrow> string \<Rightarrow> e2ee_error + bytes option" where
  "request_field_aad L crypto field =
     (case fc_aad_mode crypto of
        AciV2 \<Rightarrow> and_then (nonce_ts crypto) (\<lambda>(nonce, timestamp).
          and_then (aci_request_aad L (fc_algo crypto) (fc_model crypto) field nonce timestamp) (\<lambda>a. Inr (Some a)))
      | LegacyV1 \<Rightarrow> Inr None)"

definition response_nonce_ts :: "e2ee_request_context \<Rightarrow> e2ee_error + (string \<times> u64)" where
  "response_nonce_ts ctx =
     and_then (ok_or EncryptionFailed (cx_nonce ctx)) (\<lambda>nonce.
     and_then (ok_or EncryptionFailed (cx_timestamp ctx)) (\<lambda>timestamp. Inr (nonce, timestamp)))"

definition response_aad_for_context :: "'x lib_scheme \<Rightarrow> e2ee_request_context \<Rightarrow> string \<Rightarrow> string \<Rightarrow> e2ee_error + bytes option" where
  "response_aad_for_context L ctx rid field =
     (case cx_aad_mode ctx of
        AciV2 \<Rightarrow> and_then (response_nonce_ts ctx) (\<lambda>(nonce, timestamp).
          and_then (aci_response_aad L (cx_algo ctx) (cx_request_model ctx) rid field nonce timestamp) (\<lambda>a. Inr (Some a)))
      | LegacyV1 \<Rightarrow> Inr None)"

definition embedding_response_aad_for_context :: "'x lib_scheme \<Rightarrow> e2ee_request_context \<Rightarrow> string \<Rightarrow> nat \<Rightarrow> e2ee_error + bytes option" where
  "embedding_response_aad_for_context L ctx rid data_index =
     (case cx_aad_mode ctx of
        AciV2 \<Rightarrow> and_then (response_nonce_ts ctx) (\<lambda>(nonce, timestamp).
          let field = ''data.'' @ show_nat data_index @ ''.embedding''
          in and_then (aci_response_aad L (cx_algo ctx) (cx_request_model ctx) rid field nonce timestamp) (\<lambda>a. Inr (Some a)))
      | LegacyV1 \<Rightarrow> Inr None)"

section \<open>Decrypting a request\<close>

definition decrypt_e2ee_field :: "e2ee_field_crypto \<Rightarrow> string \<Rightarrow> bytes option \<Rightarrow> e2ee_error + bytes" where
  "decrypt_e2ee_field crypto ciphertext_hex aad =
     (case fc_decryptor crypto of
        DecryptAciV2 key \<Rightarrow> and_then (ok_or DecryptionFailed aad) (\<lambda>aad.
          map_err (\<lambda>_. DecryptionFailed) (decrypt_e2ee (fc_keys crypto) key ciphertext_hex aad))
      | DecryptLegacy signing_algo \<Rightarrow>
          map_err (\<lambda>_. DecryptionFailed) (decrypt_legacy_e2ee (fc_keys crypto) signing_algo ciphertext_hex aad))"

text \<open>The three steps every encrypted string goes through: its associated data, decryption, and UTF-8.\<close>

definition decrypt_text :: "'x lib_scheme \<Rightarrow> e2ee_field_crypto \<Rightarrow> string \<Rightarrow> string \<Rightarrow> e2ee_error + string" where
  "decrypt_text L crypto field ciphertext_hex =
     and_then (request_field_aad L crypto field) (\<lambda>aad.
     and_then (decrypt_e2ee_field crypto ciphertext_hex aad) (\<lambda>plaintext.
     ok_or DecryptionFailed (from_utf8 plaintext)))"

definition decrypted_chat_content_value :: "'x lib_scheme \<Rightarrow> string \<Rightarrow> json" where
  "decrypted_chat_content_value L plaintext =
     (case from_slice L plaintext of Some (JArray items) \<Rightarrow> JArray items | _ \<Rightarrow> JString plaintext)"

text \<open>An array of strings under \<open>prompt\<close> or \<open>input\<close>; other elements pass through.\<close>

definition decrypt_item :: "'x lib_scheme \<Rightarrow> e2ee_field_crypto \<Rightarrow> string \<Rightarrow> nat \<Rightarrow> json \<Rightarrow> nat \<Rightarrow> e2ee_error + json \<times> nat" where
  "decrypt_item L crypto name index item n =
     (case item of
        JString ciphertext_hex \<Rightarrow>
          and_then (decrypt_text L crypto (name @ ''.'' @ show_nat index) ciphertext_hex) (\<lambda>p. Inr (JString p, Suc n))
      | _ \<Rightarrow> Inr (item, n))"

definition decrypt_strings :: "'x lib_scheme \<Rightarrow> e2ee_field_crypto \<Rightarrow> string \<Rightarrow> json \<Rightarrow> e2ee_error + json" where
  "decrypt_strings L crypto name payload =
     (case jget payload name of
        None \<Rightarrow> Inl DecryptionFailed
      | Some v \<Rightarrow>
          and_then (case v of
              JString ciphertext_hex \<Rightarrow> and_then (decrypt_text L crypto name ciphertext_hex) (\<lambda>p. Inr (JString p, 1))
            | JArray items \<Rightarrow> and_then (try_walk (decrypt_item L crypto name) 0 items 0) (\<lambda>(items, n). Inr (JArray items, n))
            | _ \<Rightarrow> Inr (v, 0)) (\<lambda>(v, n).
          and_then (ensure (n \<noteq> 0) DecryptionFailed) (\<lambda>_. Inr (jset payload name v))))"

definition decrypt_completion_prompt :: "'x lib_scheme \<Rightarrow> e2ee_field_crypto \<Rightarrow> json \<Rightarrow> e2ee_error + json" where
  "decrypt_completion_prompt L crypto payload = decrypt_strings L crypto ''prompt'' payload"

definition decrypt_embedding_input :: "'x lib_scheme \<Rightarrow> e2ee_field_crypto \<Rightarrow> json \<Rightarrow> e2ee_error + json" where
  "decrypt_embedding_input L crypto payload = decrypt_strings L crypto ''input'' payload"

definition decrypt_content_part_field ::
  "'x lib_scheme \<Rightarrow> e2ee_field_crypto \<Rightarrow> json \<Rightarrow> string \<Rightarrow> string \<Rightarrow> e2ee_error + json \<times> nat" where
  "decrypt_content_part_field L crypto part key field =
     (case jget part key of
        Some (JString ciphertext_hex) \<Rightarrow>
          and_then (decrypt_text L crypto field ciphertext_hex) (\<lambda>p. Inr (jset part key (JString p), 1))
      | _ \<Rightarrow> Inr (part, 0))"

definition decrypt_content_part_nested ::
  "'x lib_scheme \<Rightarrow> e2ee_field_crypto \<Rightarrow> json \<Rightarrow> string \<Rightarrow> string \<Rightarrow> string \<Rightarrow> e2ee_error + json \<times> nat" where
  "decrypt_content_part_nested L crypto part wrapper_key inner_key field =
     (case jget part wrapper_key of
        Some (JObject wrapper) \<Rightarrow>
          and_then (decrypt_content_part_field L crypto (JObject wrapper) inner_key field) (\<lambda>(w, n).
          Inr (if n = 0 then part else jset part wrapper_key w, n))
      | _ \<Rightarrow> Inr (part, 0))"

definition message_field :: "nat \<Rightarrow> string" where
  "message_field m = ''messages.'' @ show_nat m @ ''.content''"

definition part_field :: "nat \<Rightarrow> nat \<Rightarrow> string \<Rightarrow> string" where
  "part_field m c name = message_field m @ ''.'' @ show_nat c @ name"

definition decrypt_content_part ::
  "'x lib_scheme \<Rightarrow> e2ee_field_crypto \<Rightarrow> nat \<Rightarrow> nat \<Rightarrow> json \<Rightarrow> e2ee_error + json \<times> nat" where
  "decrypt_content_part L crypto m c part =
     (let ty = jget_str part ''type''
      in if ty = Some ''text'' then decrypt_content_part_field L crypto part ''text'' (part_field m c ''.text'')
         else if ty = Some ''image_url'' \<and> is_aci (fc_aad_mode crypto)
         then decrypt_content_part_nested L crypto part ''image_url'' ''url'' (part_field m c ''.image_url.url'')
         else if ty = Some ''input_audio'' \<and> is_aci (fc_aad_mode crypto)
         then decrypt_content_part_nested L crypto part ''input_audio'' ''data'' (part_field m c ''.input_audio.data'')
         else Inr (part, 0))"

definition decrypt_content_value :: "'x lib_scheme \<Rightarrow> e2ee_field_crypto \<Rightarrow> nat \<Rightarrow> json \<Rightarrow> e2ee_error + json \<times> nat" where
  "decrypt_content_value L crypto m content =
     (case content of
        JString ciphertext_hex \<Rightarrow>
          and_then (decrypt_text L crypto (message_field m) ciphertext_hex) (\<lambda>p. Inr (decrypted_chat_content_value L p, 1))
      | JArray items \<Rightarrow>
          and_then (try_walk (\<lambda>c item n. if is_object item
              then and_then (decrypt_content_part L crypto m c item) (\<lambda>(item, k). Inr (item, n + k)) else Inr (item, n)) 0 items 0)
            (\<lambda>(items, n). Inr (JArray items, n))
      | _ \<Rightarrow> Inr (content, 0))"

definition decrypt_message :: "'x lib_scheme \<Rightarrow> e2ee_field_crypto \<Rightarrow> nat \<Rightarrow> json \<Rightarrow> nat \<Rightarrow> e2ee_error + json \<times> nat" where
  "decrypt_message L crypto m message n =
     (case jget message ''content'' of
        None \<Rightarrow> Inr (message, n)
      | Some content \<Rightarrow>
          and_then (decrypt_content_value L crypto m content) (\<lambda>(content, k). Inr (jset message ''content'' content, n + k)))"

definition decrypt_request_payload :: "'x lib_scheme \<Rightarrow> e2ee_field_crypto \<Rightarrow> string \<Rightarrow> json \<Rightarrow> e2ee_error + json" where
  "decrypt_request_payload L crypto endpoint_path payload =
     (if endpoint_path = COMPLETIONS_PATH then decrypt_completion_prompt L crypto payload
      else if endpoint_path = EMBEDDINGS_PATH then decrypt_embedding_input L crypto payload
      else case Option.bind (jget payload ''messages'') as_array of
        None \<Rightarrow> Inl DecryptionFailed
      | Some messages \<Rightarrow>
          and_then (try_walk (decrypt_message L crypto) 0 messages 0) (\<lambda>(messages, n).
          and_then (ensure (n \<noteq> 0) DecryptionFailed) (\<lambda>_. Inr (jset payload ''messages'' (JArray messages)))))"

section \<open>Encrypting a response\<close>

text \<open>\<open>rnd k\<close> is the \<open>k\<close>-th draw of an ephemeral secret and a nonce; \<open>k\<close> counts the draws made.\<close>

definition encrypt_response_plaintext ::
  "'x crypto_scheme \<Rightarrow> draw \<Rightarrow> e2ee_request_context \<Rightarrow> bytes \<Rightarrow> bytes option \<Rightarrow> e2ee_error + string" where
  "encrypt_response_plaintext C draw ctx plaintext aad =
     (case cx_aad_mode ctx of
        AciV2 \<Rightarrow> and_then (ok_or EncryptionFailed aad) (\<lambda>aad.
          map_err (\<lambda>_. EncryptionFailed)
            (encrypt_aci_e2ee_for_public_key C draw (cx_algo ctx) (cx_client_public_key_hex ctx) plaintext aad))
      | LegacyV1 \<Rightarrow>
          map_err (\<lambda>_. EncryptionFailed)
            (encrypt_legacy_for_public_key C draw (cx_algo ctx) (cx_client_public_key_hex ctx) plaintext aad))"

definition optional_response_string :: "json \<Rightarrow> e2ee_error + string option" where
  "optional_response_string v = (case v of JNull \<Rightarrow> Inr None | JString s \<Rightarrow> Inr (Some s) | _ \<Rightarrow> Inl EncryptionFailed)"

definition encrypt_response_field ::
  "'x crypto_scheme \<Rightarrow> (nat \<Rightarrow> draw) \<Rightarrow> e2ee_request_context \<Rightarrow> string \<Rightarrow> string \<Rightarrow> string \<Rightarrow> json \<times> nat \<Rightarrow> e2ee_error + json \<times> nat" where
  "encrypt_response_field C rnd ctx rid field_name aci_field st =
     (case st of (container, k) \<Rightarrow>
       case jget container field_name of
         None \<Rightarrow> Inr (container, k)
       | Some v \<Rightarrow>
           and_then (optional_response_string v) (\<lambda>plaintext.
           case plaintext of
             None \<Rightarrow> Inr (container, k)
           | Some p \<Rightarrow>
               and_then (response_aad_for_context C ctx rid aci_field) (\<lambda>aad.
               and_then (encrypt_response_plaintext C (rnd k) ctx p aad) (\<lambda>ct.
               Inr (jset container field_name (JString ct), Suc k)))))"

definition encrypt_message_audio_data ::
  "'x crypto_scheme \<Rightarrow> (nat \<Rightarrow> draw) \<Rightarrow> e2ee_request_context \<Rightarrow> string \<Rightarrow> nat \<Rightarrow> json \<times> nat \<Rightarrow> e2ee_error + json \<times> nat" where
  "encrypt_message_audio_data C rnd ctx rid choice_index st =
     (case st of (message, k) \<Rightarrow>
       case jget message ''audio'' of
         Some (JObject audio) \<Rightarrow>
           (case map_of audio ''data'' of
              Some (JString plaintext) \<Rightarrow>
                and_then (response_nonce_ts ctx) (\<lambda>(nonce, timestamp).
                let field = ''choices.'' @ show_nat choice_index @ ''.message.audio.data''
                in and_then (aci_response_aad C (cx_algo ctx) (cx_request_model ctx) rid field nonce timestamp) (\<lambda>aad.
                   and_then (encrypt_response_plaintext C (rnd k) ctx plaintext (Some aad)) (\<lambda>ct.
                   Inr (jset message ''audio'' (jset (JObject audio) ''data'' (JString ct)), Suc k))))
            | _ \<Rightarrow> Inr (message, k))
       | _ \<Rightarrow> Inr (message, k))"

definition choice_index_of :: "json \<Rightarrow> nat \<Rightarrow> nat" where
  "choice_index_of choice position =
     (case Option.bind (jget choice ''index'') as_u64 of Some i \<Rightarrow> unat i | None \<Rightarrow> position)"

definition choice_field :: "nat \<Rightarrow> string \<Rightarrow> string" where
  "choice_field i name = ''choices.'' @ show_nat i @ name"

text \<open>The encrypted members of the \<open>message\<close> or \<open>delta\<close> of a chat choice, in order.\<close>

definition encrypt_chat_fields ::
  "'x crypto_scheme \<Rightarrow> (nat \<Rightarrow> draw) \<Rightarrow> e2ee_request_context \<Rightarrow> string \<Rightarrow> string \<Rightarrow> nat \<Rightarrow> json \<times> nat \<Rightarrow> e2ee_error + json \<times> nat" where
  "encrypt_chat_fields C rnd ctx rid container i st =
     and_then (encrypt_response_field C rnd ctx rid ''content'' (choice_field i (container @ ''.content'')) st) (\<lambda>st.
     and_then (encrypt_response_field C rnd ctx rid ''reasoning'' (choice_field i (container @ ''.reasoning'')) st) (\<lambda>st.
     encrypt_response_field C rnd ctx rid ''reasoning_content'' (choice_field i (container @ ''.reasoning_content'')) st))"

definition encrypt_message ::
  "'x crypto_scheme \<Rightarrow> (nat \<Rightarrow> draw) \<Rightarrow> e2ee_request_context \<Rightarrow> string \<Rightarrow> nat \<Rightarrow> json \<times> nat \<Rightarrow> e2ee_error + json \<times> nat" where
  "encrypt_message C rnd ctx rid i st =
     and_then (encrypt_chat_fields C rnd ctx rid ''.message'' i st) (\<lambda>st.
     if is_aci (cx_aad_mode ctx) then encrypt_message_audio_data C rnd ctx rid i st else Inr st)"

definition encrypt_choice ::
  "'x crypto_scheme \<Rightarrow> (nat \<Rightarrow> draw) \<Rightarrow> e2ee_request_context \<Rightarrow> string \<Rightarrow> string \<Rightarrow> nat \<Rightarrow> json \<Rightarrow> nat \<Rightarrow> e2ee_error + json \<times> nat" where
  "encrypt_choice C rnd ctx endpoint_path rid position choice k =
     (let i = choice_index_of choice position
      in if \<not> is_object choice then Inr (choice, k)
         else if endpoint_path = COMPLETIONS_PATH
         then encrypt_response_field C rnd ctx rid ''text'' (choice_field i ''.text'') (choice, k)
         else case jget choice ''message'' of
             Some (JObject message) \<Rightarrow>
               and_then (encrypt_message C rnd ctx rid i (JObject message, k)) (\<lambda>(message, k). Inr (jset choice ''message'' message, k))
           | _ \<Rightarrow> Inr (choice, k))"

definition encrypt_embedding ::
  "'x crypto_scheme \<Rightarrow> (nat \<Rightarrow> draw) \<Rightarrow> e2ee_request_context \<Rightarrow> string \<Rightarrow> nat \<Rightarrow> json \<Rightarrow> nat \<Rightarrow> e2ee_error + json \<times> nat" where
  "encrypt_embedding C rnd ctx rid position item k =
     (case jget item ''embedding'' of
        None \<Rightarrow> Inr (item, k)
      | Some embedding \<Rightarrow>
          and_then (embedding_response_aad_for_context C ctx rid (choice_index_of item position)) (\<lambda>aad.
          and_then (encrypt_response_plaintext C (rnd k) ctx (to_vec C embedding) aad) (\<lambda>ct.
          Inr (jset item ''embedding'' (JString ct), Suc k))))"

definition encrypt_embedding_data ::
  "'x crypto_scheme \<Rightarrow> (nat \<Rightarrow> draw) \<Rightarrow> e2ee_request_context \<Rightarrow> string \<Rightarrow> json \<Rightarrow> e2ee_error + json" where
  "encrypt_embedding_data C rnd ctx rid payload =
     (case Option.bind (jget payload ''data'') as_array of
        None \<Rightarrow> Inr payload
      | Some items \<Rightarrow>
          and_then (try_walk (encrypt_embedding C rnd ctx rid) 0 items 0) (\<lambda>(items, _). Inr (jset payload ''data'' (JArray items))))"

definition response_id_of :: "json \<Rightarrow> string" where
  "response_id_of payload = (case jget_str payload ''id'' of Some i \<Rightarrow> i | None \<Rightarrow> [])"

definition encrypt_choices ::
  "(nat \<Rightarrow> json \<Rightarrow> nat \<Rightarrow> e2ee_error + json \<times> nat) \<Rightarrow> json \<Rightarrow> e2ee_error + json" where
  "encrypt_choices f payload =
     (case Option.bind (jget payload ''choices'') as_array of
        None \<Rightarrow> Inr payload
      | Some choices \<Rightarrow>
          and_then (try_walk f 0 choices 0) (\<lambda>(choices, _). Inr (jset payload ''choices'' (JArray choices))))"

definition encrypt_e2ee_response_body ::
  "'x crypto_scheme \<Rightarrow> (nat \<Rightarrow> draw) \<Rightarrow> bytes \<Rightarrow> e2ee_request_context \<Rightarrow> string \<Rightarrow> e2ee_error + bytes" where
  "encrypt_e2ee_response_body C rnd cleartext_body ctx endpoint_path =
     and_then (ok_or EncryptionFailed (from_slice C cleartext_body)) (\<lambda>payload.
     let rid = response_id_of payload
     in if endpoint_path = EMBEDDINGS_PATH
        then and_then (encrypt_embedding_data C rnd ctx rid payload) (\<lambda>payload. Inr (to_vec C payload))
        else and_then (encrypt_choices (encrypt_choice C rnd ctx endpoint_path rid) payload) (\<lambda>payload. Inr (to_vec C payload)))"

text \<open>One event of a stream. An empty \<open>content\<close> is removed first.\<close>

definition drop_empty_content :: "json \<Rightarrow> json" where
  "drop_empty_content delta =
     (case delta of
        JObject m \<Rightarrow> if jget_str delta ''content'' = Some [] then JObject (obj_remove ''content'' m) else delta
      | _ \<Rightarrow> delta)"

definition encrypt_stream_choice ::
  "'x crypto_scheme \<Rightarrow> (nat \<Rightarrow> draw) \<Rightarrow> e2ee_request_context \<Rightarrow> string \<Rightarrow> string \<Rightarrow> nat \<Rightarrow> json \<Rightarrow> nat \<Rightarrow> e2ee_error + json \<times> nat" where
  "encrypt_stream_choice C rnd ctx endpoint_path rid position choice k =
     (let i = choice_index_of choice position
      in if \<not> is_object choice then Inr (choice, k)
         else if endpoint_path = COMPLETIONS_PATH
         then encrypt_response_field C rnd ctx rid ''text'' (choice_field i ''.text'') (choice, k)
         else case jget choice ''delta'' of
             Some (JObject delta) \<Rightarrow>
               and_then (encrypt_chat_fields C rnd ctx rid ''.delta'' i (drop_empty_content (JObject delta), k))
                 (\<lambda>(delta, k). Inr (jset choice ''delta'' delta, k))
           | _ \<Rightarrow> Inr (choice, k))"

definition encrypt_e2ee_stream_payload ::
  "'x crypto_scheme \<Rightarrow> (nat \<Rightarrow> draw) \<Rightarrow> bytes \<Rightarrow> e2ee_request_context \<Rightarrow> string \<Rightarrow> e2ee_error + bytes" where
  "encrypt_e2ee_stream_payload C rnd cleartext_payload ctx endpoint_path =
     (if endpoint_path = EMBEDDINGS_PATH then Inl EncryptionFailed
      else and_then (ok_or EncryptionFailed (from_slice C cleartext_payload)) (\<lambda>payload.
        let rid = response_id_of payload
        in and_then (encrypt_choices (encrypt_stream_choice C rnd ctx endpoint_path rid) payload) (\<lambda>payload. Inr (to_vec C payload))))"

definition is_sse_content_type :: "string option \<Rightarrow> bool" where
  "is_sse_content_type content_type =
     (case content_type of
        None \<Rightarrow> False
      | Some v \<Rightarrow>
          eq_ignore_ascii_case (trim (case split_once '';'' v of Some (a, _) \<Rightarrow> a | None \<Rightarrow> v)) ''text/event-stream'')"

section \<open>Lemmas\<close>

lemma try_walk_ok:
  "try_walk f i xs s = Inr (ys, s') \<Longrightarrow>
     length ys = length xs \<and> (\<forall>j < length xs. \<exists>t t'. f (i + j) (xs ! j) t = Inr (ys ! j, t'))"
proof (induction xs arbitrary: i s ys)
  case (Cons x xs)
  from Cons.prems obtain x' t ys' where step: "f i x s = Inr (x', t)" "try_walk f (Suc i) xs t = Inr (ys', s')" "ys = x' # ys'"
    by (auto simp: result_iffs)
  have "\<exists>t t'. f (i + j) ((x # xs) ! j) t = Inr (ys ! j, t')" if "j < length (x # xs)" for j
    using Cons.IH [OF step(2)] step that by (cases j) auto
  then show ?case using Cons.IH [OF step(2)] step(3) by auto
qed simp

lemma jget_jset: "jget (jset v k w) k' = (if is_object v \<and> k' = k then Some w else jget v k')"
  by (cases v) (auto simp: update_conv' is_object_def)

lemma is_object_jset [simp]: "is_object (jset v k w) = is_object v"
  by (cases v) (auto simp: is_object_def)

lemma jget_is_object: "jget v k = Some w \<Longrightarrow> is_object v"
  by (cases v) (auto simp: is_object_def)

subsection \<open>Field paths\<close>

definition is_digits :: "string \<Rightarrow> bool" where
  "is_digits s = list_all is_ascii_digit s"

lemma digit_char: "n < 10 \<Longrightarrow> is_ascii_digit (char_of (48 + n)) \<and> (of_char (char_of (48 + n) :: char) :: nat) = 48 + n"
  by (simp add: is_ascii_digit_def)

lemma show_nat_digits: "is_digits (show_nat n)"
proof (induction n rule: show_nat.induct)
  case (1 n)
  then show ?case
    by (subst show_nat.simps) (auto simp: is_digits_def digit_char)
qed

lemma show_nat_nonempty: "show_nat n \<noteq> []"
  by (subst show_nat.simps) simp

fun read_nat :: "nat \<Rightarrow> string \<Rightarrow> nat" where
  "read_nat acc [] = acc"
| "read_nat acc (c # cs) = read_nat (10 * acc + (of_char c - 48)) cs"

lemma read_nat_append: "read_nat acc (a @ b) = read_nat (read_nat acc a) b"
  by (induction a arbitrary: acc) auto

lemma read_show_nat: "read_nat 0 (show_nat n) = n"
proof (induction n rule: show_nat.induct)
  case (1 n)
  show ?case
  proof (cases "n < 10")
    case True
    then show ?thesis by (subst show_nat.simps) (simp add: digit_char)
  next
    case False
    then have "read_nat 0 (show_nat (n div 10)) = n div 10" using 1 by simp
    then show ?thesis using False digit_char [of "n mod 10"] by (subst show_nat.simps) (simp add: read_nat_append)
  qed
qed

lemma show_nat_inj [simp]: "show_nat a = show_nat b \<longleftrightarrow> a = b"
  using read_show_nat by metis

lemma digits_dot:
  assumes "is_digits a" and "is_digits b"
  shows "a @ CHR ''.'' # r = b @ CHR ''.'' # s \<longleftrightarrow> a = b \<and> r = s"
proof
  assume eq: "a @ CHR ''.'' # r = b @ CHR ''.'' # s"
  have d: "is_digits x \<Longrightarrow> takeWhile (\<lambda>c. c \<noteq> CHR ''.'') (x @ CHR ''.'' # y) = x" for x y
    by (induction x) (auto simp: is_digits_def is_ascii_digit_def)
  from d [OF assms(1), of r] d [OF assms(2), of s] eq show "a = b \<and> r = s" by simp
qed simp

lemmas digits_dot_iff = digits_dot [OF show_nat_digits show_nat_digits]

lemma digits_not_dot: "is_digits a \<Longrightarrow> a \<noteq> b @ CHR ''.'' # s"
  by (auto simp: is_digits_def is_ascii_digit_def)

text \<open>The places of a request that carry an encrypted string.\<close>

datatype request_location =
    Prompt | PromptItem nat | Input | InputItem nat | MessageContent nat | PartText nat nat | PartImage nat nat | PartAudio nat nat

fun location_path :: "request_location \<Rightarrow> string" where
  "location_path Prompt = ''prompt''"
| "location_path (PromptItem i) = ''prompt'' @ ''.'' @ show_nat i"
| "location_path Input = ''input''"
| "location_path (InputItem i) = ''input'' @ ''.'' @ show_nat i"
| "location_path (MessageContent m) = message_field m"
| "location_path (PartText m c) = part_field m c ''.text''"
| "location_path (PartImage m c) = part_field m c ''.image_url.url''"
| "location_path (PartAudio m c) = part_field m c ''.input_audio.data''"

lemma location_path_inj: "location_path a = location_path b \<longleftrightarrow> a = b"
  by (cases a; cases b) (auto simp: message_field_def part_field_def digits_dot_iff show_nat_nonempty)

subsection \<open>Associated data\<close>

lemma same_value_jget: "same_value a b \<Longrightarrow> jget a k = Some v \<Longrightarrow> \<exists>w. jget b k = Some w \<and> same_value v w"
proof (cases a)
  case (JObject m)
  assume same: "same_value a b" and v: "jget a k = Some v"
  then obtain m' where b: "b = JObject m'" "dom (map_of m) = dom (map_of m')"
    and vals: "\<And>k v w. map_of m k = Some v \<Longrightarrow> map_of m' k = Some w \<Longrightarrow> same_value v w"
    using JObject by (auto simp: same_value_object)
  moreover have "k \<in> dom (map_of m')" using v JObject b(2) by auto
  ultimately show ?thesis using v JObject by auto
qed auto

lemma same_value_field:
  assumes "same_value a b" and "jget a k = Some (JString s)" and "jget b k = Some (JString t)"
  shows "t = s"
  using same_value_jget [OF assms(1,2)] assms(3) by (auto simp: same_value_leaf)

lemma request_document_simps [simp]:
  "jwf (aci_request_document a m f n t)"
  "jget (aci_request_document a m f n t) ''purpose'' = Some (JString ''aci.e2ee.request.v2'')"
  "jget (aci_request_document a m f n t) ''algo'' = Some (JString a)"
  "jget (aci_request_document a m f n t) ''model'' = Some (JString m)"
  "jget (aci_request_document a m f n t) ''field'' = Some (JString f)"
  "jget (aci_request_document a m f n t) ''nonce'' = Some (JString n)"
  "jget (aci_request_document a m f n t) ''ts'' = Some (JNumber (PosInt t))"
  by (simp_all add: aci_request_document_def)

lemma response_document_simps [simp]:
  "jwf (aci_response_document a m r f n t)"
  "jget (aci_response_document a m r f n t) ''purpose'' = Some (JString ''aci.e2ee.response.v2'')"
  "jget (aci_response_document a m r f n t) ''algo'' = Some (JString a)"
  "jget (aci_response_document a m r f n t) ''model'' = Some (JString m)"
  "jget (aci_response_document a m r f n t) ''id'' = Some (JString r)"
  "jget (aci_response_document a m r f n t) ''field'' = Some (JString f)"
  "jget (aci_response_document a m r f n t) ''nonce'' = Some (JString n)"
  "jget (aci_response_document a m r f n t) ''ts'' = Some (JNumber (PosInt t))"
  by (simp_all add: aci_response_document_def)

lemma request_aad_Inr: "aci_request_aad L a m f n t = Inr x \<longleftrightarrow> jcs_bytes L (aci_request_document a m f n t) = Inr x"
  by (simp add: aci_request_aad_def map_err_Inr_iff)

lemma response_aad_Inr: "aci_response_aad L a m r f n t = Inr x \<longleftrightarrow> jcs_bytes L (aci_response_document a m r f n t) = Inr x"
  by (simp add: aci_response_aad_def map_err_Inr_iff)

lemma request_aad_inj:
  assumes "to_vec_inj L" and "aci_request_aad L a m f n t = Inr x" and "aci_request_aad L a' m' f' n' t' = Inr x"
  shows "a' = a \<and> m' = m \<and> f' = f \<and> n' = n \<and> t' = t"
proof -
  have same: "same_value (aci_request_document a m f n t) (aci_request_document a' m' f' n' t')"
    by (rule jcs_bytes_same_value [OF assms(1) _ _ assms(2,3) [unfolded request_aad_Inr]]) simp_all
  note str = same_value_field [OF same]
  have "t' = t" using same_value_jget [OF same, of "''ts''"] by (simp add: same_value_leaf)
  then show ?thesis using str [of "''algo''" a a'] str [of "''model''" m m'] str [of "''field''" f f'] str [of "''nonce''" n n'] by simp
qed

lemma response_aad_inj:
  assumes "to_vec_inj L" and "aci_response_aad L a m r f n t = Inr x" and "aci_response_aad L a' m' r' f' n' t' = Inr x"
  shows "a' = a \<and> m' = m \<and> r' = r \<and> f' = f \<and> n' = n \<and> t' = t"
proof -
  have same: "same_value (aci_response_document a m r f n t) (aci_response_document a' m' r' f' n' t')"
    by (rule jcs_bytes_same_value [OF assms(1) _ _ assms(2,3) [unfolded response_aad_Inr]]) simp_all
  note str = same_value_field [OF same]
  have "t' = t" using same_value_jget [OF same, of "''ts''"] by (simp add: same_value_leaf)
  then show ?thesis
    using str [of "''algo''" a a'] str [of "''model''" m m'] str [of "''id''" r r'] str [of "''field''" f f'] str [of "''nonce''" n n'] by simp
qed

lemma request_response_aad:
  assumes "to_vec_inj L" and "aci_request_aad L a m f n t = Inr x"
  shows "aci_response_aad L a' m' r' f' n' t' \<noteq> Inr x"
proof
  assume resp: "aci_response_aad L a' m' r' f' n' t' = Inr x"
  have same: "same_value (aci_request_document a m f n t) (aci_response_document a' m' r' f' n' t')"
    by (rule jcs_bytes_same_value [OF assms(1) _ _ assms(2) [unfolded request_aad_Inr] resp [unfolded response_aad_Inr]]) simp_all
  from same_value_field [OF same, of "''purpose''" "''aci.e2ee.request.v2''" "''aci.e2ee.response.v2''"] show False by simp
qed

section \<open>Properties\<close>

text \<open>C33: The associated data of an E2EE v2 field binds it to its place. If two request fields have the same associated data,
  they are at the same location of the body (the same message, part and kind of part, prompt or input item), and the cipher
  suite, model, nonce and timestamp are equal; likewise for two response fields, with the response id; and the data of a
  request field is never that of a response field.\<close>

theorem aad_binds_location:
  assumes "to_vec_inj L" and "aci_request_aad L a m (location_path l) n t = Inr x"
  shows "(aci_request_aad L a' m' (location_path l') n' t' = Inr x \<longrightarrow> l' = l \<and> a' = a \<and> m' = m \<and> n' = n \<and> t' = t) \<and>
    aci_response_aad L a' m' r' f' n' t' \<noteq> Inr x \<and>
    (aci_response_aad L a m r f n t = Inr y \<and> aci_response_aad L a' m' r' f' n' t' = Inr y \<longrightarrow>
      r' = r \<and> f' = f \<and> a' = a \<and> m' = m \<and> n' = n \<and> t' = t)"
proof (intro conjI impI)
  assume "aci_request_aad L a' m' (location_path l') n' t' = Inr x"
  from request_aad_inj [OF assms this] show "l' = l" and "a' = a" and "m' = m" and "n' = n" and "t' = t"
    by (simp_all only: location_path_inj)
next
  show "aci_response_aad L a' m' r' f' n' t' \<noteq> Inr x" by (rule request_response_aad [OF assms])
next
  assume "aci_response_aad L a m r f n t = Inr y \<and> aci_response_aad L a' m' r' f' n' t' = Inr y"
  then have "aci_response_aad L a m r f n t = Inr y" and "aci_response_aad L a' m' r' f' n' t' = Inr y" by simp_all
  from response_aad_inj [OF assms(1) this] show "r' = r" and "f' = f" and "a' = a" and "m' = m" and "n' = n" and "t' = t" by simp_all
qed

theorem aad_binds_location_witness:
  "aci_request_aad sample_lib ''alg'' ''m'' (location_path (MessageContent 0)) ''n'' 7
     \<noteq> aci_request_aad sample_lib ''alg'' ''m'' (location_path (PartText 0 0)) ''n'' 7"
proof -
  have "jcs_ok (aci_request_document ''alg'' ''m'' f ''n'' 7)" for f by (simp add: aci_request_document_def is_ascii_def)
  then obtain y where "jcs_sorted (aci_request_document ''alg'' ''m'' (location_path (MessageContent 0)) ''n'' 7) = Inr y"
    using jcs_sorted_ok_iff by blast
  then obtain x where "aci_request_aad sample_lib ''alg'' ''m'' (location_path (MessageContent 0)) ''n'' 7 = Inr x"
    by (simp add: aci_request_aad_def jcs_bytes_def del: location_path.simps)
  note x = this
  from aad_binds_location [OF sample_lib_laws(5) x, of "''alg''" "''m''" "PartText 0 0" "''n''" 7]
  have "aci_request_aad sample_lib ''alg'' ''m'' (location_path (PartText 0 0)) ''n'' 7 \<noteq> Inr x" by blast
  then show ?thesis unfolding x by simp
qed

subsection \<open>Requests\<close>

text \<open>The key the service holds, as the client and the provider use it: the public text the client encrypts to, and the
  decryption under the secret.\<close>

definition suite_public :: "'x crypto_scheme \<Rightarrow> string \<Rightarrow> bytes \<Rightarrow> string" where
  "suite_public C alg secret = (if alg = E2EE_ALGO_X25519_AESGCM then x25519_public_key_hex C secret else public_key_from_secret C secret)"

definition suite_decrypt :: "'x crypto_scheme \<Rightarrow> string \<Rightarrow> bytes \<Rightarrow> string \<Rightarrow> bytes \<Rightarrow> key_error + bytes" where
  "suite_decrypt C alg secret ct aad =
     (if alg = E2EE_ALGO_X25519_AESGCM then decrypt_x25519_with_secret_key C secret ct aad else decrypt_with_secret_key C secret ct aad)"

lemma suite_roundtrip:
  assumes "hex_ok C" and "crypto_ok C" and "length (snd d) = E2EE_NONCE_LEN"
    and "encrypt_aci_e2ee_for_public_key C d alg (suite_public C alg s) m aad = Inr ct"
  shows "suite_decrypt C alg s ct aad = Inr m"
proof (cases "alg = E2EE_ALGO_X25519_AESGCM")
  case True
  then show ?thesis using assms x25519_roundtrip [of C "snd d" "fst d"]
    by (simp add: suite_decrypt_def suite_public_def encrypt_aci_e2ee_for_public_key_def)
next
  case False
  then have "encrypt_for_public_key C d (public_key_from_secret C s) m aad = Inr ct"
    using assms(4) by (simp add: suite_public_def encrypt_aci_e2ee_for_public_key_def split: if_splits)
  then show ?thesis using assms(1-3) False k256_roundtrip [of C "snd d" "fst d"] by (simp add: suite_decrypt_def)
qed

text \<open>How a client seals a request. A text is replaced by its ciphertext to a key of the service under the associated data of its
  place. In each definition below the last argument counts the texts replaced.\<close>

definition sealed_text :: "'x crypto_scheme \<Rightarrow> e2ee_field_crypto \<Rightarrow> string \<Rightarrow> string \<Rightarrow> string \<Rightarrow> string \<Rightarrow> bool" where
  "sealed_text C crypto public field p ct = (\<exists>aad d. utf8_valid p \<and> request_field_aad C crypto field = Inr (Some aad) \<and>
     length (snd d) = E2EE_NONCE_LEN \<and> encrypt_aci_e2ee_for_public_key C d (fc_algo crypto) public p aad = Inr ct)"

text \<open>A member of an object: replaced if it is a text.\<close>

definition sealed_field ::
  "'x crypto_scheme \<Rightarrow> e2ee_field_crypto \<Rightarrow> string \<Rightarrow> string \<Rightarrow> string \<Rightarrow> json \<Rightarrow> json \<Rightarrow> nat \<Rightarrow> bool" where
  "sealed_field C crypto public field key v v' n =
     (case jget v key of
        Some (JString p) \<Rightarrow> n = 1 \<and> (\<exists>ct. sealed_text C crypto public field p ct \<and> v' = jset v key (JString ct))
      | _ \<Rightarrow> n = 0 \<and> v' = v)"

definition sealed_nested ::
  "'x crypto_scheme \<Rightarrow> e2ee_field_crypto \<Rightarrow> string \<Rightarrow> string \<Rightarrow> string \<Rightarrow> string \<Rightarrow> json \<Rightarrow> json \<Rightarrow> nat \<Rightarrow> bool" where
  "sealed_nested C crypto public field wrapper key v v' n =
     (case jget v wrapper of
        Some (JObject w) \<Rightarrow> (\<exists>w'. sealed_field C crypto public field key (JObject w) w' n \<and> v' = jset v wrapper w')
      | _ \<Rightarrow> n = 0 \<and> v' = v)"

text \<open>A part of a content: its text, its image or its audio, by its type; any other part is sent as it is.\<close>

definition sealed_part ::
  "'x crypto_scheme \<Rightarrow> e2ee_field_crypto \<Rightarrow> string \<Rightarrow> nat \<Rightarrow> nat \<Rightarrow> json \<Rightarrow> json \<Rightarrow> nat \<Rightarrow> bool" where
  "sealed_part C crypto public i c v v' n =
     (if jget_str v ''type'' = Some ''text'' then sealed_field C crypto public (part_field i c ''.text'') ''text'' v v' n
      else if jget_str v ''type'' = Some ''image_url''
      then sealed_nested C crypto public (part_field i c ''.image_url.url'') ''image_url'' ''url'' v v' n
      else if jget_str v ''type'' = Some ''input_audio''
      then sealed_nested C crypto public (part_field i c ''.input_audio.data'') ''input_audio'' ''data'' v v' n
      else n = 0 \<and> v' = v)"

text \<open>A content \<open>v\<close> and the content \<open>v'\<close> sent for it: one ciphertext of a text that stands for \<open>v\<close>, which is the array the text
  prints if it prints one and the text itself otherwise; or an array sealed part by part; or neither text nor array, sent as it is.\<close>

definition sealed_content ::
  "'x crypto_scheme \<Rightarrow> e2ee_field_crypto \<Rightarrow> string \<Rightarrow> nat \<Rightarrow> json \<Rightarrow> json \<Rightarrow> nat \<Rightarrow> bool" where
  "sealed_content C crypto public i v v' n =
     ((\<exists>p ct. n = 1 \<and> v' = JString ct \<and> sealed_text C crypto public (message_field i) p ct \<and>
         (if \<exists>items. from_slice C p = Some (JArray items) then from_slice C p = Some v else v = JString p)) \<or>
      (\<exists>items items' ns. v = JArray items \<and> v' = JArray items' \<and> length items' = length items \<and> length ns = length items \<and>
         (\<forall>c < length items. sealed_part C crypto public i c (items ! c) (items' ! c) (ns ! c)) \<and> n = sum_list ns) \<or>
      (as_str v = None \<and> as_array v = None \<and> n = 0 \<and> v' = v))"

definition sealed_message ::
  "'x crypto_scheme \<Rightarrow> e2ee_field_crypto \<Rightarrow> string \<Rightarrow> nat \<Rightarrow> json \<Rightarrow> json \<Rightarrow> nat \<Rightarrow> bool" where
  "sealed_message C crypto public i msg msg' n =
     (case jget msg ''content'' of
        None \<Rightarrow> n = 0 \<and> msg' = msg
      | Some v \<Rightarrow> (\<exists>v'. sealed_content C crypto public i v v' n \<and> msg' = jset msg ''content'' v'))"

lemma update_update: "AList.update k v (AList.update k w m) = AList.update k v m"
  by (induction m) auto

lemma update_same: "map_of m k = Some v \<Longrightarrow> AList.update k v m = m"
  by (induction m) auto

lemma jset_jset: "jget v k = Some w \<Longrightarrow> jset (jset v k u) k w = v"
  by (cases v) (auto simp: update_update update_same)

lemma jset_same: "jget v k = Some w \<Longrightarrow> jset v k w = v"
  by (cases v) (auto simp: update_same)

text \<open>The service side: it holds the secret of the key the client sealed to.\<close>

definition holds_key :: "'x crypto_scheme \<Rightarrow> e2ee_field_crypto \<Rightarrow> bytes \<Rightarrow> bool" where
  "holds_key C crypto secret = (hex_ok C \<and> crypto_ok C \<and> (\<exists>key. fc_decryptor crypto = DecryptAciV2 key \<and>
     decrypt_e2ee (fc_keys crypto) key = suite_decrypt C (fc_algo crypto) secret))"

lemma decrypt_sealed_text:
  assumes "holds_key C crypto secret" and "sealed_text C crypto (suite_public C (fc_algo crypto) secret) field p ct"
  shows "decrypt_text C crypto field ct = Inr p" and "is_aci (fc_aad_mode crypto)"
proof -
  obtain aad d where s: "utf8_valid p" "request_field_aad C crypto field = Inr (Some aad)" "length (snd d) = E2EE_NONCE_LEN"
    "encrypt_aci_e2ee_for_public_key C d (fc_algo crypto) (suite_public C (fc_algo crypto) secret) p aad = Inr ct"
    using assms(2) unfolding sealed_text_def by blast
  have "decrypt_e2ee_field crypto ct (Some aad) = Inr p"
    using suite_roundtrip [OF _ _ s(3,4)] assms(1) by (auto simp: decrypt_e2ee_field_def holds_key_def)
  then show "decrypt_text C crypto field ct = Inr p" using s(1,2) by (simp add: decrypt_text_def from_utf8_def)
  show "is_aci (fc_aad_mode crypto)"
    using s(2) by (auto simp: request_field_aad_def is_aci_def split: aad_mode.splits)
qed

lemma sealed_field_cases:
  assumes "sealed_field C crypto public field k v v' n"
  obtains (sealed) p ct where "jget v k = Some (JString p)" "n = 1" "sealed_text C crypto public field p ct" "v' = jset v k (JString ct)"
  | (other) "\<And>p. jget v k \<noteq> Some (JString p)" "n = 0" "v' = v"
proof (cases "\<exists>p. jget v k = Some (JString p)")
  case True
  then show ?thesis using assms sealed by (auto simp: sealed_field_def)
next
  case False
  moreover from this have "n = 0 \<and> v' = v" using assms unfolding sealed_field_def by (simp split: option.splits json.splits)
  ultimately show ?thesis using other by blast
qed

lemma sealed_nested_cases:
  assumes "sealed_nested C crypto public field wr k v v' n"
  obtains (inner) w w' where "jget v wr = Some (JObject w)" "sealed_field C crypto public field k (JObject w) w' n" "v' = jset v wr w'"
  | (other) "\<And>w. jget v wr \<noteq> Some (JObject w)" "n = 0" "v' = v"
proof (cases "\<exists>w. jget v wr = Some (JObject w)")
  case True
  then show ?thesis using assms inner by (auto simp: sealed_nested_def)
next
  case False
  moreover from this have "n = 0 \<and> v' = v" using assms unfolding sealed_nested_def by (simp split: option.splits json.splits)
  ultimately show ?thesis using other by blast
qed

lemma decrypt_sealed_field:
  assumes "holds_key C crypto secret" and "sealed_field C crypto (suite_public C (fc_algo crypto) secret) field k v v' n"
  shows "decrypt_content_part_field C crypto v' k field = Inr (v, n) \<and> (n \<noteq> 0 \<longrightarrow> is_aci (fc_aad_mode crypto)) \<and>
    (n = 0 \<longrightarrow> v' = v) \<and> is_object v' = is_object v"
  using assms(2)
proof (cases rule: sealed_field_cases)
  case (sealed p ct)
  then show ?thesis
    using decrypt_sealed_text [OF assms(1) sealed(3)] jget_is_object [OF sealed(1)]
    by (simp add: decrypt_content_part_field_def jget_jset jset_jset)
next
  case other
  then have "decrypt_content_part_field C crypto v k field = Inr (v, 0)"
    unfolding decrypt_content_part_field_def by (simp split: option.split json.split)
  then show ?thesis using other by simp
qed

lemma decrypt_sealed_nested:
  assumes "holds_key C crypto secret" and "sealed_nested C crypto (suite_public C (fc_algo crypto) secret) field wr k v v' n"
  shows "decrypt_content_part_nested C crypto v' wr k field = Inr (v, n) \<and> (n \<noteq> 0 \<longrightarrow> is_aci (fc_aad_mode crypto)) \<and> (n = 0 \<longrightarrow> v' = v)"
  using assms(2)
proof (cases rule: sealed_nested_cases)
  case (inner w w')
  note f = decrypt_sealed_field [OF assms(1) inner(2)]
  then obtain x where x: "w' = JObject x" by (cases w') (auto simp: is_object_def)
  have "n = 0 \<longrightarrow> v' = v" using f inner(1,3) jset_same by fastforce
  then show ?thesis
    using f inner(1,3) jget_is_object [OF inner(1)] x by (auto simp: decrypt_content_part_nested_def jget_jset jset_jset)
next
  case other
  then have "decrypt_content_part_nested C crypto v wr k field = Inr (v, 0)"
    unfolding decrypt_content_part_nested_def by (simp split: option.split json.split)
  then show ?thesis using other by simp
qed

lemma sealed_keeps_type:
  "sealed_field C crypto public field k v v' n \<Longrightarrow> k \<noteq> ''type'' \<Longrightarrow> jget_str v' ''type'' = jget_str v ''type''"
  "sealed_nested C crypto public field wr k v v' n \<Longrightarrow> wr \<noteq> ''type'' \<Longrightarrow> jget_str v' ''type'' = jget_str v ''type''"
  by (erule sealed_field_cases; simp add: jget_str_def jget_jset) (erule sealed_nested_cases; simp add: jget_str_def jget_jset)

lemma decrypt_sealed_part:
  assumes "holds_key C crypto secret" and "sealed_part C crypto (suite_public C (fc_algo crypto) secret) i c v v' n"
  shows "decrypt_content_part C crypto i c v' = Inr (v, n)"
proof -
  let ?public = "suite_public C (fc_algo crypto) secret" and ?aci = "is_aci (fc_aad_mode crypto)"
  note nested = decrypt_sealed_nested [OF assms(1)]
  consider "jget_str v ''type'' = Some ''text''" "sealed_field C crypto ?public (part_field i c ''.text'') ''text'' v v' n"
    | "jget_str v ''type'' = Some ''image_url''" "sealed_nested C crypto ?public (part_field i c ''.image_url.url'') ''image_url'' ''url'' v v' n"
    | "jget_str v ''type'' = Some ''input_audio''" "sealed_nested C crypto ?public (part_field i c ''.input_audio.data'') ''input_audio'' ''data'' v v' n"
    | "jget_str v ''type'' \<notin> {Some ''text'', Some ''image_url'', Some ''input_audio''}" "n = 0" "v' = v"
    using assms(2) unfolding sealed_part_def by (auto split: if_splits)
  then show ?thesis
  proof cases
    case 1
    then show ?thesis
      using sealed_keeps_type(1) [OF 1(2)] decrypt_sealed_field [OF assms(1) 1(2)] by (simp add: decrypt_content_part_def)
  next
    case 2
    then show ?thesis using sealed_keeps_type(2) [OF 2(2)] nested [OF 2(2)] by (cases ?aci) (auto simp: decrypt_content_part_def)
  next
    case 3
    then show ?thesis using sealed_keeps_type(2) [OF 3(2)] nested [OF 3(2)] by (cases ?aci) (auto simp: decrypt_content_part_def)
  next
    case 4
    then show ?thesis by (simp add: decrypt_content_part_def)
  qed
qed

lemma try_walk_counts:
  fixes ns :: "nat list"
  assumes "\<And>i n. i < length xs \<Longrightarrow> f (k + i) (xs ! i) n = Inr (ys ! i, n + ns ! i)" and "length ys = length xs" "length ns = length xs"
  shows "try_walk f k xs n = Inr (ys, n + sum_list ns)"
  using assms
proof (induction xs arbitrary: ys ns k n)
  case (Cons x xs)
  then obtain y ys' m ms where ys: "ys = y # ys'" "ns = m # ms" by (cases ys; cases ns) auto
  have "f k x n = Inr (y, n + m)" using Cons.prems(1) [of 0 n] ys by simp
  moreover have "try_walk f (Suc k) xs (n + m) = Inr (ys', n + m + sum_list ms)"
  proof (rule Cons.IH)
    show "f (Suc k + i) (xs ! i) n = Inr (ys' ! i, n + ms ! i)" if "i < length xs" for i n
      using Cons.prems(1) [of "Suc i" n] that ys by simp
  qed (use Cons.prems(2,3) ys in simp_all)
  ultimately show ?case using ys by simp
qed simp

lemma decrypt_sealed_parts:
  assumes "holds_key C crypto secret" and "length items' = length items" "length ns = length items"
    and "\<forall>c < length items. sealed_part C crypto (suite_public C (fc_algo crypto) secret) i c (items ! c) (items' ! c) (ns ! c)"
  shows "decrypt_content_value C crypto i (JArray items') = Inr (JArray items, sum_list ns)"
proof -
  let ?f = "\<lambda>c item n. if is_object item
    then and_then (decrypt_content_part C crypto i c item) (\<lambda>(item, k). Inr (item, n + k)) else Inr (item, n)"
  have "?f (0 + c) (items' ! c) n = Inr (items ! c, n + ns ! c)" if "c < length items'" for c n
  proof -
    have part: "sealed_part C crypto (suite_public C (fc_algo crypto) secret) i c (items ! c) (items' ! c) (ns ! c)"
      using assms(2,4) that by simp
    have "items' ! c = items ! c \<and> ns ! c = 0" if "\<not> is_object (items' ! c)"
    proof -
      have "jget (items' ! c) k = None" for k using that by (metis jget_is_object not_None_eq)
      then have "decrypt_content_part C crypto i c (items' ! c) = Inr (items' ! c, 0)"
        by (simp add: decrypt_content_part_def jget_str_def)
      then show ?thesis using decrypt_sealed_part [OF assms(1) part] by simp
    qed
    then show ?thesis using decrypt_sealed_part [OF assms(1) part] by (cases "is_object (items' ! c)") auto
  qed
  then have "try_walk ?f 0 items' 0 = Inr (items, 0 + sum_list ns)" by (rule try_walk_counts) (use assms(2,3) in simp_all)
  then show ?thesis unfolding decrypt_content_value_def by (simp only: json.case and_then_simps prod.case add_0)
qed

lemma decrypt_sealed_content:
  assumes "holds_key C crypto secret" and "sealed_content C crypto (suite_public C (fc_algo crypto) secret) i v v' n"
  shows "decrypt_content_value C crypto i v' = Inr (v, n)"
  using assms(2) unfolding sealed_content_def
proof (elim disjE exE conjE)
  fix p ct
  assume s: "n = 1" "v' = JString ct" "sealed_text C crypto (suite_public C (fc_algo crypto) secret) (message_field i) p ct"
    "if \<exists>items. from_slice C p = Some (JArray items) then from_slice C p = Some v else v = JString p"
  from s(4) have "decrypted_chat_content_value C p = v"
    by (auto simp: decrypted_chat_content_value_def split: if_splits option.splits json.splits)
  then show ?thesis using decrypt_sealed_text(1) [OF assms(1) s(3)] s(1,2) by (simp add: decrypt_content_value_def)
next
  fix items items' ns
  assume "v = JArray items" "v' = JArray items'" "length items' = length items" "length ns = length items" "n = sum_list ns"
    "\<forall>c < length items. sealed_part C crypto (suite_public C (fc_algo crypto) secret) i c (items ! c) (items' ! c) (ns ! c)"
  then show ?thesis using decrypt_sealed_parts [OF assms(1)] by simp
qed (auto simp: decrypt_content_value_def split: json.splits)

lemma decrypt_sealed_message:
  assumes "holds_key C crypto secret" and "sealed_message C crypto (suite_public C (fc_algo crypto) secret) i msg msg' k"
  shows "decrypt_message C crypto i msg' n = Inr (msg, n + k)"
proof (cases "jget msg ''content''")
  case None
  then show ?thesis using assms(2) by (simp add: sealed_message_def decrypt_message_def)
next
  case (Some v)
  then obtain v' where "sealed_content C crypto (suite_public C (fc_algo crypto) secret) i v v' k" "msg' = jset msg ''content'' v'"
    using assms(2) by (auto simp: sealed_message_def)
  then show ?thesis
    using decrypt_sealed_content [OF assms(1)] Some jget_is_object [OF Some] by (simp add: decrypt_message_def jget_jset jset_jset)
qed

text \<open>C14: The service recovers the conversation the client sealed. Take any chat request whose messages the client sealed, each
  text under the associated data of its own place, to a key of the service: a text content, an array content as one text, or
  the texts, image urls and audio data of an array part by part; messages may have other contents or none. Decrypting with that key
  gives back the request as it was, in either suite, and fails if nothing was sealed. One ambiguity is the code's own: a content that
  is a text and itself parses as a JSON array stands for that array, and comes back as the array.\<close>

theorem chat_request_roundtrip:
  assumes "holds_key C crypto secret"
    and "jget payload ''messages'' = Some (JArray msgs)" and "length msgs' = length msgs" "length ns = length msgs"
    and "\<And>i. i < length msgs \<Longrightarrow>
      sealed_message C crypto (suite_public C (fc_algo crypto) secret) i (msgs ! i) (msgs' ! i) (ns ! i)"
    and "path \<noteq> COMPLETIONS_PATH" and "path \<noteq> EMBEDDINGS_PATH"
  shows "decrypt_request_payload C crypto path (jset payload ''messages'' (JArray msgs')) =
    (if sum_list ns = 0 then Inl DecryptionFailed else Inr payload)"
proof -
  define k where "k = sum_list ns"
  have "try_walk (decrypt_message C crypto) 0 msgs' 0 = Inr (msgs, 0 + sum_list ns)"
    by (rule try_walk_counts) (use decrypt_sealed_message [OF assms(1)] assms(3-5) in auto)
  then have "try_walk (decrypt_message C crypto) 0 msgs' 0 = Inr (msgs, k)" by (simp add: k_def)
  then have "decrypt_request_payload C crypto path (jset payload ''messages'' (JArray msgs')) =
      (if k = 0 then Inl DecryptionFailed else Inr payload)"
    using assms(2,6,7) jget_is_object [OF assms(2)] by (simp add: decrypt_request_payload_def jget_jset jset_jset ensure_def)
  then show ?thesis unfolding k_def .
qed

definition sample_field_crypto :: e2ee_field_crypto where
  "sample_field_crypto = \<lparr>fc_keys = \<lparr>decrypt_e2ee = (\<lambda>_. suite_decrypt sample_crypto E2EE_ALGO_X25519_AESGCM ''s''),
       decrypt_legacy_e2ee = (\<lambda>a _ _. Inl (UnsupportedAlgo a)), legacy_e2ee_keys = []\<rparr>,
     fc_decryptor = DecryptAciV2 ''k'', fc_algo = E2EE_ALGO_X25519_AESGCM, fc_aad_mode = AciV2, fc_model = ''m'',
     fc_nonce = Some ''n'', fc_timestamp = Some 7\<rparr>"

lemma sample_seal:
  "\<exists>ct. encrypt_aci_e2ee_for_public_key sample_crypto d E2EE_ALGO_X25519_AESGCM (x25519_public_key_hex sample_crypto s) m aad = Inr ct"
proof -
  obtain k where "x25519_cipher_from_shared_secret sample_crypto (x25519_dh sample_crypto (fst d) (x25519_public sample_crypto s)) = Inr k"
    by (simp add: x25519_cipher_from_shared_secret_def sample_crypto_def lib.defs)
  moreover have "\<exists>ct. seal_field sample_crypto e k p n m aad = Inr ct" for e p n
    by (simp add: seal_field_def sample_crypto_def lib.defs)
  ultimately show ?thesis
    by (cases d) (simp add: encrypt_aci_e2ee_for_public_key_def encrypt_x25519_for_public_key_def x25519_key_roundtrip [OF sample_crypto_hex sample_crypto_ok])
qed

lemma sample_sealed_text:
  assumes "utf8_valid p"
  obtains ct where "sealed_text sample_crypto sample_field_crypto (suite_public sample_crypto E2EE_ALGO_X25519_AESGCM ''s'') field p ct"
proof -
  have "jcs_ok (aci_request_document E2EE_ALGO_X25519_AESGCM ''m'' field ''n'' 7)"
    by (simp add: aci_request_document_def is_ascii_def)
  then obtain y where "jcs_sorted (aci_request_document E2EE_ALGO_X25519_AESGCM ''m'' field ''n'' 7) = Inr y"
    using jcs_sorted_ok_iff by blast
  then obtain aad where "request_field_aad sample_crypto sample_field_crypto field = Inr (Some aad)"
    by (simp add: request_field_aad_def sample_field_crypto_def nonce_ts_def aci_request_aad_def jcs_bytes_def)
  moreover obtain ct where "encrypt_aci_e2ee_for_public_key sample_crypto (''e'', ''0123456789ab'') E2EE_ALGO_X25519_AESGCM
      (x25519_public_key_hex sample_crypto ''s'') p aad = Inr ct"
    using sample_seal by blast
  moreover have "fc_algo sample_field_crypto = E2EE_ALGO_X25519_AESGCM" by (simp add: sample_field_crypto_def)
  ultimately have "sealed_text sample_crypto sample_field_crypto (suite_public sample_crypto E2EE_ALGO_X25519_AESGCM ''s'') field p ct"
    unfolding sealed_text_def suite_public_def
    by (intro exI [of _ aad] exI [of _ "(''e'', ''0123456789ab'')"]) (simp add: assms E2EE_NONCE_LEN_def)
  then show ?thesis by (rule that)
qed

text \<open>A message with a text content, a message with a text part and another part, and one without content.\<close>

definition sample_parts :: "string \<Rightarrow> json" where
  "sample_parts t = JObject [(''content'', JArray [JObject [(''type'', JString ''text''), (''text'', JString t)],
     JObject [(''type'', JString ''refusal'')]])]"

definition sample_request :: "string \<Rightarrow> string \<Rightarrow> json" where
  "sample_request s t = JObject [(''messages'', JArray [JObject [(''content'', JString s)], sample_parts t, JObject []])]"

theorem chat_request_roundtrip_witness:
  "\<exists>ct ct'. decrypt_request_payload sample_crypto sample_field_crypto ''/v1/chat/completions'' (sample_request ct ct') =
    Inr (sample_request ''hi'' ''there'')"
proof -
  let ?public = "suite_public sample_crypto E2EE_ALGO_X25519_AESGCM ''s''"
  let ?sealed = "sealed_message sample_crypto sample_field_crypto ?public"
  have utf8: "utf8_valid ''hi''" "utf8_valid ''there''" by (simp_all add: in_range_def)
  obtain ct where ct: "sealed_text sample_crypto sample_field_crypto ?public (message_field 0) ''hi'' ct"
    by (rule sample_sealed_text [OF utf8(1)])
  obtain ct' where ct': "sealed_text sample_crypto sample_field_crypto ?public (part_field 1 0 ''.text'') ''there'' ct'"
    by (rule sample_sealed_text [OF utf8(2)])
  have "from_slice sample_crypto ''hi'' = None" by (simp add: sample_crypto_def lib.defs)
  then have m0: "?sealed 0 (JObject [(''content'', JString ''hi'')]) (JObject [(''content'', JString ct)]) 1"
    using ct by (auto simp: sealed_message_def sealed_content_def)
  have p0: "sealed_part sample_crypto sample_field_crypto ?public 1 0 (JObject [(''type'', JString ''text''), (''text'', JString ''there'')])
      (JObject [(''type'', JString ''text''), (''text'', JString ct')]) 1"
    using ct' by (auto simp: sealed_part_def sealed_field_def jget_str_def)
  have p1: "sealed_part sample_crypto sample_field_crypto ?public 1 1 (JObject [(''type'', JString ''refusal'')])
      (JObject [(''type'', JString ''refusal'')]) 0"
    by (simp add: sealed_part_def jget_str_def)
  have "sealed_content sample_crypto sample_field_crypto ?public 1
      (JArray [JObject [(''type'', JString ''text''), (''text'', JString ''there'')], JObject [(''type'', JString ''refusal'')]])
      (JArray [JObject [(''type'', JString ''text''), (''text'', JString ct')], JObject [(''type'', JString ''refusal'')]]) 1"
    unfolding sealed_content_def
    by (rule disjI2, rule disjI1, intro exI [of _ "[1, 0]"] exI conjI, rule refl, rule refl)
      (use p0 p1 in \<open>auto simp: less_Suc_eq\<close>)
  then have m1: "?sealed 1 (sample_parts ''there'') (sample_parts ct') 1" by (auto simp: sealed_message_def sample_parts_def)
  have m2: "?sealed 2 (JObject []) (JObject []) 0" by (simp add: sealed_message_def)
  let ?msgs = "\<lambda>s t. [JObject [(''content'', JString s)], sample_parts t, JObject []]"
  have all: "?sealed i (?msgs ''hi'' ''there'' ! i) (?msgs ct ct' ! i) ([1, 1, 0] ! i)" if "i < length (?msgs ''hi'' ''there'')" for i
    using that m0 m1 m2 by (auto simp: less_Suc_eq numeral_2_eq_2)
  have "holds_key sample_crypto sample_field_crypto ''s''"
    using sample_crypto_hex sample_crypto_ok by (simp add: holds_key_def sample_field_crypto_def)
  from chat_request_roundtrip [OF this, of "sample_request ''hi'' ''there''" "?msgs ''hi'' ''there''" "?msgs ct ct'" "[1, 1, 0]"
      "''/v1/chat/completions''"] all
  have "decrypt_request_payload sample_crypto sample_field_crypto ''/v1/chat/completions''
      (jset (sample_request ''hi'' ''there'') ''messages'' (JArray (?msgs ct ct'))) = Inr (sample_request ''hi'' ''there'')"
    by (simp add: sample_request_def sample_field_crypto_def COMPLETIONS_PATH_def EMBEDDINGS_PATH_def)
  then show ?thesis by (auto simp: sample_request_def)
qed

subsection \<open>Responses\<close>

text \<open>A member of the response and what the client receives for it: nothing and \<open>null\<close> stay, a text becomes a ciphertext that
  the client's key opens to it under the associated data of its place, and no other value passes.\<close>

fun sealed_member ::
  "'x crypto_scheme \<Rightarrow> e2ee_request_context \<Rightarrow> bytes \<Rightarrow> string \<Rightarrow> string \<Rightarrow> json option \<Rightarrow> json option \<Rightarrow> bool" where
  "sealed_member C ctx secret rid path None v' = (v' = None)"
| "sealed_member C ctx secret rid path (Some JNull) v' = (v' = Some JNull)"
| "sealed_member C ctx secret rid path (Some (JString p)) v' =
     (\<exists>ct aad. v' = Some (JString ct) \<and> response_aad_for_context C ctx rid path = Inr (Some aad) \<and>
       suite_decrypt C (cx_algo ctx) secret ct aad = Inr p)"
| "sealed_member C ctx secret rid path (Some _) v' = False"

definition client_context :: "'x crypto_scheme \<Rightarrow> e2ee_request_context \<Rightarrow> bytes \<Rightarrow> bool" where
  "client_context C ctx secret =
     (hex_ok C \<and> crypto_ok C \<and> cx_aad_mode ctx = AciV2 \<and> cx_client_public_key_hex ctx = suite_public C (cx_algo ctx) secret)"

lemma encrypt_plaintext_opens:
  assumes "client_context C ctx secret" and "length (snd d) = E2EE_NONCE_LEN"
    and "encrypt_response_plaintext C d ctx p aad = Inr ct"
  shows "\<exists>a. aad = Some a \<and> suite_decrypt C (cx_algo ctx) secret ct a = Inr p"
  using assms suite_roundtrip [OF _ _ assms(2)] by (auto simp: client_context_def encrypt_response_plaintext_def result_iffs)

lemma encrypt_response_field_ok:
  assumes "client_context C ctx secret" and "\<And>k. length (snd (rnd k)) = E2EE_NONCE_LEN"
    and "encrypt_response_field C rnd ctx rid name path (v, k) = Inr (v', k')"
  shows "sealed_member C ctx secret rid path (jget v name) (jget v' name) \<and> (\<forall>n. n \<noteq> name \<longrightarrow> jget v' n = jget v n)"
proof (cases "jget v name")
  case None
  then show ?thesis using assms(3) by (simp add: encrypt_response_field_def)
next
  case (Some w)
  show ?thesis
  proof (cases w)
    case (JString p)
    obtain aad ct where s: "response_aad_for_context C ctx rid path = Inr aad" "encrypt_response_plaintext C (rnd k) ctx p aad = Inr ct"
      "v' = jset v name (JString ct)"
      using assms(3) Some JString by (auto simp: encrypt_response_field_def optional_response_string_def result_iffs)
    then show ?thesis
      using encrypt_plaintext_opens [OF assms(1,2) s(2)] Some JString jget_is_object [OF Some] by (auto simp: jget_jset)
  qed (use assms(3) Some in \<open>auto simp: encrypt_response_field_def optional_response_string_def\<close>)
qed

definition protected_members :: "string list" where
  "protected_members = [''content'', ''reasoning'', ''reasoning_content'']"

lemma encrypt_chat_fields_ok:
  assumes "client_context C ctx secret" and "\<And>k. length (snd (rnd k)) = E2EE_NONCE_LEN"
    and "encrypt_chat_fields C rnd ctx rid container i (v, k) = Inr (v', k')"
  shows "(\<forall>name \<in> set protected_members. sealed_member C ctx secret rid (choice_field i (container @ ''.'' @ name)) (jget v name) (jget v' name)) \<and>
    (\<forall>n. n \<notin> set protected_members \<longrightarrow> jget v' n = jget v n)"
proof -
  obtain v1 k1 v2 k2 where
    s1: "encrypt_response_field C rnd ctx rid ''content'' (choice_field i (container @ ''.content'')) (v, k) = Inr (v1, k1)" and
    s2: "encrypt_response_field C rnd ctx rid ''reasoning'' (choice_field i (container @ ''.reasoning'')) (v1, k1) = Inr (v2, k2)" and
    s3: "encrypt_response_field C rnd ctx rid ''reasoning_content'' (choice_field i (container @ ''.reasoning_content'')) (v2, k2) = Inr (v', k')"
    using assms(3) by (auto simp: encrypt_chat_fields_def result_iffs)
  note ok = encrypt_response_field_ok [OF assms(1,2)]
  show ?thesis using ok [OF s1] ok [OF s2] ok [OF s3] by (simp add: protected_members_def)
qed

text \<open>The \<open>audio\<close> member: only a text under \<open>data\<close> changes, to its ciphertext.\<close>

definition sealed_audio ::
  "'x crypto_scheme \<Rightarrow> e2ee_request_context \<Rightarrow> bytes \<Rightarrow> string \<Rightarrow> string \<Rightarrow> json option \<Rightarrow> json option \<Rightarrow> bool" where
  "sealed_audio C ctx secret rid path a a' =
     (case a of
        Some (JObject audio) \<Rightarrow>
          (case map_of audio ''data'' of
             Some (JString p) \<Rightarrow> (\<exists>w. a' = Some (jset (JObject audio) ''data'' w) \<and>
               sealed_member C ctx secret rid path (Some (JString p)) (Some w))
           | _ \<Rightarrow> a' = a)
      | _ \<Rightarrow> a' = a)"

lemma encrypt_audio_ok:
  assumes "client_context C ctx secret" and "\<And>k. length (snd (rnd k)) = E2EE_NONCE_LEN"
    and "encrypt_message_audio_data C rnd ctx rid i (v, k) = Inr (v', k')"
  shows "(\<forall>n. n \<noteq> ''audio'' \<longrightarrow> jget v' n = jget v n) \<and>
    sealed_audio C ctx secret rid (choice_field i ''.message.audio.data'') (jget v ''audio'') (jget v' ''audio'')"
proof (cases "\<exists>audio p. jget v ''audio'' = Some (JObject audio) \<and> map_of audio ''data'' = Some (JString p)")
  case True
  then obtain audio p where a: "jget v ''audio'' = Some (JObject audio)" "map_of audio ''data'' = Some (JString p)" by blast
  obtain n t aad ct where s: "response_nonce_ts ctx = Inr (n, t)"
    "aci_response_aad C (cx_algo ctx) (cx_request_model ctx) rid (choice_field i ''.message.audio.data'') n t = Inr aad"
    "encrypt_response_plaintext C (rnd k) ctx p (Some aad) = Inr ct"
    "v' = jset v ''audio'' (jset (JObject audio) ''data'' (JString ct))"
    using assms(3) a by (auto simp: encrypt_message_audio_data_def result_iffs Let_def choice_field_def)
  have "response_aad_for_context C ctx rid (choice_field i ''.message.audio.data'') = Inr (Some aad)"
    using assms(1) s(1,2) by (simp add: response_aad_for_context_def client_context_def)
  moreover have "suite_decrypt C (cx_algo ctx) secret ct aad = Inr p" using encrypt_plaintext_opens [OF assms(1,2) s(3)] by simp
  ultimately show ?thesis using s(4) a jget_is_object [OF a(1)] by (auto simp: jget_jset sealed_audio_def)
next
  case False
  then have "v' = v" using assms(3) by (auto simp: encrypt_message_audio_data_def split: option.splits json.splits)
  then show ?thesis using False by (auto simp: sealed_audio_def split: option.splits json.splits)
qed

text \<open>The members of a chat message, before and after.\<close>

definition sealed_chat_message ::
  "'x crypto_scheme \<Rightarrow> e2ee_request_context \<Rightarrow> bytes \<Rightarrow> string \<Rightarrow> nat \<Rightarrow> json \<Rightarrow> json \<Rightarrow> bool" where
  "sealed_chat_message C ctx secret rid i v v' =
     ((\<forall>name \<in> set protected_members. sealed_member C ctx secret rid (choice_field i (''.message.'' @ name)) (jget v name) (jget v' name)) \<and>
      sealed_audio C ctx secret rid (choice_field i ''.message.audio.data'') (jget v ''audio'') (jget v' ''audio'') \<and>
      (\<forall>n. n \<notin> set protected_members \<and> n \<noteq> ''audio'' \<longrightarrow> jget v' n = jget v n))"

lemma encrypt_message_ok:
  assumes "client_context C ctx secret" and "\<And>k. length (snd (rnd k)) = E2EE_NONCE_LEN"
    and "encrypt_message C rnd ctx rid i (v, k) = Inr (v', k')"
  shows "sealed_chat_message C ctx secret rid i v v'"
proof -
  obtain v1 k1 where s: "encrypt_chat_fields C rnd ctx rid ''.message'' i (v, k) = Inr (v1, k1)"
    "encrypt_message_audio_data C rnd ctx rid i (v1, k1) = Inr (v', k')"
    using assms(1,3) by (auto simp: encrypt_message_def result_iffs client_context_def is_aci_def)
  note f = encrypt_chat_fields_ok [OF assms(1,2) s(1)] and a = encrypt_audio_ok [OF assms(1,2) s(2)]
  have audio: "''audio'' \<notin> set protected_members" by (simp add: protected_members_def)
  then have "jget v' name = jget v1 name" if "name \<in> set protected_members" for name using a that by metis
  then show ?thesis using f a audio by (auto simp: sealed_chat_message_def)
qed

text \<open>A choice, before and after: only its message changes, and only if it is an object.\<close>

definition sealed_choice ::
  "'x crypto_scheme \<Rightarrow> e2ee_request_context \<Rightarrow> bytes \<Rightarrow> string \<Rightarrow> nat \<Rightarrow> json \<Rightarrow> json \<Rightarrow> bool" where
  "sealed_choice C ctx secret rid i choice choice' =
     (case jget choice ''message'' of
        Some (JObject message) \<Rightarrow> (\<exists>message'. choice' = jset choice ''message'' message' \<and>
          sealed_chat_message C ctx secret rid i (JObject message) message')
      | _ \<Rightarrow> choice' = choice)"

lemma encrypt_choice_ok:
  assumes "client_context C ctx secret" and "\<And>k. length (snd (rnd k)) = E2EE_NONCE_LEN" and "path \<noteq> COMPLETIONS_PATH"
    and "encrypt_choice C rnd ctx path rid j choice k = Inr (choice', k')"
  shows "sealed_choice C ctx secret rid (choice_index_of choice j) choice choice'"
proof (cases "\<exists>message. jget choice ''message'' = Some (JObject message)")
  case True
  then obtain message where m: "jget choice ''message'' = Some (JObject message)" by blast
  then obtain message' where "encrypt_message C rnd ctx rid (choice_index_of choice j) (JObject message, k) = Inr (message', k')"
    "choice' = jset choice ''message'' message'"
    using assms(3,4) jget_is_object [OF m] by (auto simp: encrypt_choice_def Let_def result_iffs)
  then show ?thesis using encrypt_message_ok [OF assms(1,2)] m by (auto simp: sealed_choice_def)
next
  case False
  then have "choice' = choice"
    using assms(3,4) by (auto simp: encrypt_choice_def Let_def split: if_splits option.splits json.splits)
  then show ?thesis using False by (auto simp: sealed_choice_def split: option.splits json.splits)
qed


definition sample_context :: e2ee_request_context where
  "sample_context = \<lparr>cx_version = ''2'', cx_algo = E2EE_ALGO_X25519_AESGCM, cx_aad_mode = AciV2, cx_request_model = ''m'',
     cx_client_public_key_hex = x25519_public_key_hex sample_crypto ''c'', cx_nonce = Some ''n'', cx_timestamp = Some 7\<rparr>"


end
