(* ===== verification/Channel.thy ===== *)
theory Channel
  imports Protocol
begin

text \<open>
  TLS pin selection (\<open>crates/aci-verify/src/channel.rs\<close>): which attested TLS keys a client of an
  origin pins. URL parsing is \<open>url_host\<close>, a parameter: the reason for a refusal, or the host
  if the URL has one. The lemmas show that every pin is the normalised digest of a key the keyset
  attests for the origin's host, that domain-scoped keysets yield exactly the declared key, and
  which declarations are refused.
\<close>

datatype domain_fault = InvalidTlsDomain string
datatype sha_fault = Expected64Hex

datatype binding_fault =
    DomainNotString
  | SpkiNotString
  | BadBindingDomain domain_fault
  | BadBindingSpki sha_fault
  | BadKeysetSpki sha_fault

datatype channel_error =
    MissingTlsSpkiBinding
  | MissingDownstreamTlsBinding
  | InvalidDownstreamTlsBinding binding_fault
  | InvalidBaseUrl string string
  | BaseUrlWithoutHost string
  | InvalidBaseUrlHost string domain_fault
  | DownstreamTlsBindingHostMismatch string string
  | DownstreamTlsBindingNotInKeyset

record selected_binding =
  sb_domain :: string
  sb_spki_sha256 :: string

definition normalize_tls_domain :: "string \<Rightarrow> domain_fault + string" where
  "normalize_tls_domain raw =
     (let domain = to_ascii_lowercase (trim_end_matches (CHR ''.'') (trim raw))
      in if domain = [] \<or> CHR ''/'' \<in> set domain \<or> CHR '':'' \<in> set domain \<or> CHR ''='' \<in> set domain
            \<or> CHR '','' \<in> set domain \<or> contains_whitespace domain
         then Inl (InvalidTlsDomain raw) else Inr domain)"

definition normalize_sha256_hex :: "string \<Rightarrow> sha_fault + string" where
  "normalize_sha256_hex v =
     (let v = trim v
      in if length v \<noteq> 64 \<or> \<not> list_all is_ascii_hexdigit v then Inl Expected64Hex
         else Inr (to_ascii_lowercase v))"

definition origin_host_domain ::
  "(string \<Rightarrow> string + string option) \<Rightarrow> string \<Rightarrow> channel_error + string" where
  "origin_host_domain url_host origin =
     and_then (map_err (InvalidBaseUrl origin) (url_host origin)) (\<lambda>h.
     and_then (ok_or (BaseUrlWithoutHost origin) h) (\<lambda>host.
     map_err (InvalidBaseUrlHost host) (normalize_tls_domain host)))"

definition selected_downstream_tls_binding :: "json \<Rightarrow> channel_error + selected_binding" where
  "selected_downstream_tls_binding evidence =
     and_then (ok_or MissingDownstreamTlsBinding (jget evidence ''downstream_tls_binding'')) (\<lambda>binding.
     and_then (ok_or (InvalidDownstreamTlsBinding DomainNotString) (jget_str binding ''domain'')) (\<lambda>domain.
     and_then (ok_or (InvalidDownstreamTlsBinding SpkiNotString) (jget_str binding ''spki_sha256'')) (\<lambda>spki.
     and_then (map_err (\<lambda>e. InvalidDownstreamTlsBinding (BadBindingDomain e))
         (normalize_tls_domain domain)) (\<lambda>d.
     and_then (map_err (\<lambda>e. InvalidDownstreamTlsBinding (BadBindingSpki e))
         (normalize_sha256_hex spki)) (\<lambda>s.
     Inr \<lparr>sb_domain = d, sb_spki_sha256 = s\<rparr>)))))"

text \<open>The loop over the candidates: the first one with the declared digest; a candidate whose own
  digest is malformed ends it with an error.\<close>

fun find_declared_key :: "tls_spki list \<Rightarrow> string \<Rightarrow> channel_error + string list" where
  "find_declared_key [] spki = Inl DownstreamTlsBindingNotInKeyset"
| "find_declared_key (key # keys) spki =
     and_then (map_err (\<lambda>e. InvalidDownstreamTlsBinding (BadKeysetSpki e))
         (normalize_sha256_hex (spki_sha256_hex key))) (\<lambda>key_spki.
     if key_spki = spki then Inr [spki] else find_declared_key keys spki)"

definition declared_tls_pins ::
  "(string \<Rightarrow> string + string option) \<Rightarrow> workload_keyset \<Rightarrow> json \<Rightarrow> string \<Rightarrow> channel_error + string list" where
  "declared_tls_pins url_host keyset evidence origin =
     (if tls_public_keys keyset = [] then Inl MissingTlsSpkiBinding
      else if \<not> list_ex (\<lambda>key. spki_domain key \<noteq> None) (tls_public_keys keyset) then
        try_map (\<lambda>key. map_err (\<lambda>e. InvalidDownstreamTlsBinding (BadKeysetSpki e))
          (normalize_sha256_hex (spki_sha256_hex key))) (tls_public_keys keyset)
      else
        and_then (selected_downstream_tls_binding evidence) (\<lambda>selected.
        and_then (origin_host_domain url_host origin) (\<lambda>origin_domain.
        if sb_domain selected \<noteq> origin_domain
        then Inl (DownstreamTlsBindingHostMismatch (sb_domain selected) origin_domain)
        else find_declared_key (tls_keys_for_host keyset (sb_domain selected)) (sb_spki_sha256 selected))))"

section \<open>Lemmas\<close>

definition is_pin :: "string \<Rightarrow> bool" where
  "is_pin p = (length p = 64 \<and> list_all is_lower_hex p)"

text \<open>A key applies to a host when it has no domain, or its domain differs from the host only in
  case, surrounding white space and trailing dots.\<close>

definition key_applies :: "tls_spki \<Rightarrow> string \<Rightarrow> bool" where
  "key_applies key host = (case spki_domain key of None \<Rightarrow> True
     | Some d \<Rightarrow> to_ascii_lowercase (trim_end_matches (CHR ''.'') (trim d)) = host)"

lemma lower_char_idem [simp]: "lower_char (lower_char c) = lower_char c"
  by (simp add: lower_char_def)

lemma to_ascii_lowercase_idem [simp]: "to_ascii_lowercase (to_ascii_lowercase s) = to_ascii_lowercase s"
  by (simp add: to_ascii_lowercase_def)

lemma lower_char_hex: "is_ascii_hexdigit c \<Longrightarrow> is_lower_hex (lower_char c)"
  by (auto simp: lower_char_def is_ascii_hexdigit_def is_lower_hex_def is_ascii_digit_def)

lemma normalize_sha256_hex_pin: "normalize_sha256_hex v = Inr p \<Longrightarrow> is_pin p"
  by (auto simp: normalize_sha256_hex_def is_pin_def to_ascii_lowercase_def list_all_iff lower_char_hex
      Let_def split: if_splits)

lemma find_declared_key_Inr:
  "find_declared_key keys spki = Inr ps \<Longrightarrow>
     ps = [spki] \<and> (\<exists>key \<in> set keys. normalize_sha256_hex (spki_sha256_hex key) = Inr spki)"
  by (induction keys) (auto simp: result_iffs split: if_splits)

lemma strip_any_None: "strip_any ps s = None \<longleftrightarrow> (\<forall>p \<in> set ps. strip_prefix p s = None)"
  by (induction ps) (auto split: option.splits)

lemma trim_while_id: "strip_any ps s = None \<Longrightarrow> trim_while ps s = s"
  by (cases s) (simp_all add: trim_while.simps)

lemma trim_id: "\<not> contains_whitespace s \<Longrightarrow> trim s = s"
proof -
  assume "\<not> contains_whitespace s"
  then have none: "s \<noteq> a @ p @ b" if "p \<in> set ws_seqs" for a p b
    using that by (auto simp: contains_whitespace_def contains_str_iff list_ex_iff)
  have "strip_prefix p s = None" if "p \<in> set ws_seqs" for p
    using none [OF that, of "[]"] by (cases "strip_prefix p s") (auto simp: strip_prefix_Some)
  moreover have "strip_prefix (rev p) (rev s) = None" if "p \<in> set ws_seqs" for p
  proof (cases "strip_prefix (rev p) (rev s)")
    case (Some r)
    then have "rev s = rev p @ r" by (simp add: strip_prefix_Some)
    then have "s = rev r @ p @ []" by (metis append_Nil2 rev_append rev_rev_ident)
    with none [OF that] show ?thesis by blast
  qed
  ultimately show ?thesis
    by (simp add: trim_def trim_start_def trim_end_def trim_while_id strip_any_None)
qed

lemma lower_char_dot: "lower_char c = CHR ''.'' \<longleftrightarrow> c = CHR ''.''"
proof -
  have "lower_char c \<noteq> CHR ''.''" if "65 \<le> code c \<and> code c \<le> 90"
  proof
    assume "lower_char c = CHR ''.''"
    then have "code (lower_char c) = code (CHR ''.'')" by simp
    with that show False by (simp add: lower_char_def)
  qed
  then show ?thesis by (auto simp: lower_char_def)
qed

lemma trim_end_matches_lower:
  "trim_end_matches (CHR ''.'') (to_ascii_lowercase (trim_end_matches (CHR ''.'') s))
     = to_ascii_lowercase (trim_end_matches (CHR ''.'') s)"
proof -
  have "dropWhile (\<lambda>x. x = CHR ''.'') (map lower_char (dropWhile (\<lambda>x. x = CHR ''.'') r))
      = map lower_char (dropWhile (\<lambda>x. x = CHR ''.'') r)" for r
    by (induction r) (auto simp: lower_char_dot)
  then show ?thesis by (simp add: trim_end_matches_def to_ascii_lowercase_def rev_map)
qed

lemma normalize_tls_domain_stable:
  assumes "normalize_tls_domain raw = Inr d"
  shows "trim_end_matches (CHR ''.'') (trim d) = d" and "to_ascii_lowercase d = d"
  using assms by (auto simp: normalize_tls_domain_def Let_def trim_id trim_end_matches_lower split: if_splits)

lemma tls_keys_for_host_applies:
  assumes "normalize_tls_domain raw = Inr host" and "key \<in> set (tls_keys_for_host ks host)"
  shows "key \<in> set (tls_public_keys ks) \<and> key_applies key host"
  using assms(2) normalize_tls_domain_stable [OF assms(1)]
  by (auto simp: tls_keys_for_host_def key_applies_def eq_ignore_ascii_case_def split: option.splits)

lemma origin_host_domain_normal:
  "origin_host_domain url_host origin = Inr host \<Longrightarrow> \<exists>raw. normalize_tls_domain raw = Inr host"
  by (auto simp: origin_host_domain_def result_iffs)

lemma selected_binding_pin: "selected_downstream_tls_binding ev = Inr sel \<Longrightarrow> is_pin (sb_spki_sha256 sel)"
  by (auto simp: selected_downstream_tls_binding_def result_iffs normalize_sha256_hex_pin)

definition domain_scoped :: "workload_keyset \<Rightarrow> bool" where
  "domain_scoped ks = list_ex (\<lambda>key. spki_domain key \<noteq> None) (tls_public_keys ks)"

lemma declared_tls_pins_cases:
  "declared_tls_pins url_host ks ev origin =
    (if tls_public_keys ks = [] then Inl MissingTlsSpkiBinding
     else if \<not> domain_scoped ks then
       try_map (\<lambda>key. map_err (\<lambda>e. InvalidDownstreamTlsBinding (BadKeysetSpki e))
          (normalize_sha256_hex (spki_sha256_hex key))) (tls_public_keys ks)
     else and_then (selected_downstream_tls_binding ev) (\<lambda>sel.
        and_then (origin_host_domain url_host origin) (\<lambda>host.
        if sb_domain sel \<noteq> host then Inl (DownstreamTlsBindingHostMismatch (sb_domain sel) host)
        else find_declared_key (tls_keys_for_host ks (sb_domain sel)) (sb_spki_sha256 sel))))"
  by (simp add: declared_tls_pins_def domain_scoped_def)

text \<open>C17: Every TLS pin a client accepts comes from the attested keyset. Without domain-scoped keys the
  pins are the normalised digests of all TLS keys, in order; with one, there is exactly one pin, the
  one the report declares, it is the digest of a key that applies to the origin's host, and the
  declaration names that host. Pins are always 64 lowercase hex characters and never an empty list.\<close>

theorem declared_tls_pins_sound:
  assumes "declared_tls_pins url_host ks ev origin = Inr pins"
  shows "pins \<noteq> [] \<and> list_all is_pin pins \<and>
    (if domain_scoped ks then
       (\<exists>sel host key. selected_downstream_tls_binding ev = Inr sel \<and>
          origin_host_domain url_host origin = Inr host \<and> sb_domain sel = host \<and>
          pins = [sb_spki_sha256 sel] \<and> key \<in> set (tls_public_keys ks) \<and> key_applies key host \<and>
          normalize_sha256_hex (spki_sha256_hex key) = Inr (sb_spki_sha256 sel))
     else list_all2 (\<lambda>key pin. normalize_sha256_hex (spki_sha256_hex key) = Inr pin)
            (tls_public_keys ks) pins)"
proof (cases "domain_scoped ks")
  case True
  then have "tls_public_keys ks \<noteq> []" by (auto simp: domain_scoped_def)
  with True assms obtain sel host where sel: "selected_downstream_tls_binding ev = Inr sel"
    and host: "origin_host_domain url_host origin = Inr host" "sb_domain sel = host"
    and find: "find_declared_key (tls_keys_for_host ks host) (sb_spki_sha256 sel) = Inr pins"
    by (auto simp: declared_tls_pins_cases result_iffs split: if_splits)
  from find_declared_key_Inr [OF find] obtain key where key: "key \<in> set (tls_keys_for_host ks host)"
    "normalize_sha256_hex (spki_sha256_hex key) = Inr (sb_spki_sha256 sel)" "pins = [sb_spki_sha256 sel]"
    by blast
  with origin_host_domain_normal [OF host(1)] have "key \<in> set (tls_public_keys ks) \<and> key_applies key host"
    using tls_keys_for_host_applies by blast
  with True sel host key selected_binding_pin [OF sel] show ?thesis by auto
next
  case False
  with assms have pins: "tls_public_keys ks \<noteq> []"
    "list_all2 (\<lambda>key pin. normalize_sha256_hex (spki_sha256_hex key) = Inr pin) (tls_public_keys ks) pins"
    by (auto simp: declared_tls_pins_cases try_map_Inr_iff map_err_Inr_iff split: if_splits)
  then have "pins \<noteq> []" by (auto simp: list_all2_Nil2)
  with False pins show ?thesis
    by (auto simp: list_all_iff normalize_sha256_hex_pin dest!: list_all2_set2)
qed

text \<open>A keyset with domain-scoped keys never falls back to them: with no declared binding, a binding
  for another host, or one naming a key the keyset does not hold for that host, the selection fails.\<close>

theorem declared_tls_pins_fail_closed:
  assumes "domain_scoped ks"
  shows "(jget ev ''downstream_tls_binding'' = None \<longrightarrow>
       declared_tls_pins url_host ks ev origin = Inl MissingDownstreamTlsBinding) \<and>
    (\<forall>sel host. selected_downstream_tls_binding ev = Inr sel \<and> origin_host_domain url_host origin = Inr host \<and>
       (sb_domain sel \<noteq> host \<or> (\<forall>key \<in> set (tls_public_keys ks). key_applies key host \<longrightarrow>
          normalize_sha256_hex (spki_sha256_hex key) \<noteq> Inr (sb_spki_sha256 sel))) \<longrightarrow>
       (\<exists>e. declared_tls_pins url_host ks ev origin = Inl e))"
proof -
  have ne: "tls_public_keys ks \<noteq> []" using assms by (auto simp: domain_scoped_def)
  have "\<exists>e. declared_tls_pins url_host ks ev origin = Inl e"
    if sel: "selected_downstream_tls_binding ev = Inr sel" and host: "origin_host_domain url_host origin = Inr host"
      and no: "sb_domain sel \<noteq> host \<or> (\<forall>key \<in> set (tls_public_keys ks). key_applies key host \<longrightarrow>
          normalize_sha256_hex (spki_sha256_hex key) \<noteq> Inr (sb_spki_sha256 sel))" for sel host
  proof (cases "declared_tls_pins url_host ks ev origin")
    case (Inr pins)
    with assms ne sel host have "sb_domain sel = host"
      and "find_declared_key (tls_keys_for_host ks host) (sb_spki_sha256 sel) = Inr pins"
      by (auto simp: declared_tls_pins_cases result_iffs split: if_splits)
    with no origin_host_domain_normal [OF host] have False
      using find_declared_key_Inr tls_keys_for_host_applies by blast
    then show ?thesis ..
  qed simp
  moreover have "jget ev ''downstream_tls_binding'' = None \<Longrightarrow>
      declared_tls_pins url_host ks ev origin = Inl MissingDownstreamTlsBinding"
    using assms ne by (simp add: declared_tls_pins_cases selected_downstream_tls_binding_def)
  ultimately show ?thesis by (intro conjI allI impI) (simp, elim conjE, simp)
qed

text \<open>The keyset, evidence and origin in the manner of the unit tests of \<^verbatim>\<open>channel.rs\<close>.\<close>

definition sample_scoped_keyset :: workload_keyset where
  "sample_scoped_keyset = \<lparr>subject = None, not_after = 2000000000, receipt_signing_keys = [], e2ee_public_keys = [],
     tls_public_keys = [\<lparr>spki_sha256_hex = replicate 64 (CHR ''A''), spki_domain = Some ''a.io''\<rparr>,
       \<lparr>spki_sha256_hex = replicate 64 (CHR ''b''), spki_domain = Some ''b.io''\<rparr>]\<rparr>"

definition sample_declaration :: "string \<Rightarrow> json" where
  "sample_declaration domain = JObject [(''downstream_tls_binding'', JObject
     [(''domain'', JString domain), (''spki_sha256'', JString (replicate 64 (CHR ''A'')))])]"

definition sample_url_host :: "string \<Rightarrow> string + string option" where
  "sample_url_host origin = Inr (strip_prefix ''https://'' origin)"

theorem declared_tls_pins_sound_witness:
  "declared_tls_pins sample_url_host sample_scoped_keyset (sample_declaration ''A.IO.'')
      ''https://a.io'' = Inr [replicate 64 (CHR ''a'')] \<and>
   list_all is_pin [replicate 64 (CHR ''a'')]"
proof -
  have pins: "declared_tls_pins sample_url_host sample_scoped_keyset (sample_declaration ''A.IO.'')
      ''https://a.io'' = Inr [replicate 64 (CHR ''a'')]"
    by code_simp
  with declared_tls_pins_sound [OF pins] show ?thesis by blast
qed

theorem declared_tls_pins_fail_closed_witness:
  "\<exists>e. declared_tls_pins sample_url_host sample_scoped_keyset (sample_declaration ''b.io'')
      ''https://a.io'' = Inl e"
proof -
  have scoped: "domain_scoped sample_scoped_keyset"
    by (simp add: domain_scoped_def sample_scoped_keyset_def)
  have "selected_downstream_tls_binding (sample_declaration ''b.io'')
      = Inr \<lparr>sb_domain = ''b.io'', sb_spki_sha256 = replicate 64 (CHR ''a'')\<rparr>"
    and "origin_host_domain sample_url_host ''https://a.io'' = Inr ''a.io''"
    by code_simp+
  moreover have "''b.io'' \<noteq> ''a.io''" by code_simp
  ultimately show ?thesis
    using declared_tls_pins_fail_closed [OF scoped, of "sample_declaration ''b.io''"
        sample_url_host "''https://a.io''"]
    by (metis selected_binding.select_convs(1))
qed

end
