(* ===== verification/Service.thy ===== *)
theory Service
  imports E2ee Channel
begin

text \<open>
  The core of the service (\<open>src/aggregator/service/mod.rs\<close>, \<open>config.rs\<close>, the report half of \<open>e2ee.rs\<close>, and the
  sealed keyset of \<open>src/aci/identity.rs\<close>): construction with its checks, renewal of the keyset, and attestation reports,
  ACI and legacy. The quoter is a parameter.
\<close>

section \<open>Configuration and keys\<close>

datatype keyset_rejection =
    NoE2eeSuite | ReceiptKeyDoublesAsE2ee string | KeyDoublesAsTls string string | KeysetNotCanonical jcs_error

datatype service_fault =
    TestKeysInProduction
  | InvalidAttestedSessionTtl
  | InvalidSourceProvenance
  | KeysetRejected keyset_rejection
  | NoReceiptKey
  | NonceRejected statement_error
  | KeyFailure key_error
  | DownstreamTlsDomainMissing
  | DownstreamTlsDomainUnknown string
  | ServicePanic

record service_config =
  sc_tee_type :: string
  sc_source_provenance :: source_provenance
  sc_keyset_not_after :: u64
  sc_subject :: "string option"
  sc_service_capabilities :: service_capabilities
  sc_attested_session_ttl_seconds :: u64
  sc_receipt_ttl_seconds :: u64
  sc_allow_test_keys :: bool
  sc_tls_public_keys :: "tls_spki list option"

definition DEFAULT_ATTESTED_SESSION_TTL_SECONDS :: u64 where "DEFAULT_ATTESTED_SESSION_TTL_SECONDS = 3600"
definition DEFAULT_KEYSET_NOT_AFTER_SECONDS :: u64 where "DEFAULT_KEYSET_NOT_AFTER_SECONDS = 30 * 24 * 60 * 60"

text \<open>The key provider beyond receipt signing.\<close>

record service_keys = key_provider +
  is_test_only :: bool
  e2ee_keys :: "keyed_public_key list"
  tls_spkis :: "tls_spki list"
  key_custody_evidence :: json
  legacy_keys :: "keyed_public_key list"

definition nonempty :: "string option \<Rightarrow> bool" where
  "nonempty s = (case s of Some t \<Rightarrow> t \<noteq> [] | None \<Rightarrow> False)"

definition validate_source_provenance :: "source_provenance \<Rightarrow> service_fault + unit" where
  "validate_source_provenance sp =
     (if source_is_unknown sp then Inr ()
      else if (nonempty (repo_url sp) \<and> nonempty (repo_commit sp)) \<or> nonempty (image_digest sp) then Inr ()
      else Inl InvalidSourceProvenance)"

definition normalize_downstream_domain :: "string \<Rightarrow> string option" where
  "normalize_downstream_domain raw =
     (let domain = to_ascii_lowercase (trim_end_matches (CHR ''.'') (trim raw))
      in if domain = [] \<or> CHR ''/'' \<in> set domain \<or> CHR '':'' \<in> set domain \<or> CHR ''='' \<in> set domain
            \<or> CHR '','' \<in> set domain \<or> contains_whitespace domain then None else Some domain)"

section \<open>The sealed keyset\<close>

definition keyed_public_key_value :: "keyed_public_key \<Rightarrow> json" where
  "keyed_public_key_value k = JObject [(''key_id'', JString (key_id k)), (''algo'', JString (algo k)), (''public_key'', JString (public_key_hex k))]"

definition tls_spki_value :: "tls_spki \<Rightarrow> json" where
  "tls_spki_value k = JObject ((''spki_sha256'', JString (spki_sha256_hex k)) #
     (case spki_domain k of None \<Rightarrow> [] | Some d \<Rightarrow> [(''domain'', JString d)]))"

definition keyset_value :: "workload_keyset \<Rightarrow> json" where
  "keyset_value ks = JObject [(''subject'', case subject ks of None \<Rightarrow> JNull | Some s \<Rightarrow> JString s),
     (''not_after'', JNumber (PosInt (not_after ks))),
     (''receipt_signing_keys'', JArray (map keyed_public_key_value (receipt_signing_keys ks))),
     (''e2ee_public_keys'', JArray (map keyed_public_key_value (e2ee_public_keys ks))),
     (''tls_public_keys'', JArray (map tls_spki_value (tls_public_keys ks)))]"

record sealed_workload_keyset =
  sk_keyset :: workload_keyset
  sk_value :: json
  sk_bytes :: bytes
  sk_digest :: string

definition seal_value :: "'x lib_scheme \<Rightarrow> workload_keyset \<Rightarrow> json \<Rightarrow> jcs_error + sealed_workload_keyset" where
  "seal_value L ks v =
     and_then (jcs_bytes L v) (\<lambda>b. Inr \<lparr>sk_keyset = ks, sk_value = v, sk_bytes = b, sk_digest = sha256_hex L b\<rparr>)"

definition seal_keyset :: "'x lib_scheme \<Rightarrow> workload_keyset \<Rightarrow> jcs_error + sealed_workload_keyset" where
  "seal_keyset L ks = seal_value L ks (keyset_value ks)"

definition keyset_from_value ::
  "'x lib_scheme \<Rightarrow> (json \<Rightarrow> workload_keyset option) \<Rightarrow> json \<Rightarrow> jcs_error option + sealed_workload_keyset" where
  "keyset_from_value L parse v = and_then (ok_or None (parse v)) (\<lambda>ks. map_err Some (seal_value L ks v))"

text \<open>The DER prefixes of the SPKI of an Ed25519 and of an X25519 key.\<close>

definition ED25519_SPKI_PREFIX :: bytes where
  "ED25519_SPKI_PREFIX = map char_of [0x30, 0x2a, 0x30, 0x05, 0x06, 0x03, 0x2b, 0x65, 0x70, 0x03, 0x21, 0x00 :: nat]"

definition X25519_SPKI_PREFIX :: bytes where
  "X25519_SPKI_PREFIX = map char_of [0x30, 0x2a, 0x30, 0x05, 0x06, 0x03, 0x2b, 0x65, 0x6e, 0x03, 0x21, 0x00 :: nat]"

definition doubles_as_tls :: "'x lib_scheme \<Rightarrow> workload_keyset \<Rightarrow> bytes \<Rightarrow> keyed_public_key \<Rightarrow> bool" where
  "doubles_as_tls L ks prefix key =
     (case hex_decode L (public_key_hex key) of
        None \<Rightarrow> False
      | Some raw \<Rightarrow> length raw = 32 \<and>
          list_ex (\<lambda>tls. eq_ignore_ascii_case (spki_sha256_hex tls) (hex_encode L (sha256_raw L (prefix @ raw)))) (tls_public_keys ks))"

definition validate_keyset :: "'x lib_scheme \<Rightarrow> workload_keyset \<Rightarrow> keyset_rejection + unit" where
  "validate_keyset L ks =
     (if \<not> list_ex (\<lambda>key. is_aci_e2ee_suite (algo key)) (e2ee_public_keys ks) then Inl NoE2eeSuite
      else case List.find (\<lambda>r. list_ex (\<lambda>e. public_key_hex e = public_key_hex r) (e2ee_public_keys ks)) (receipt_signing_keys ks) of
        Some r \<Rightarrow> Inl (ReceiptKeyDoublesAsE2ee (key_id r))
      | None \<Rightarrow>
          (case List.find (\<lambda>(role, key, prefix). doubles_as_tls L ks prefix key)
              (map (\<lambda>k. (''receipt'', k, ED25519_SPKI_PREFIX)) (receipt_signing_keys ks) @
               map (\<lambda>k. (''E2EE'', k, X25519_SPKI_PREFIX)) (e2ee_public_keys ks)) of
             Some (role, key, _) \<Rightarrow> Inl (KeyDoublesAsTls role (key_id key))
           | None \<Rightarrow> Inr ()))"

section \<open>The service\<close>

record aci_service =
  sv_keyset :: sealed_workload_keyset
  sv_default_receipt_key_id :: string
  sv_config :: service_config

definition unsealed_keyset :: "service_keys \<Rightarrow> service_config \<Rightarrow> workload_keyset" where
  "unsealed_keyset keys config = \<lparr>subject = sc_subject config, not_after = sc_keyset_not_after config,
     receipt_signing_keys = receipt_keys keys, e2ee_public_keys = e2ee_keys keys,
     tls_public_keys = (case sc_tls_public_keys config of Some ks \<Rightarrow> ks | None \<Rightarrow> tls_spkis keys)\<rparr>"

definition service_new :: "'x lib_scheme \<Rightarrow> service_keys \<Rightarrow> service_config \<Rightarrow> u64 \<Rightarrow> service_fault + aci_service" where
  "service_new L keys config now =
     and_then (ensure (\<not> (is_test_only keys \<and> \<not> sc_allow_test_keys config)) TestKeysInProduction) (\<lambda>_.
     and_then (validate_source_provenance (sc_source_provenance config)) (\<lambda>_.
     and_then (ensure (sc_attested_session_ttl_seconds config \<noteq> 0 \<and> checked_add now (sc_attested_session_ttl_seconds config) \<noteq> None)
         InvalidAttestedSessionTtl) (\<lambda>_.
     let unsealed = unsealed_keyset keys config in
     and_then (map_err KeysetRejected (validate_keyset L unsealed)) (\<lambda>_.
     and_then (map_err (\<lambda>e. KeysetRejected (KeysetNotCanonical e)) (seal_keyset L unsealed)) (\<lambda>sealed.
     case receipt_keys keys of
       [] \<Rightarrow> Inl NoReceiptKey
     | k # _ \<Rightarrow> Inr \<lparr>sv_keyset = sealed, sv_default_receipt_key_id = key_id k, sv_config = config\<rparr>)))))"

definition saturating_sub :: "u64 \<Rightarrow> u64 \<Rightarrow> u64" where
  "saturating_sub a b = (if b \<le> a then a - b else 0)"

definition renew_keyset_if_due :: "'x lib_scheme \<Rightarrow> u64 \<Rightarrow> u64 \<Rightarrow> aci_service \<Rightarrow> aci_service \<times> (service_fault + u64 option)" where
  "renew_keyset_if_due L lifetime now sv =
     (let current = sk_keyset (sv_keyset sv)
      in if saturating_sub (not_after current) now > lifetime div 2 then (sv, Inr None)
         else let na = saturating_add now lifetime
           in case seal_keyset L (current\<lparr>not_after := na\<rparr>) of
                Inl e \<Rightarrow> (sv, Inl (KeysetRejected (KeysetNotCanonical e)))
              | Inr renewed \<Rightarrow> (sv\<lparr>sv_keyset := renewed\<rparr>, Inr (Some na)))"

definition serves_directly :: "aci_service \<Rightarrow> bool" where
  "serves_directly sv = (serving (sc_service_capabilities (sv_config sv)) = ''direct'')"

section \<open>Attestation reports\<close>

record quote =
  raw_quote :: bytes
  quote_report_data :: bytes
  event_log :: json
  vm_config :: json
  app_compose :: "string option"

definition downstream_tls_binding :: "aci_service \<Rightarrow> string \<Rightarrow> json option" where
  "downstream_tls_binding sv domain =
     Option.bind (normalize_downstream_domain domain) (\<lambda>domain.
     map_option (\<lambda>key. JObject [(''domain'', JString domain), (''spki_sha256'', JString (spki_sha256_hex key))])
       (List.find (\<lambda>key. spki_domain key = Some domain) (tls_public_keys (sk_keyset (sv_keyset sv)))))"

definition requires_host_for_downstream_tls_binding :: "aci_service \<Rightarrow> bool" where
  "requires_host_for_downstream_tls_binding sv = list_ex (\<lambda>key. spki_domain key \<noteq> None) (tls_public_keys (sk_keyset (sv_keyset sv)))"

definition report_evidence :: "'x lib_scheme \<Rightarrow> service_keys \<Rightarrow> quote \<Rightarrow> json" where
  "report_evidence L keys q =
     (let evidence = JObject [(''quote'', JString (hex_encode L (raw_quote q))),
            (''quote_report_data'', JString (hex_encode L (quote_report_data q))), (''event_log'', event_log q), (''vm_config'', vm_config q),
            (''app_compose'', case app_compose q of None \<Rightarrow> JNull | Some c \<Rightarrow> JString c)];
          evidence = (case app_compose q of None \<Rightarrow> evidence | Some c \<Rightarrow> jset evidence ''app_compose'' (JString c))
      in if key_custody_evidence keys = JNull then evidence else jset evidence ''key_custody'' (key_custody_evidence keys))"

definition bind_downstream_tls :: "aci_service \<Rightarrow> string option \<Rightarrow> json \<Rightarrow> service_fault + json" where
  "bind_downstream_tls sv domain evidence =
     (if requires_host_for_downstream_tls_binding sv then
        and_then (ok_or DownstreamTlsDomainMissing domain) (\<lambda>domain.
        and_then (ok_or (DownstreamTlsDomainUnknown domain) (downstream_tls_binding sv domain)) (\<lambda>binding.
        Inr (jset evidence ''downstream_tls_binding'' binding)))
      else case Option.bind domain (downstream_tls_binding sv) of
          Some binding \<Rightarrow> Inr (jset evidence ''downstream_tls_binding'' binding)
        | None \<Rightarrow> Inr evidence)"

definition assemble_report ::
  "'x lib_scheme \<Rightarrow> service_keys \<Rightarrow> aci_service \<Rightarrow> sealed_workload_keyset \<Rightarrow> bytes \<Rightarrow> quote \<Rightarrow> string option \<Rightarrow> service_fault + attestation_report" where
  "assemble_report L keys sv ks rd q domain =
     and_then (bind_downstream_tls sv domain (report_evidence L keys q)) (\<lambda>evidence.
     Inr \<lparr>api_version = ''aci/1'', report_keyset_digest = sk_digest ks,
       attestation = \<lparr>tee_type = sc_tee_type (sv_config sv), env_workload_keyset = sk_value ks, report_data_hex = hex_encode L rd,
         env_source_provenance = sc_source_provenance (sv_config sv), env_evidence = evidence\<rparr>,
       report_service_capabilities = sc_service_capabilities (sv_config sv)\<rparr>)"

definition attestation_report_for_domain ::
  "'x lib_scheme \<Rightarrow> service_keys \<Rightarrow> (bytes \<Rightarrow> key_error + quote) \<Rightarrow> aci_service \<Rightarrow> string option \<Rightarrow> string option
     \<Rightarrow> service_fault + attestation_report" where
  "attestation_report_for_domain L keys get_quote sv nonce domain =
     and_then (map_err NonceRejected (attestation_statement (sk_digest (sv_keyset sv)) nonce)) (\<lambda>statement.
     let rd = report_data L statement in
     and_then (map_err KeyFailure (get_quote rd)) (\<lambda>q.
     assemble_report L keys sv (sv_keyset sv) rd q domain))"

section \<open>Legacy reports\<close>

text \<open>\<open>keccak\<close> is Keccak-256; \<open>digest[12..]\<close> drops its first twelve bytes.\<close>

definition ethereum_address_from_uncompressed_public_key :: "'x lib_scheme \<Rightarrow> (bytes \<Rightarrow> bytes) \<Rightarrow> string \<Rightarrow> key_error + string" where
  "ethereum_address_from_uncompressed_public_key L keccak v =
     and_then (ok_or (Crypto ''invalid secp256k1 public key hex'') (hex_decode L v)) (\<lambda>b.
     and_then (ok_or (Crypto (''secp256k1 public key must be 64 or 65 bytes, got '' @ show_nat (length b)))
         (map_option tl (uncompressed_point b))) (\<lambda>b.
     Inr (''0x'' @ hex_encode L (drop 12 (keccak b)))))"

function trim_start_matches :: "string \<Rightarrow> string \<Rightarrow> string" where
  "trim_start_matches p s =
     (if p = [] then s else case strip_prefix p s of Some r \<Rightarrow> trim_start_matches p r | None \<Rightarrow> s)"
  by pat_completeness auto
termination
  by (relation "measure (\<lambda>(p, s). length s)") (auto simp: strip_prefix_Some)

declare trim_start_matches.simps [simp del]

definition legacy_signing_key_bytes ::
  "'x lib_scheme \<Rightarrow> (bytes \<Rightarrow> bytes) \<Rightarrow> service_keys \<Rightarrow> string option \<Rightarrow> service_fault + bytes" where
  "legacy_signing_key_bytes L keccak keys signing_algo =
     (let alg = to_ascii_lowercase (case signing_algo of Some a \<Rightarrow> a | None \<Rightarrow> LEGACY_ALGO_ECDSA)
      in if alg = LEGACY_ALGO_ECDSA then
           and_then (ok_or (KeyFailure (Crypto ''no secp256k1 legacy key for legacy report_data binding''))
               (List.find (\<lambda>key. algo key = E2EE_ALGO_LEGACY_ECDSA) (legacy_keys keys))) (\<lambda>key.
           and_then (map_err KeyFailure (ethereum_address_from_uncompressed_public_key L keccak (public_key_hex key))) (\<lambda>address.
           ok_or (KeyFailure (Crypto ''invalid signing address hex'')) (hex_decode L (trim_start_matches ''0x'' address))))
         else if alg = LEGACY_ALGO_ED25519 then
           and_then (ok_or (KeyFailure (Crypto ''no ed25519 legacy key for legacy report_data binding''))
               (List.find (\<lambda>key. algo key = E2EE_ALGO_LEGACY_ED25519) (legacy_keys keys))) (\<lambda>key.
           ok_or (KeyFailure (Crypto ''invalid ed25519 public key hex'')) (hex_decode L (public_key_hex key)))
         else Inl (KeyFailure (UnsupportedAlgo alg)))"

definition legacy_tls_spki_fingerprint :: "'x lib_scheme \<Rightarrow> aci_service \<Rightarrow> string option \<Rightarrow> service_fault + bytes" where
  "legacy_tls_spki_fingerprint L sv domain =
     and_then (ok_or (KeyFailure (Crypto ''attestation version 2 requires a published TLS SPKI for the request host''))
       (Option.bind (Option.bind domain normalize_downstream_domain) (\<lambda>domain.
        map_option spki_sha256_hex (List.find (\<lambda>key. spki_domain key = Some domain) (tls_public_keys (sk_keyset (sv_keyset sv))))))) (\<lambda>spki_hex.
     and_then (ok_or (KeyFailure (Crypto ''invalid TLS SPKI hex'')) (hex_decode L spki_hex)) (\<lambda>b.
     and_then (ensure (length b = 32) (KeyFailure (Crypto ''TLS SPKI fingerprint is not 32 bytes''))) (\<lambda>_. Inr b)))"

text \<open>\<open>copy_into i b rd\<close>: the bytes \<open>b\<close> copied over \<open>rd\<close> from position \<open>i\<close> on, with a slice that must fit.\<close>

definition copy_into :: "nat \<Rightarrow> bytes \<Rightarrow> bytes \<Rightarrow> service_fault + bytes" where
  "copy_into i b rd =
     (if i + length b \<le> length rd then Inr (take i rd @ b @ drop (i + length b) rd) else Inl ServicePanic)"

definition nonce_bytes :: "'x lib_scheme \<Rightarrow> string \<Rightarrow> bytes" where
  "nonce_bytes L nonce = (case hex_decode L nonce of
     Some b \<Rightarrow> if length b = 32 then b else sha256_raw L nonce | None \<Rightarrow> sha256_raw L nonce)"

definition legacy_report_data ::
  "'x lib_scheme \<Rightarrow> (bytes \<Rightarrow> bytes) \<Rightarrow> service_keys \<Rightarrow> aci_service \<Rightarrow> string option \<Rightarrow> u32 \<Rightarrow> string option \<Rightarrow> string option
     \<Rightarrow> service_fault + bytes" where
  "legacy_report_data L keccak keys sv signing_algo version nonce domain =
     and_then (legacy_signing_key_bytes L keccak keys signing_algo) (\<lambda>signing_key.
     let rd = replicate 64 (CHR 0x00) in
     and_then (if version \<ge> 2
       then and_then (legacy_tls_spki_fingerprint L sv domain) (\<lambda>fingerprint.
         copy_into 0 (sha256_raw L (signing_key @ fingerprint)) rd)
       else copy_into 0 signing_key rd) (\<lambda>rd.
     case nonce of None \<Rightarrow> Inr rd | Some nonce \<Rightarrow> copy_into 32 (nonce_bytes L nonce) rd))"

definition legacy_attestation_report_for_domain ::
  "'x lib_scheme \<Rightarrow> (bytes \<Rightarrow> bytes) \<Rightarrow> service_keys \<Rightarrow> (bytes \<Rightarrow> key_error + quote) \<Rightarrow> aci_service \<Rightarrow> string option \<Rightarrow> u32
     \<Rightarrow> string option \<Rightarrow> string option \<Rightarrow> service_fault + attestation_report" where
  "legacy_attestation_report_for_domain L keccak keys get_quote_raw sv signing_algo version nonce domain =
     and_then (legacy_report_data L keccak keys sv signing_algo version nonce domain) (\<lambda>rd.
     and_then (map_err KeyFailure (get_quote_raw rd)) (\<lambda>q.
     assemble_report L keys sv (sv_keyset sv) rd q domain))"

section \<open>Lemmas\<close>

definition distinct_roles :: "workload_keyset \<Rightarrow> bool" where
  "distinct_roles ks = (public_key_hex ` set (receipt_signing_keys ks) \<inter> public_key_hex ` set (e2ee_public_keys ks) = {})"

lemma distinct_roles_update [simp]: "distinct_roles (ks\<lparr>not_after := n\<rparr>) = distinct_roles ks"
  by (simp add: distinct_roles_def)

lemma validate_keyset_roles:
  assumes "validate_keyset L ks = Inr u"
  shows "distinct_roles ks"
proof -
  have "List.find (\<lambda>r. list_ex (\<lambda>e. public_key_hex e = public_key_hex r) (e2ee_public_keys ks)) (receipt_signing_keys ks) = None"
    using assms by (auto simp: validate_keyset_def split: if_splits option.splits)
  then show ?thesis by (fastforce simp: distinct_roles_def find_None_iff list_ex_iff)
qed

lemma service_new_Inr:
  assumes "service_new L keys config now = Inr sv"
  shows "validate_keyset L (unsealed_keyset keys config) = Inr () \<and> seal_keyset L (unsealed_keyset keys config) = Inr (sv_keyset sv) \<and>
    sv_config sv = config \<and> (\<exists>k ks. receipt_keys keys = k # ks \<and> sv_default_receipt_key_id sv = key_id k)"
  using assms by (cases "receipt_keys keys") (auto simp: service_new_def result_iffs Let_def)

lemma seal_keyset_Inr:
  "seal_keyset L ks = Inr s \<longleftrightarrow> (\<exists>b. jcs_bytes L (keyset_value ks) = Inr b \<and>
     s = \<lparr>sk_keyset = ks, sk_value = keyset_value ks, sk_bytes = b, sk_digest = sha256_hex L b\<rparr>)"
  by (auto simp: seal_keyset_def seal_value_def result_iffs)

text \<open>The states a service can be in: as constructed, and after any renewals.\<close>

inductive service_state :: "'x lib_scheme \<Rightarrow> service_keys \<Rightarrow> aci_service \<Rightarrow> bool" for L keys where
  state_new: "service_new L keys config now = Inr sv \<Longrightarrow> service_state L keys sv"
| state_renew: "service_state L keys sv \<Longrightarrow> service_state L keys (fst (renew_keyset_if_due L lifetime now sv))"

lemma renew_cases:
  obtains "fst (renew_keyset_if_due L lifetime now sv) = sv"
  | s where "seal_keyset L ((sk_keyset (sv_keyset sv))\<lparr>not_after := saturating_add now lifetime\<rparr>) = Inr s"
    and "fst (renew_keyset_if_due L lifetime now sv) = sv\<lparr>sv_keyset := s\<rparr>"
  by (cases "seal_keyset L ((sk_keyset (sv_keyset sv))\<lparr>not_after := saturating_add now lifetime\<rparr>)";
      cases "saturating_sub (not_after (sk_keyset (sv_keyset sv))) now > lifetime div 2")
    (simp_all add: renew_keyset_if_due_def)

lemma service_state_keyset:
  assumes "service_state L keys sv"
  shows "seal_keyset L (sk_keyset (sv_keyset sv)) = Inr (sv_keyset sv) \<and> distinct_roles (sk_keyset (sv_keyset sv))"
  using assms
proof (induction rule: service_state.induct)
  case (state_new config now sv)
  from service_new_Inr [OF this] validate_keyset_roles [of L "unsealed_keyset keys config"]
  show ?case by (auto simp: seal_keyset_Inr)
next
  case (state_renew sv lifetime now)
  show ?case
  proof (cases rule: renew_cases [of L lifetime now sv])
    case 1
    then show ?thesis using state_renew.IH by simp
  next
    case (2 s)
    then show ?thesis using state_renew.IH by (auto simp: seal_keyset_Inr)
  qed
qed

lemma normalize_domains: "normalize_downstream_domain d = Some d' \<longleftrightarrow> normalize_tls_domain d = Inr d'"
  by (auto simp: normalize_downstream_domain_def normalize_tls_domain_def Let_def)

lemma normalize_tls_domain_idem: "normalize_tls_domain raw = Inr d \<Longrightarrow> normalize_tls_domain d = Inr d"
  using normalize_tls_domain_stable [of raw d] by (auto simp: normalize_tls_domain_def Let_def split: if_splits)

lemma find_declared_key_ok:
  "(\<And>k. k \<in> set keys \<Longrightarrow> \<exists>p. normalize_sha256_hex (spki_sha256_hex k) = Inr p) \<Longrightarrow> key \<in> set keys \<Longrightarrow>
     normalize_sha256_hex (spki_sha256_hex key) = Inr pin \<Longrightarrow> find_declared_key keys pin = Inr [pin]"
proof (induction keys)
  case (Cons k keys)
  obtain p where "normalize_sha256_hex (spki_sha256_hex k) = Inr p" using Cons.prems(1) by force
  then show ?case using Cons by (auto simp: map_err_def)
qed simp

lemma normalize_sha256_hex_pin_idem:
  assumes "normalize_sha256_hex v = Inr p"
  shows "normalize_sha256_hex v = Inr p \<and> is_pin p"
  using assms normalize_sha256_hex_pin by blast

lemma find_SomeD: "List.find P xs = Some x \<Longrightarrow> x \<in> set xs \<and> P x"
  by (induction xs) (auto split: if_splits)

text \<open>The client selects the key the service declared for the host.\<close>

lemma declared_binding_selected:
  assumes "bind_downstream_tls sv (Some d) ev0 = Inr ev" and "is_object ev0"
    and ks: "ks = sk_keyset (sv_keyset sv)" and scoped: "domain_scoped ks"
    and pins: "\<And>k. k \<in> set (tls_public_keys ks) \<Longrightarrow> \<exists>p. normalize_sha256_hex (spki_sha256_hex k) = Inr p"
    and url: "url_host origin = Inr (Some d)"
  shows "\<exists>key host pin. key \<in> set (tls_public_keys ks) \<and> normalize_tls_domain d = Inr host \<and> spki_domain key = Some host \<and>
    normalize_sha256_hex (spki_sha256_hex key) = Inr pin \<and> declared_tls_pins url_host ks ev origin = Inr [pin]"
proof -
  have req: "requires_host_for_downstream_tls_binding sv" using scoped ks by (simp add: requires_host_for_downstream_tls_binding_def domain_scoped_def)
  obtain host key where b: "normalize_downstream_domain d = Some host"
    "List.find (\<lambda>k. spki_domain k = Some host) (tls_public_keys ks) = Some key"
    "ev = jset ev0 ''downstream_tls_binding'' (JObject [(''domain'', JString host), (''spki_sha256'', JString (spki_sha256_hex key))])"
    using assms(1) req ks by (auto simp: bind_downstream_tls_def downstream_tls_binding_def result_iffs bind_eq_Some_conv)
  have key: "key \<in> set (tls_public_keys ks)" "spki_domain key = Some host" using find_SomeD [OF b(2)] by simp_all
  obtain pin where pin: "normalize_sha256_hex (spki_sha256_hex key) = Inr pin" using pins [OF key(1)] by blast
  have host: "normalize_tls_domain d = Inr host" "normalize_tls_domain host = Inr host"
    using b(1) normalize_domains normalize_tls_domain_idem by blast+
  have "jget ev ''downstream_tls_binding'' = Some (JObject [(''domain'', JString host), (''spki_sha256'', JString (spki_sha256_hex key))])"
    using b(3) assms(2) by (cases ev0) (auto simp: is_object_def update_conv')
  then have sel: "selected_downstream_tls_binding ev = Inr \<lparr>sb_domain = host, sb_spki_sha256 = pin\<rparr>"
    using host(2) pin by (simp add: selected_downstream_tls_binding_def jget_str_def)
  have "key \<in> set (tls_keys_for_host ks host)"
    using key normalize_tls_domain_stable [OF host(1)] by (simp add: tls_keys_for_host_def eq_ignore_ascii_case_def)
  moreover have "k \<in> set (tls_keys_for_host ks host) \<Longrightarrow> \<exists>p. normalize_sha256_hex (spki_sha256_hex k) = Inr p" for k
    using pins by (auto simp: tls_keys_for_host_def)
  ultimately have "find_declared_key (tls_keys_for_host ks host) pin = Inr [pin]" using find_declared_key_ok pin by blast
  then have "declared_tls_pins url_host ks ev origin = Inr [pin]"
    using sel host(1) url scoped by (auto simp: declared_tls_pins_cases domain_scoped_def origin_host_domain_def)
  then show ?thesis using key host(1) pin by blast
qed

lemma report_evidence_object [simp]: "is_object (report_evidence L keys q)"
  by (simp add: report_evidence_def Let_def is_object_def split: option.split)

section \<open>Properties\<close>

text \<open>C35: A report the service serves is one the client accepts. In any state the service reaches by construction and renewals, a
  report it builds for a nonce and host passes the client's gate for that nonce before the keyset expires, with the keyset, its
  digest and the report data the quote was asked for; and when the TLS keys are scoped to hosts and their digests are well-formed,
  a client that connected to that host pins exactly the key of the host.\<close>

theorem served_report_accepted:
  assumes "hex_ok L" and "sha256_len L" and "service_state L keys sv"
    and "attestation_report_for_domain L keys get_quote sv nonce domain = Inr report"
    and "parse (keyset_value (sk_keyset (sv_keyset sv))) = Some (sk_keyset (sv_keyset sv))"
    and "now < not_after (sk_keyset (sv_keyset sv))"
  shows "(\<exists>statement q. attestation_statement (sk_digest (sv_keyset sv)) nonce = Inr statement \<and>
      get_quote (report_data L statement) = Inr q \<and>
      validate_aci_report_binding L parse report nonce now None = Inr \<lparr>vr_keyset_digest = sk_digest (sv_keyset sv),
        vr_keyset = sk_keyset (sv_keyset sv), vr_report_data = report_data L statement, vr_evidence = None\<rparr>) \<and>
    (domain = Some d \<and> url_host origin = Inr (Some d) \<and> domain_scoped (sk_keyset (sv_keyset sv)) \<and>
      (\<forall>k \<in> set (tls_public_keys (sk_keyset (sv_keyset sv))). \<exists>p. normalize_sha256_hex (spki_sha256_hex k) = Inr p) \<longrightarrow>
      (\<exists>key host pin. key \<in> set (tls_public_keys (sk_keyset (sv_keyset sv))) \<and> normalize_tls_domain d = Inr host \<and>
        spki_domain key = Some host \<and> normalize_sha256_hex (spki_sha256_hex key) = Inr pin \<and>
        declared_tls_pins url_host (sk_keyset (sv_keyset sv)) (env_evidence (attestation report)) origin = Inr [pin]))"
proof -
  let ?ks = "sk_keyset (sv_keyset sv)"
  obtain statement q ev where s: "attestation_statement (sk_digest (sv_keyset sv)) nonce = Inr statement"
    "get_quote (report_data L statement) = Inr q" "bind_downstream_tls sv domain (report_evidence L keys q) = Inr ev"
    and r: "api_version report = ''aci/1''" "report_keyset_digest report = sk_digest (sv_keyset sv)"
    "env_workload_keyset (attestation report) = sk_value (sv_keyset sv)" "env_evidence (attestation report) = ev"
    "report_data_hex (attestation report) = hex_encode L (report_data L statement)"
    using assms(4) by (auto simp: attestation_report_for_domain_def assemble_report_def result_iffs Let_def)
  note st = service_state_keyset [OF assms(3)]
  have v: "sk_value (sv_keyset sv) = keyset_value ?ks" "workload_keyset_digest L (keyset_value ?ks) = Inr (sk_digest (sv_keyset sv))"
    using st by (cases "sv_keyset sv"; auto simp: seal_keyset_Inr workload_keyset_digest_def)+
  have "validate_aci_report_binding L parse report nonce now None = Inr \<lparr>vr_keyset_digest = sk_digest (sv_keyset sv),
      vr_keyset = ?ks, vr_report_data = report_data L statement, vr_evidence = None\<rparr>"
    using honest_report_accepted [OF assms(1,2) r(1), of parse ?ks nonce statement now] r v s(1) assms(5,6) st
    by (simp add: distinct_roles_def)
  note accepted = s(1,2) this
  show ?thesis
  proof (intro conjI impI)
    show "\<exists>statement q. attestation_statement (sk_digest (sv_keyset sv)) nonce = Inr statement \<and>
      get_quote (report_data L statement) = Inr q \<and>
      validate_aci_report_binding L parse report nonce now None = Inr \<lparr>vr_keyset_digest = sk_digest (sv_keyset sv),
        vr_keyset = ?ks, vr_report_data = report_data L statement, vr_evidence = None\<rparr>"
      by (rule exI [of _ statement], rule exI [of _ q]) (simp only: accepted simp_thms)
  next
    assume scoped: "domain = Some d \<and> url_host origin = Inr (Some d) \<and> domain_scoped ?ks \<and>
      (\<forall>k \<in> set (tls_public_keys ?ks). \<exists>p. normalize_sha256_hex (spki_sha256_hex k) = Inr p)"
    then have "bind_downstream_tls sv (Some d) (report_evidence L keys q) = Inr ev" using s(3) by simp
    from declared_binding_selected [OF this report_evidence_object refl] scoped
    show "\<exists>key host pin. key \<in> set (tls_public_keys ?ks) \<and> normalize_tls_domain d = Inr host \<and>
        spki_domain key = Some host \<and> normalize_sha256_hex (spki_sha256_hex key) = Inr pin \<and>
        declared_tls_pins url_host ?ks (env_evidence (attestation report)) origin = Inr [pin]"
      unfolding r(4) by blast
  qed
qed

definition sample_service_keys :: service_keys where
  "sample_service_keys = \<lparr>receipt_keys = [\<lparr>key_id = ''r1'', algo = ''ed25519'', public_key_hex = ''aa''\<rparr>],
     sign_receipt = (\<lambda>_ _. Inr []), is_test_only = False,
     e2ee_keys = [\<lparr>key_id = ''e1'', algo = E2EE_ALGO_X25519_AESGCM, public_key_hex = ''bb''\<rparr>], tls_spkis = [],
     key_custody_evidence = JNull, legacy_keys = []\<rparr>"

definition sample_service_config :: service_config where
  "sample_service_config = \<lparr>sc_tee_type = ''tdx'',
     sc_source_provenance = \<lparr>repo_url = None, repo_commit = None, image_digest = None, image_provenance = None\<rparr>,
     sc_keyset_not_after = 2000, sc_subject = None, sc_service_capabilities = default_capabilities,
     sc_attested_session_ttl_seconds = 3600, sc_receipt_ttl_seconds = 3600, sc_allow_test_keys = False,
     sc_tls_public_keys = Some [\<lparr>spki_sha256_hex = replicate 64 (CHR ''b''), spki_domain = Some ''a.io''\<rparr>]\<rparr>"

definition sample_quote :: "bytes \<Rightarrow> key_error + quote" where
  "sample_quote rd = Inr \<lparr>raw_quote = [], quote_report_data = rd, event_log = JNull, vm_config = JNull, app_compose = None\<rparr>"

lemma keyset_value_ok: "jcs_ok (keyset_value ks)"
  by (auto simp: keyset_value_def keyed_public_key_value_def tls_spki_value_def list_all_iff is_ascii_def split: option.split)

lemma seal_keyset_total: "\<exists>s. seal_keyset L ks = Inr s \<and> sk_keyset s = ks"
proof -
  obtain v where "jcs_sorted (keyset_value ks) = Inr v" using jcs_sorted_ok_iff keyset_value_ok by blast
  then show ?thesis by (simp add: seal_keyset_Inr jcs_bytes_def)
qed

lemma sample_service:
  obtains sv where "service_new sample_lib sample_service_keys sample_service_config 0 = Inr sv"
    and "sk_keyset (sv_keyset sv) = unsealed_keyset sample_service_keys sample_service_config"
proof -
  obtain s where s: "seal_keyset sample_lib (unsealed_keyset sample_service_keys sample_service_config) = Inr s"
    "sk_keyset s = unsealed_keyset sample_service_keys sample_service_config" using seal_keyset_total by blast
  have "hex_decode sample_lib ''aa'' = Some [char_of (170 :: nat)]" "hex_decode sample_lib ''bb'' = Some [char_of (187 :: nat)]"
    by (simp_all add: sample_lib_def hex_value_def is_ascii_digit_def)
  then have "validate_keyset sample_lib (unsealed_keyset sample_service_keys sample_service_config) = Inr ()"
    by (simp add: validate_keyset_def unsealed_keyset_def sample_service_keys_def sample_service_config_def is_aci_e2ee_suite_def doubles_as_tls_def)
  moreover have "checked_add 0 3600 \<noteq> None" by (simp add: checked_add_def)
  ultimately show ?thesis
    using s that by (simp add: service_new_def validate_source_provenance_def source_is_unknown_def Let_def)
      (simp add: sample_service_keys_def sample_service_config_def)
qed

theorem served_report_accepted_witness:
  "\<exists>sv report v pin. service_new sample_lib sample_service_keys sample_service_config 0 = Inr sv \<and>
     attestation_report_for_domain sample_lib sample_service_keys sample_quote sv None (Some ''a.io'') = Inr report \<and>
     validate_aci_report_binding sample_lib (\<lambda>_. Some (sk_keyset (sv_keyset sv))) report None 1999 None = Inr v \<and>
     declared_tls_pins (\<lambda>_. Inr (Some ''a.io'')) (sk_keyset (sv_keyset sv)) (env_evidence (attestation report)) ''https://a.io'' = Inr [pin]"
proof -
  obtain sv where sv: "service_new sample_lib sample_service_keys sample_service_config 0 = Inr sv"
    and ks: "sk_keyset (sv_keyset sv) = unsealed_keyset sample_service_keys sample_service_config" by (rule sample_service)
  note st = state_new [OF sv]
  have tls: "tls_public_keys (sk_keyset (sv_keyset sv)) = [\<lparr>spki_sha256_hex = replicate 64 (CHR ''b''), spki_domain = Some ''a.io''\<rparr>]"
    and na: "not_after (sk_keyset (sv_keyset sv)) = 2000"
    by (simp_all add: ks unsealed_keyset_def sample_service_config_def)
  have "valid_digest (sk_digest (sv_keyset sv))"
    using service_state_keyset [OF st] sha256_hex_valid [OF sample_lib_laws(1,3)] by (cases "sv_keyset sv") (auto simp: seal_keyset_Inr)
  then obtain s where "attestation_statement (sk_digest (sv_keyset sv)) None = Inr s"
    by (simp add: attestation_statement_Inr valid_nonce_opt_def)
  moreover have dom: "normalize_downstream_domain ''a.io'' = Some ''a.io''" by code_simp
  ultimately obtain report where report: "attestation_report_for_domain sample_lib sample_service_keys sample_quote sv None (Some ''a.io'') = Inr report"
    by (simp add: attestation_report_for_domain_def sample_quote_def assemble_report_def bind_downstream_tls_def
        requires_host_for_downstream_tls_binding_def downstream_tls_binding_def tls Let_def)
  have "normalize_sha256_hex (replicate 64 (CHR ''b'')) = Inr (replicate 64 (CHR ''b''))" by code_simp
  then have pin: "\<exists>p. normalize_sha256_hex (replicate 64 (CHR ''b'')) = Inr p" by blast
  have "1999 < not_after (sk_keyset (sv_keyset sv))" by (simp add: na)
  from served_report_accepted [OF sample_lib_laws(3,1) st report refl this, of "''a.io''" "\<lambda>_. Inr (Some ''a.io'')" "''https://a.io''"] pin
  show ?thesis using sv report by (auto simp: domain_scoped_def tls)
qed

text \<open>C36: Renewal keeps the keyset alive and changes nothing else. In any state the service reaches, a renewal check never fails;
  after it the keyset is unexpired for at least half of the lifetime, so checking at least that often never serves an expired
  keyset; the receipt, E2EE and TLS keys are the same, the keyset is sealed under its own digest, and no receipt key is an E2EE key.\<close>

theorem renewal_keeps_keyset_live:
  assumes "service_state L keys sv" and "lifetime \<noteq> 0" and "unat now + unat lifetime < 2 ^ 64" and "unat t \<le> unat now + unat lifetime div 2"
  shows "\<exists>sv' r. renew_keyset_if_due L lifetime now sv = (sv', Inr r) \<and> \<not> is_expired_at (sk_keyset (sv_keyset sv')) t \<and>
    (\<exists>n. sk_keyset (sv_keyset sv') = (sk_keyset (sv_keyset sv))\<lparr>not_after := n\<rparr>) \<and>
    seal_keyset L (sk_keyset (sv_keyset sv')) = Inr (sv_keyset sv') \<and> distinct_roles (sk_keyset (sv_keyset sv'))"
proof -
  let ?na = "not_after (sk_keyset (sv_keyset sv))"
  note st = service_state_keyset [OF assms(1)]
  show ?thesis
  proof (cases "saturating_sub ?na now > lifetime div 2")
    case True
    then have "now \<le> ?na \<and> lifetime div 2 < ?na - now" by (auto simp: saturating_sub_def split: if_splits)
    then have "unat now \<le> unat ?na" "unat lifetime div 2 < unat ?na - unat now"
      by (auto simp: word_le_nat_alt word_less_nat_alt unat_sub unat_div)
    then have "\<not> is_expired_at (sk_keyset (sv_keyset sv)) t"
      using assms(4) by (simp add: is_expired_at_def word_le_nat_alt)
    moreover have "\<exists>n. sk_keyset (sv_keyset sv) = (sk_keyset (sv_keyset sv))\<lparr>not_after := n\<rparr>" by (rule exI [of _ ?na]) simp
    ultimately show ?thesis using True st by (simp add: renew_keyset_if_due_def)
  next
    case False
    let ?ks = "(sk_keyset (sv_keyset sv))\<lparr>not_after := saturating_add now lifetime\<rparr>"
    obtain s where s: "seal_keyset L ?ks = Inr s" "sk_keyset s = ?ks" using seal_keyset_total by blast
    have "unat (saturating_add now lifetime) = unat now + unat lifetime" using assms(3) by (simp add: saturating_add_unat)
    moreover have "0 < unat lifetime" using assms(2) by (simp add: unat_gt_0)
    ultimately have "\<not> is_expired_at ?ks t" using assms(4) by (simp add: is_expired_at_def word_le_nat_alt)
    then show ?thesis using False s st by (auto simp: renew_keyset_if_due_def Let_def)
  qed
qed

theorem renewal_keeps_keyset_live_witness:
  "\<exists>sv sv' r. service_new sample_lib sample_service_keys sample_service_config 0 = Inr sv \<and>
     renew_keyset_if_due sample_lib 1000 1900 sv = (sv', Inr r) \<and> \<not> is_expired_at (sk_keyset (sv_keyset sv')) 2400"
proof -
  obtain sv where sv: "service_new sample_lib sample_service_keys sample_service_config 0 = Inr sv" by (rule sample_service)
  from renewal_keeps_keyset_live [OF state_new [OF sv], of 1000 1900 2400] sv show ?thesis by auto
qed

end
