(* ===== verification/E2eeService.thy ===== *)
theory E2eeService
  imports E2eeFields Service
begin

text \<open>
  Admission of an encrypted request (the E2EE half of \<open>src/aggregator/service/e2ee.rs\<close>, with the request types of
  \<open>wire.rs\<close>): header checks, selection of the suite, the replay cache, and decryption. The cache is threaded explicitly;
  the clock reading of a call is an argument.
\<close>

section \<open>Types\<close>

record e2ee_request_parts =
  rp_signing_algo :: "string option"
  rp_client_public_key :: "string option"
  rp_model_public_key :: "string option"
  rp_version :: "string option"
  rp_nonce :: "string option"
  rp_timestamp :: "string option"

record e2ee_prepared_request =
  decrypted_body :: bytes
  prepared_context :: e2ee_request_context

record e2ee_replay_key =
  rk_client_public_key_hex :: string
  rk_model_public_key_hex :: string
  rk_nonce :: string

type_synonym replay_cache = "(e2ee_replay_key \<times> u64) list"

section \<open>Standard library\<close>

text \<open>\<open>str::parse::<u64>\<close>: an optional plus sign, then decimal digits whose value fits.\<close>

fun digits_value :: "nat \<Rightarrow> string \<Rightarrow> nat" where
  "digits_value acc [] = acc"
| "digits_value acc (c # s) = digits_value (10 * acc + (of_char c - 48)) s"

definition parse_u64 :: "string \<Rightarrow> u64 option" where
  "parse_u64 s =
     (let d = (case s of c # r \<Rightarrow> if c = CHR ''+'' then r else s | [] \<Rightarrow> [])
      in if d = [] \<or> \<not> list_all is_ascii_digit d \<or> digits_value 0 d \<ge> 2 ^ 64 then None else Some (of_nat (digits_value 0 d)))"

definition abs_diff :: "u64 \<Rightarrow> u64 \<Rightarrow> u64" where
  "abs_diff a b = (if a < b then b - a else a - b)"

section \<open>Replay cache\<close>

definition claim_e2ee_replay ::
  "string \<Rightarrow> string \<Rightarrow> string \<Rightarrow> u64 \<Rightarrow> replay_cache \<Rightarrow> replay_cache \<times> (e2ee_error + unit)" where
  "claim_e2ee_replay client model nonce now cache =
     (let cache = filter (\<lambda>(_, expires_at). expires_at > now) cache;
          key = \<lparr>rk_client_public_key_hex = client, rk_model_public_key_hex = model, rk_nonce = nonce\<rparr>
      in if hm_get cache key \<noteq> None then (cache, Inl ReplayDetected)
         else (AList.update key (saturating_add now 300) cache, Inr ()))"

section \<open>Requests of the E2EE v2 protocol\<close>

definition selects_key :: "'x crypto_scheme \<Rightarrow> string \<Rightarrow> keyed_public_key \<Rightarrow> bool" where
  "selects_key C model_public_key key =
     (is_aci_e2ee_suite (algo key) \<and>
      same_ok (normalize_aci_e2ee_public_key_hex C (algo key) model_public_key)
        (normalize_aci_e2ee_public_key_hex C (algo key) (public_key_hex key)))"

record e2ee_admission =
  ad_key :: keyed_public_key
  ad_client :: string
  ad_model_key :: string
  ad_nonce :: string
  ad_timestamp :: u64
  ad_payload :: json
  ad_request_model :: string

text \<open>Everything that is checked before the replay cache is consulted.\<close>

definition admit_v2 ::
  "'x crypto_scheme \<Rightarrow> aci_service \<Rightarrow> u64 \<Rightarrow> e2ee_request_parts \<Rightarrow> bytes \<Rightarrow> e2ee_error + e2ee_admission" where
  "admit_v2 C sv now parts body =
     and_then (ok_or HeaderMissing (rp_version parts)) (\<lambda>version.
     and_then (ensure (version = E2EE_VERSION_V2) InvalidVersion) (\<lambda>_.
     and_then (ok_or HeaderMissing (rp_client_public_key parts)) (\<lambda>client_public_key.
     and_then (ok_or HeaderMissing (rp_model_public_key parts)) (\<lambda>model_public_key.
     and_then (ok_or HeaderMissing (rp_nonce parts)) (\<lambda>nonce.
     and_then (ok_or HeaderMissing (rp_timestamp parts)) (\<lambda>timestamp.
     and_then (validate_aci_e2ee_nonce nonce) (\<lambda>_.
     and_then (ok_or InvalidTimestamp (parse_u64 timestamp)) (\<lambda>timestamp.
     and_then (ensure (abs_diff now timestamp \<le> 300) InvalidTimestamp) (\<lambda>_.
     and_then (ok_or ModelKeyMismatch
         (List.find (selects_key C model_public_key) (e2ee_public_keys (sk_keyset (sv_keyset sv))))) (\<lambda>selected.
     and_then (map_err (\<lambda>_. InvalidPublicKey) (normalize_aci_e2ee_public_key_hex C (algo selected) client_public_key)) (\<lambda>client.
     and_then (map_err (\<lambda>_. InvalidPublicKey) (normalize_aci_e2ee_public_key_hex C (algo selected) model_public_key)) (\<lambda>model_key.
     and_then (ok_or DecryptionFailed (from_slice C body)) (\<lambda>payload.
     and_then (validate_aci_payload_model payload) (\<lambda>request_model.
     Inr \<lparr>ad_key = selected, ad_client = client, ad_model_key = model_key, ad_nonce = nonce, ad_timestamp = timestamp,
       ad_payload = payload, ad_request_model = request_model\<rparr>))))))))))))))"

definition open_v2 ::
  "'x crypto_scheme \<Rightarrow> e2ee_provider \<Rightarrow> string \<Rightarrow> e2ee_admission \<Rightarrow> e2ee_error + e2ee_prepared_request" where
  "open_v2 C keys endpoint_path ad =
     and_then (decrypt_request_payload C
       \<lparr>fc_keys = keys, fc_decryptor = DecryptAciV2 (key_id (ad_key ad)), fc_algo = algo (ad_key ad), fc_aad_mode = AciV2,
         fc_model = ad_request_model ad, fc_nonce = Some (ad_nonce ad), fc_timestamp = Some (ad_timestamp ad)\<rparr>
       endpoint_path (ad_payload ad)) (\<lambda>payload.
     Inr \<lparr>decrypted_body = to_vec C payload, prepared_context =
       \<lparr>cx_version = E2EE_VERSION_V2, cx_algo = algo (ad_key ad), cx_aad_mode = AciV2, cx_request_model = ad_request_model ad,
         cx_client_public_key_hex = ad_client ad, cx_nonce = Some (ad_nonce ad), cx_timestamp = Some (ad_timestamp ad)\<rparr>\<rparr>)"

section \<open>Requests of the legacy protocol\<close>

definition asks_for_legacy_v2 :: "e2ee_request_parts \<Rightarrow> bool" where
  "asks_for_legacy_v2 parts =
     (let version = trim (case rp_version parts of Some v \<Rightarrow> v | None \<Rightarrow> [])
      in (version \<noteq> [] \<and> version \<noteq> E2EE_VERSION_V1) \<or>
         (case rp_nonce parts of Some n \<Rightarrow> trim n \<noteq> [] | None \<Rightarrow> False) \<or>
         (case rp_timestamp parts of Some t \<Rightarrow> trim t \<noteq> [] | None \<Rightarrow> False))"

definition prepare_legacy_e2ee_request ::
  "'x crypto_scheme \<Rightarrow> e2ee_provider \<Rightarrow> e2ee_request_parts \<Rightarrow> bytes \<Rightarrow> string \<Rightarrow> e2ee_error + e2ee_prepared_request" where
  "prepare_legacy_e2ee_request C keys parts body endpoint_path =
     and_then (ok_or HeaderMissing (rp_signing_algo parts)) (\<lambda>signing_algo.
     let signing_algo = to_ascii_lowercase (trim signing_algo) in
     and_then (ensure (signing_algo = E2EE_ALGO_LEGACY_ECDSA \<or> signing_algo = E2EE_ALGO_LEGACY_ED25519) InvalidSigningAlgo) (\<lambda>_.
     and_then (ok_or HeaderMissing (rp_client_public_key parts)) (\<lambda>client_public_key.
     and_then (ok_or HeaderMissing (rp_model_public_key parts)) (\<lambda>model_public_key.
     and_then (ok_or ModelKeyMismatch (List.find (\<lambda>key. algo key = signing_algo \<and>
         legacy_public_keys_match C signing_algo (public_key_hex key) model_public_key) (legacy_e2ee_keys keys))) (\<lambda>_.
     and_then (ensure (\<not> asks_for_legacy_v2 parts) InvalidVersion) (\<lambda>_.
     and_then (ok_or DecryptionFailed (from_slice C body)) (\<lambda>payload.
     and_then (validate_aci_payload_model payload) (\<lambda>request_model.
     and_then (decrypt_request_payload C
       \<lparr>fc_keys = keys, fc_decryptor = DecryptLegacy signing_algo, fc_algo = signing_algo, fc_aad_mode = LegacyV1,
         fc_model = request_model, fc_nonce = None, fc_timestamp = None\<rparr> endpoint_path payload) (\<lambda>payload.
     and_then (normalize_legacy_public_key_for_replay C signing_algo client_public_key) (\<lambda>client.
     Inr \<lparr>decrypted_body = to_vec C payload, prepared_context =
       \<lparr>cx_version = E2EE_VERSION_V1, cx_algo = signing_algo, cx_aad_mode = LegacyV1, cx_request_model = request_model,
         cx_client_public_key_hex = client, cx_nonce = None, cx_timestamp = None\<rparr>\<rparr>))))))))))"

definition prepare_e2ee_v2_request ::
  "'x crypto_scheme \<Rightarrow> e2ee_provider \<Rightarrow> aci_service \<Rightarrow> u64 \<Rightarrow> e2ee_request_parts \<Rightarrow> bytes \<Rightarrow> string \<Rightarrow> replay_cache
     \<Rightarrow> replay_cache \<times> (e2ee_error + e2ee_prepared_request)" where
  "prepare_e2ee_v2_request C keys sv now parts body endpoint_path cache =
     (if rp_signing_algo parts \<noteq> None then (cache, prepare_legacy_e2ee_request C keys parts body endpoint_path)
      else case admit_v2 C sv now parts body of
          Inl e \<Rightarrow> (cache, Inl e)
        | Inr ad \<Rightarrow>
            (let (cache, claimed) = claim_e2ee_replay (ad_client ad) (ad_model_key ad) (to_ascii_lowercase (ad_nonce ad)) now cache
             in (cache, and_then claimed (\<lambda>_. open_v2 C keys endpoint_path ad))))"

section \<open>Lemmas\<close>

record e2ee_call =
  call_now :: u64
  call_service :: aci_service
  call_parts :: e2ee_request_parts
  call_body :: bytes
  call_path :: string

definition serve ::
  "'x crypto_scheme \<Rightarrow> e2ee_provider \<Rightarrow> e2ee_call \<Rightarrow> replay_cache \<Rightarrow> replay_cache \<times> (e2ee_error + e2ee_prepared_request)" where
  "serve C keys c = prepare_e2ee_v2_request C keys (call_service c) (call_now c) (call_parts c) (call_body c) (call_path c)"

definition admit :: "'x crypto_scheme \<Rightarrow> e2ee_call \<Rightarrow> e2ee_error + e2ee_admission" where
  "admit C c = admit_v2 C (call_service c) (call_now c) (call_parts c) (call_body c)"

definition replay_key :: "e2ee_admission \<Rightarrow> e2ee_replay_key" where
  "replay_key ad = \<lparr>rk_client_public_key_hex = ad_client ad, rk_model_public_key_hex = ad_model_key ad,
     rk_nonce = to_ascii_lowercase (ad_nonce ad)\<rparr>"

definition cache_after :: "'x crypto_scheme \<Rightarrow> e2ee_provider \<Rightarrow> e2ee_call list \<Rightarrow> replay_cache" where
  "cache_after C keys calls = fold (\<lambda>c cache. fst (serve C keys c cache)) calls []"

text \<open>The specification keeps every key it ever granted, with the time of the grant, and calls a key seen when it was granted
  less than 300 seconds ago.\<close>

type_synonym grants = "(e2ee_replay_key \<times> u64) list"

definition seen :: "grants \<Rightarrow> e2ee_replay_key \<Rightarrow> u64 \<Rightarrow> bool" where
  "seen g k t = list_ex (\<lambda>(k', u). k' = k \<and> t < saturating_add u 300) g"

definition grant :: "'x crypto_scheme \<Rightarrow> e2ee_call \<Rightarrow> grants \<Rightarrow> grants" where
  "grant C c g =
     (if rp_signing_algo (call_parts c) \<noteq> None then g
      else case admit C c of
          Inl _ \<Rightarrow> g
        | Inr ad \<Rightarrow> if seen g (replay_key ad) (call_now c) then g else (replay_key ad, call_now c) # g)"

definition granted :: "'x crypto_scheme \<Rightarrow> e2ee_call list \<Rightarrow> grants" where
  "granted C calls = fold (grant C) calls []"

definition agrees :: "replay_cache \<Rightarrow> grants \<Rightarrow> u64 \<Rightarrow> bool" where
  "agrees cache g t = (hm_wf cache \<and> (\<forall>t' \<ge> t. \<forall>k. (\<exists>e. hm_get cache k = Some e \<and> t' < e) \<longleftrightarrow> seen g k t'))"

lemma agrees_mono: "agrees cache g t \<Longrightarrow> t \<le> t' \<Longrightarrow> agrees cache g t'"
  unfolding agrees_def using order_trans by blast

lemma map_of_live:
  assumes "hm_wf cache"
  shows "map_of (filter (\<lambda>(_, e). t < e) cache) k = (case map_of cache k of Some e \<Rightarrow> if t < e then Some e else None | None \<Rightarrow> None)"
  using assms
proof (induction cache)
  case (Cons x cache)
  obtain k' e where x: "x = (k', e)" by (cases x)
  with Cons.prems have "map_of cache k' = None" by (simp add: map_of_eq_None_iff)
  then show ?case using Cons x by auto
qed simp

lemma seen_later: "\<not> seen g k t \<Longrightarrow> t \<le> t' \<Longrightarrow> \<not> seen g k t'"
  by (auto simp: seen_def list_ex_iff)

lemma claim_agrees:
  assumes "agrees cache g t"
  shows "claim_e2ee_replay (ad_client ad) (ad_model_key ad) (to_ascii_lowercase (ad_nonce ad)) t cache =
      (if seen g (replay_key ad) t then (filter (\<lambda>(_, e). t < e) cache, Inl ReplayDetected)
       else (AList.update (replay_key ad) (saturating_add t 300) (filter (\<lambda>(_, e). t < e) cache), Inr ()))" (is ?claim)
    and "agrees (filter (\<lambda>(_, e). t < e) cache) g t" (is ?live)
    and "\<not> seen g k t \<Longrightarrow> agrees (AList.update k (saturating_add t 300) (filter (\<lambda>(_, e). t < e) cache)) ((k, t) # g) t"
  supply map_of_eq_Some_iff [simp del]
proof -
  let ?live_cache = "filter (\<lambda>(_, e). t < e) cache"
  have wf: "hm_wf cache" "hm_wf ?live_cache" using assms by (simp_all add: agrees_def distinct_map_filter)
  have spec: "(\<exists>e. hm_get cache k = Some e \<and> t' < e) \<longleftrightarrow> seen g k t'" if "t \<le> t'" for k t'
    using assms that by (simp add: agrees_def)
  have live: "(\<exists>e. hm_get ?live_cache k = Some e \<and> t' < e) \<longleftrightarrow> seen g k t'" if "t \<le> t'" for k t'
    unfolding spec [OF that, symmetric] using that by (cases "hm_get cache k") (auto simp: map_of_live [OF wf(1)])
  have now: "hm_get ?live_cache k \<noteq> None \<longleftrightarrow> seen g k t" for k
    unfolding spec [OF order_refl, symmetric] by (cases "hm_get cache k") (auto simp: map_of_live [OF wf(1)])
  show ?claim using now [of "replay_key ad"] by (auto simp: claim_e2ee_replay_def replay_key_def [symmetric] Let_def)
  show ?live using live wf(2) by (simp add: agrees_def)
  show "agrees (AList.update k (saturating_add t 300) ?live_cache) ((k, t) # g) t" if "\<not> seen g k t"
    unfolding agrees_def
  proof (intro conjI allI impI)
    fix t' k'
    assume t': "t \<le> t'"
    show "(\<exists>e. hm_get (AList.update k (saturating_add t 300) ?live_cache) k' = Some e \<and> t' < e) \<longleftrightarrow> seen ((k, t) # g) k' t'"
      using live [OF t', of k'] seen_later [OF that t'] by (auto simp: update_conv' seen_def)
  qed (use wf(2) in simp)
qed

lemma serve_v2:
  assumes "agrees cache g (call_now c)" and "rp_signing_algo (call_parts c) = None" and "admit C c = Inr ad"
  shows "snd (serve C keys c cache) = (if seen g (replay_key ad) (call_now c) then Inl ReplayDetected else open_v2 C keys (call_path c) ad)"
  using assms(2,3) by (simp add: serve_def prepare_e2ee_v2_request_def admit_def claim_agrees(1) [OF assms(1)])

lemma serve_agrees:
  assumes "agrees cache g (call_now c)"
  shows "agrees (fst (serve C keys c cache)) (grant C c g) (call_now c)"
proof (cases "rp_signing_algo (call_parts c)")
  case None
  then show ?thesis
    using assms claim_agrees [OF assms]
    by (auto simp: serve_def prepare_e2ee_v2_request_def grant_def admit_def split: sum.split)
qed (use assms in \<open>simp add: serve_def prepare_e2ee_v2_request_def grant_def\<close>)

lemma cache_agrees:
  assumes "sorted (map call_now (calls @ [c]))"
  shows "agrees (cache_after C keys calls) (granted C calls) (call_now c)"
  using assms
proof (induction calls arbitrary: c rule: rev_induct)
  case Nil
  then show ?case by (simp add: cache_after_def granted_def agrees_def seen_def)
next
  case (snoc d calls)
  then have "agrees (cache_after C keys calls) (granted C calls) (call_now d)" by (simp add: sorted_append)
  from serve_agrees [OF this, of C keys] snoc.prems show ?case
    by (auto simp: cache_after_def granted_def sorted_append intro: agrees_mono)
qed

lemma abs_diff_unat: "unat (abs_diff a b) = (if unat a < unat b then unat b - unat a else unat a - unat b)"
  by (simp add: abs_diff_def word_less_nat_alt unat_sub word_le_nat_alt)

lemma admit_v2_Inr:
  assumes "admit_v2 C sv now parts body = Inr ad"
  obtains cpk mpk n ts where "rp_version parts = Some E2EE_VERSION_V2" and "rp_client_public_key parts = Some cpk"
    and "rp_model_public_key parts = Some mpk" and "rp_nonce parts = Some n" and "rp_timestamp parts = Some ts"
    and "validate_aci_e2ee_nonce n = Inr ()" and "parse_u64 ts = Some (ad_timestamp ad)" and "abs_diff now (ad_timestamp ad) \<le> 300"
    and "List.find (selects_key C mpk) (e2ee_public_keys (sk_keyset (sv_keyset sv))) = Some (ad_key ad)"
    and "normalize_aci_e2ee_public_key_hex C (algo (ad_key ad)) cpk = Inr (ad_client ad)"
    and "normalize_aci_e2ee_public_key_hex C (algo (ad_key ad)) mpk = Inr (ad_model_key ad)"
    and "from_slice C body = Some (ad_payload ad)" and "validate_aci_payload_model (ad_payload ad) = Inr (ad_request_model ad)"
    and "ad_nonce ad = n"
  using assms that unfolding admit_v2_def result_iffs sum.inject by (elim exE conjE) (hypsubst, simp)

lemma admit_timestamp: "admit C c = Inr ad \<Longrightarrow> abs_diff (call_now c) (ad_timestamp ad) \<le> 300"
  unfolding admit_def by (erule admit_v2_Inr)

lemma admit_later:
  assumes "admit C c = Inr ad" and "abs_diff t (ad_timestamp ad) \<le> 300"
  shows "admit C (c\<lparr>call_now := t\<rparr>) = Inr ad"
  using assms(1) unfolding admit_def by (rule admit_v2_Inr) (use assms(2) in \<open>simp add: admit_v2_def\<close>)

text \<open>A concrete call, for the witnesses.\<close>

definition sample_e2ee_service :: aci_service where
  "sample_e2ee_service = \<lparr>sv_keyset = \<lparr>sk_keyset = \<lparr>subject = None, not_after = 2000, receipt_signing_keys = [],
       e2ee_public_keys = [\<lparr>key_id = ''k'', algo = E2EE_ALGO_X25519_AESGCM, public_key_hex = x25519_public_key_hex sample_crypto ''s''\<rparr>],
       tls_public_keys = []\<rparr>, sk_value = JNull, sk_bytes = [], sk_digest = []\<rparr>,
     sv_default_receipt_key_id = ''r'', sv_config = sample_service_config\<rparr>"

definition sample_call :: "u64 \<Rightarrow> e2ee_call" where
  "sample_call t = \<lparr>call_now = t, call_service = sample_e2ee_service,
     call_parts = \<lparr>rp_signing_algo = None, rp_client_public_key = Some (x25519_public_key_hex sample_crypto ''c''),
       rp_model_public_key = Some (x25519_public_key_hex sample_crypto ''s''), rp_version = Some E2EE_VERSION_V2,
       rp_nonce = Some (replicate 64 (CHR ''a'')), rp_timestamp = Some ''1000''\<rparr>,
     call_body = ''prompt'', call_path = COMPLETIONS_PATH\<rparr>"

definition sample_admission :: e2ee_admission where
  "sample_admission = \<lparr>ad_key = hd (e2ee_public_keys (sk_keyset (sv_keyset sample_e2ee_service))),
     ad_client = x25519_public_key_hex sample_crypto ''c'', ad_model_key = x25519_public_key_hex sample_crypto ''s'',
     ad_nonce = replicate 64 (CHR ''a''), ad_timestamp = 1000, ad_payload = sample_prompt, ad_request_model = ''m''\<rparr>"

definition sample_opener :: e2ee_provider where
  "sample_opener = \<lparr>decrypt_e2ee = (\<lambda>_ _ _. Inr ''hi''), decrypt_legacy_e2ee = (\<lambda>a _ _. Inl (UnsupportedAlgo a)), legacy_e2ee_keys = []\<rparr>"

lemma sample_admit:
  assumes "abs_diff t 1000 \<le> 300"
  shows "admit sample_crypto (sample_call t) = Inr sample_admission"
proof -
  have "normalize_aci_e2ee_public_key_hex sample_crypto E2EE_ALGO_X25519_AESGCM (x25519_public_key_hex sample_crypto s) =
      Inr (x25519_public_key_hex sample_crypto s)" for s
    using sample_crypto_hex sample_crypto_ok
    by (simp add: normalize_aci_e2ee_public_key_hex_def normalize_x25519_public_key_hex_def x25519_public_key_hex_def decode_0x_encode
        crypto_ok_def hex_ok_def)
  moreover have "parse_u64 ''1000'' = Some 1000" by (simp add: parse_u64_def is_ascii_digit_def)
  moreover have "validate_aci_e2ee_nonce (replicate 64 (CHR ''a'')) = Inr ()"
    by (simp add: validate_aci_e2ee_nonce_def list_all_iff is_ascii_hexdigit_def is_lower_hex_def)
  moreover have "from_slice sample_crypto ''prompt'' = Some sample_prompt" by (simp add: sample_crypto_def lib.defs)
  moreover have "validate_aci_payload_model sample_prompt = Inr ''m''" by (simp add: validate_aci_payload_model_def sample_prompt_def jget_str_def)
  ultimately show ?thesis
    using assms by (simp add: admit_def admit_v2_def sample_call_def sample_admission_def sample_e2ee_service_def selects_key_def
        same_ok_def is_aci_e2ee_suite_def)
qed

lemma sample_opens: "\<exists>p. open_v2 sample_crypto sample_opener COMPLETIONS_PATH sample_admission = Inr p"
proof -
  let ?doc = "aci_request_document E2EE_ALGO_X25519_AESGCM ''m'' ''prompt'' (replicate 64 (CHR ''a'')) 1000"
  have "jcs_ok ?doc" by (simp add: aci_request_document_def is_ascii_def)
  then obtain y where "jcs_sorted ?doc = Inr y" using jcs_sorted_ok_iff by blast
  moreover have "from_utf8 ''hi'' = Some ''hi''" by code_simp
  ultimately show ?thesis
    by (simp add: open_v2_def decrypt_request_payload_def decrypt_completion_prompt_def decrypt_strings_def sample_admission_def
        sample_e2ee_service_def sample_prompt_def decrypt_text_def request_field_aad_def nonce_ts_def aci_request_aad_def jcs_bytes_def
        decrypt_e2ee_field_def sample_opener_def)
qed

lemma sample_granted: "granted sample_crypto [sample_call 1000] = [(replay_key sample_admission, 1000)]"
  using sample_admit [of 1000] by (simp add: granted_def grant_def seen_def abs_diff_def sample_call_def [THEN arg_cong, of call_parts]
      sample_call_def [THEN arg_cong, of call_now])

section \<open>Properties\<close>

text \<open>C20: The replay cache, which forgets expired entries, decides as the specification that forgets nothing. After any sequence of
  encrypted and legacy requests, valid or not, in clock order, an admissible request whose normalised client key, model key and
  lower-cased nonce were granted less than 300 seconds before is refused as a replay; any other admissible request is decrypted.\<close>

theorem replay_cache_refines:
  assumes "sorted (map call_now (calls @ [c]))" and "rp_signing_algo (call_parts c) = None" and "admit C c = Inr ad"
  shows "snd (serve C keys c (cache_after C keys calls)) =
    (if seen (granted C calls) (replay_key ad) (call_now c) then Inl ReplayDetected else open_v2 C keys (call_path c) ad)"
  using serve_v2 [OF cache_agrees [OF assms(1)] assms(2,3)] .

theorem replay_cache_refines_witness:
  "snd (serve sample_crypto sample_opener (sample_call 1299) (cache_after sample_crypto sample_opener [sample_call 1000])) = Inl ReplayDetected"
proof -
  have "admit sample_crypto (sample_call 1299) = Inr sample_admission" by (rule sample_admit) (simp add: abs_diff_def)
  from replay_cache_refines [OF _ _ this, of "[sample_call 1000]" sample_opener] show ?thesis
    by (simp add: sample_granted seen_def saturating_add_def) (simp add: sample_call_def)
qed

text \<open>C34: The window in which a request is remembered is shorter than the window in which its timestamp is accepted. A request with a
  timestamp not before the time of its first acceptance is accepted a second time 300 seconds later, with the same result.\<close>

theorem replay_gap:
  assumes "sorted (map call_now (calls @ [c]))" and "rp_signing_algo (call_parts c) = None" and "admit C c = Inr ad"
    and "snd (serve C keys c (cache_after C keys calls)) = Inr p"
    and "call_now c \<le> ad_timestamp ad" and "unat (call_now c) + 300 < 2 ^ 64"
  shows "snd (serve C keys (c\<lparr>call_now := call_now c + 300\<rparr>) (cache_after C keys (calls @ [c]))) = Inr p"
proof -
  let ?t = "call_now c" and ?c = "c\<lparr>call_now := call_now c + 300\<rparr>"
  have t: "unat (?t + 300) = unat ?t + 300" using assms(6) by (simp add: unat_word_ariths)
  have "unat (abs_diff (?t + 300) (ad_timestamp ad)) \<le> 300"
    using admit_timestamp [OF assms(3)] assms(5) by (simp add: abs_diff_unat t word_le_nat_alt split: if_splits) linarith
  then have again: "admit C ?c = Inr ad" by (intro admit_later assms) (simp add: word_le_nat_alt)
  have fresh: "\<not> seen (granted C calls) (replay_key ad) ?t" "open_v2 C keys (call_path c) ad = Inr p"
    using assms(4) serve_v2 [OF cache_agrees [OF assms(1), of C keys] assms(2,3), of keys] by (auto split: if_splits)
  have sat: "saturating_add ?t 300 = ?t + 300" using assms(6) t by (simp add: word_unat_eq_iff saturating_add_unat)
  have le: "?t \<le> ?t + 300" using t by (simp add: word_le_nat_alt)
  have gone: "\<not> seen (granted C (calls @ [c])) (replay_key ad) (?t + 300)"
    using fresh(1) assms(2,3) sat seen_later [OF fresh(1) le] by (simp add: granted_def grant_def seen_def)
  have "sorted (map call_now ((calls @ [c]) @ [?c]))" using assms(1) le by (auto simp: sorted_append intro: order_trans)
  from serve_v2 [OF cache_agrees [OF this, of C keys] _ again, of keys] show ?thesis using gone fresh(2) assms(2) by simp
qed

theorem replay_gap_witness:
  "\<exists>p. snd (serve sample_crypto sample_opener (sample_call 1000) []) = Inr p \<and>
     snd (serve sample_crypto sample_opener (sample_call 1300) (cache_after sample_crypto sample_opener [sample_call 1000])) = Inr p"
proof -
  have admit: "admit sample_crypto (sample_call 1000) = Inr sample_admission" by (rule sample_admit) (simp add: abs_diff_def)
  obtain p where p: "open_v2 sample_crypto sample_opener COMPLETIONS_PATH sample_admission = Inr p" using sample_opens by blast
  have parts: "rp_signing_algo (call_parts (sample_call t)) = None" "call_now (sample_call t) = t" "call_path (sample_call t) = COMPLETIONS_PATH"
    "(sample_call t)\<lparr>call_now := t'\<rparr> = sample_call t'" for t t'
    by (simp_all add: sample_call_def)
  have first: "snd (serve sample_crypto sample_opener (sample_call 1000) []) = Inr p"
    using serve_v2 [of "[]" "[]" "sample_call 1000" sample_crypto sample_admission sample_opener] admit parts p
    by (simp add: agrees_def seen_def)
  from replay_gap [OF _ _ admit, of "[]" sample_opener p] first show ?thesis
    by (auto simp: parts cache_after_def sample_admission_def)
qed

end
