(* ===== verification/SessionMaterial.thy ===== *)
theory SessionMaterial
  imports Dstack
begin

text \<open>
  The reviewed shapes of session material (\<open>src/aci/verifier/session_material.rs\<close>): the projection of a TDX report with its
  digest, and the profile of each provider. Claims are the members of the JSON object that the caller projects; reading a member
  is the derived \<open>Deserialize\<close> of the struct that names it. The lemmas show that material the gateway projects passes its own
  review, and that an accepted digest determines the report.
\<close>

section \<open>Members\<close>

definition material_lower_hex :: "string \<Rightarrow> bool" where
  "material_lower_hex s = (s \<noteq> [] \<and> length s mod 2 = 0 \<and> list_all is_lower_hex s)"

text \<open>\<open>Hex<N>\<close> is the \<open>N\<close> bytes.\<close>

definition hex_parse :: "'x lib_scheme \<Rightarrow> nat \<Rightarrow> string \<Rightarrow> bytes option" where
  "hex_parse L n s =
     (if \<not> material_lower_hex s then None
      else case hex_decode L s of Some b \<Rightarrow> if length b = n then Some b else None | None \<Rightarrow> None)"

definition req_str :: "(string \<times> json) list \<Rightarrow> string \<Rightarrow> string option" where
  "req_str m k = Option.bind (map_of m k) as_str"

definition req_bool :: "(string \<times> json) list \<Rightarrow> string \<Rightarrow> bool option" where
  "req_bool m k = Option.bind (map_of m k) as_bool"

definition req_hex :: "'x lib_scheme \<Rightarrow> nat \<Rightarrow> (string \<times> json) list \<Rightarrow> string \<Rightarrow> bytes option" where
  "req_hex L n m k = Option.bind (req_str m k) (hex_parse L n)"

definition req_strs :: "(string \<times> json) list \<Rightarrow> string \<Rightarrow> string list option" where
  "req_strs m k = Option.bind (Option.bind (map_of m k) as_array) (\<lambda>vs.
     if list_all (\<lambda>v. as_str v \<noteq> None) vs then Some (List.map_filter as_str vs) else None)"

text \<open>\<open>deserialize_with = "object"\<close>: the member is an object.\<close>

definition req_object :: "(string \<times> json) list \<Rightarrow> string \<Rightarrow> (string \<times> json) list option" where
  "req_object m k = (case map_of m k of Some (JObject fs) \<Rightarrow> Some fs | _ \<Rightarrow> None)"

text \<open>\<open>Nullable<T>\<close>: the member is there, and is null or a \<open>T\<close>.\<close>

definition nullable_str :: "(string \<times> json) list \<Rightarrow> string \<Rightarrow> bool" where
  "nullable_str m k = (map_of m k = Some JNull \<or> req_str m k \<noteq> None)"

definition nullable_bool :: "(string \<times> json) list \<Rightarrow> string \<Rightarrow> bool" where
  "nullable_bool m k = (map_of m k = Some JNull \<or> req_bool m k \<noteq> None)"

section \<open>The TDX report\<close>

datatype tdx_report_format = Td10 | Td15

record tdx_report =
  report_format :: tdx_report_format
  tee_tcb_svn :: bytes
  mr_seam :: bytes
  mr_signer_seam :: bytes
  seam_attributes :: bytes
  td_attributes :: bytes
  xfam :: bytes
  mr_td :: bytes
  mr_config_id :: bytes
  mr_owner :: bytes
  mr_owner_config :: bytes
  rt_mr0 :: bytes
  rt_mr1 :: bytes
  rt_mr2 :: bytes
  rt_mr3 :: bytes
  tee_tcb_svn2 :: "bytes option"
  mr_service_td :: "bytes option"

definition TDX_REPORT_MEMBERS :: "(string \<times> nat) list" where
  "TDX_REPORT_MEMBERS = [(''tee_tcb_svn'', 16), (''mr_seam'', 48), (''mr_signer_seam'', 48), (''seam_attributes'', 8),
     (''td_attributes'', 8), (''xfam'', 8), (''mr_td'', 48), (''mr_config_id'', 48), (''mr_owner'', 48), (''mr_owner_config'', 48),
     (''rt_mr0'', 48), (''rt_mr1'', 48), (''rt_mr2'', 48), (''rt_mr3'', 48)]"

definition read_report_format :: "(string \<times> json) list \<Rightarrow> tdx_report_format option" where
  "read_report_format m =
     (if req_str m ''report_format'' = Some ''td10'' then Some Td10
      else if req_str m ''report_format'' = Some ''td15'' then Some Td15 else None)"

text \<open>An optional member may be absent, and is otherwise read: \<open>None\<close> is the error.\<close>

definition opt_hex :: "'x lib_scheme \<Rightarrow> nat \<Rightarrow> (string \<times> json) list \<Rightarrow> string \<Rightarrow> bytes option option" where
  "opt_hex L n m k = (if map_of m k = None then Some None else map_option Some (req_hex L n m k))"

fun try_opts :: "('a \<Rightarrow> 'b option) \<Rightarrow> 'a list \<Rightarrow> 'b list option" where
  "try_opts f [] = Some []"
| "try_opts f (x # xs) = (case f x of None \<Rightarrow> None | Some y \<Rightarrow> map_option ((#) y) (try_opts f xs))"

text \<open>Reading the report: the members above at their widths and the two optional ones, and no unknown member.\<close>

definition read_tdx_report :: "'x lib_scheme \<Rightarrow> (string \<times> json) list \<Rightarrow> tdx_report option" where
  "read_tdx_report L m =
     (if list_ex (\<lambda>(k, v). k \<notin> set ([''report_format'', ''tee_tcb_svn2'', ''mr_service_td''] @ map fst TDX_REPORT_MEMBERS)) m then None
      else case (read_report_format m, try_opts (\<lambda>(k, n). req_hex L n m k) TDX_REPORT_MEMBERS,
                 opt_hex L 16 m ''tee_tcb_svn2'', opt_hex L 48 m ''mr_service_td'') of
          (Some format, Some [svn, seam, signer, seam_attr, td_attr, xf, td, config_id, owner, owner_config, r0, r1, r2, r3],
           Some svn2, Some service) \<Rightarrow>
            Some \<lparr>report_format = format, tee_tcb_svn = svn, mr_seam = seam, mr_signer_seam = signer, seam_attributes = seam_attr,
              td_attributes = td_attr, xfam = xf, mr_td = td, mr_config_id = config_id, mr_owner = owner,
              mr_owner_config = owner_config, rt_mr0 = r0, rt_mr1 = r1, rt_mr2 = r2, rt_mr3 = r3, tee_tcb_svn2 = svn2,
              mr_service_td = service\<rparr>
        | _ \<Rightarrow> None)"

definition hex_member :: "'x lib_scheme \<Rightarrow> string \<Rightarrow> bytes option \<Rightarrow> (string \<times> json) list" where
  "hex_member L k v = (case v of None \<Rightarrow> [] | Some b \<Rightarrow> [(k, JString (hex_encode L b))])"

definition tdx_report_members :: "'x lib_scheme \<Rightarrow> tdx_report \<Rightarrow> (string \<times> json) list" where
  "tdx_report_members L r =
     (''report_format'', JString (case report_format r of Td10 \<Rightarrow> ''td10'' | Td15 \<Rightarrow> ''td15'')) #
     map2 (\<lambda>(k, n) b. (k, JString (hex_encode L b))) TDX_REPORT_MEMBERS
       [tee_tcb_svn r, mr_seam r, mr_signer_seam r, seam_attributes r, td_attributes r, xfam r, mr_td r, mr_config_id r, mr_owner r,
        mr_owner_config r, rt_mr0 r, rt_mr1 r, rt_mr2 r, rt_mr3 r]
     @ hex_member L ''tee_tcb_svn2'' (tee_tcb_svn2 r) @ hex_member L ''mr_service_td'' (mr_service_td r)"

definition tdx_report_valid :: "tdx_report \<Rightarrow> bool" where
  "tdx_report_valid r = (case report_format r of
     Td10 \<Rightarrow> tee_tcb_svn2 r = None \<and> mr_service_td r = None
   | Td15 \<Rightarrow> tee_tcb_svn2 r \<noteq> None \<and> mr_service_td r \<noteq> None)"

definition tdx_report_digest :: "'x lib_scheme \<Rightarrow> tdx_report \<Rightarrow> string option" where
  "tdx_report_digest L r = map_option (sha256_hex L) (res_ok (jcs_bytes L (JObject (tdx_report_members L r))))"

record tdx_material =
  tm_report :: tdx_report
  tm_report_sha256 :: string

definition read_tdx_material :: "'x lib_scheme \<Rightarrow> (string \<times> json) list \<Rightarrow> tdx_material option" where
  "read_tdx_material L m =
     (case (Option.bind (req_object m ''tdx_report'') (read_tdx_report L), req_str m ''tdx_report_sha256'') of
        (Some r, Some d) \<Rightarrow> Some \<lparr>tm_report = r, tm_report_sha256 = d\<rparr>
      | _ \<Rightarrow> None)"

text \<open>\<open>TdxMaterial::from_quote\<close>, given the projected report.\<close>

definition tdx_material_of :: "'x lib_scheme \<Rightarrow> tdx_report \<Rightarrow> tdx_material option" where
  "tdx_material_of L r = map_option (\<lambda>d. \<lparr>tm_report = r, tm_report_sha256 = d\<rparr>) (tdx_report_digest L r)"

definition tdx_material_members :: "'x lib_scheme \<Rightarrow> tdx_material \<Rightarrow> (string \<times> json) list" where
  "tdx_material_members L t =
     [(''tdx_report'', JObject (tdx_report_members L (tm_report t))), (''tdx_report_sha256'', JString (tm_report_sha256 t))]"

definition tdx_material_valid :: "'x lib_scheme \<Rightarrow> tdx_material \<Rightarrow> json \<Rightarrow> bool" where
  "tdx_material_valid L t supplied =
     (tdx_report_valid (tm_report t) \<and>
      (case jcs_bytes L supplied of Inr b \<Rightarrow> sha256_hex L b = tm_report_sha256 t | Inl _ \<Rightarrow> False))"

definition valid_tdx :: "'x lib_scheme \<Rightarrow> (string \<times> json) list \<Rightarrow> bool" where
  "valid_tdx L m =
     (case read_tdx_material L m of
        Some t \<Rightarrow> tdx_material_valid L t (case map_of m ''tdx_report'' of Some v \<Rightarrow> v | None \<Rightarrow> JNull)
      | None \<Rightarrow> False)"

section \<open>Profiles\<close>

definition all_nonempty :: "(string \<times> json) list \<Rightarrow> string list \<Rightarrow> bool" where
  "all_nonempty m ks = list_all (\<lambda>k. case req_str m k of Some s \<Rightarrow> s \<noteq> [] | None \<Rightarrow> False) ks"

definition sorted_unique :: "string list \<Rightarrow> bool" where
  "sorted_unique vs = list_all (\<lambda>(a, b). a < b) (zip vs (tl vs))"

definition is_signing_address :: "string \<Rightarrow> bool" where
  "is_signing_address v =
     (let v = (case strip_prefix ''0x'' v of Some r \<Rightarrow> r | None \<Rightarrow> v) in length v = 40 \<and> list_all is_ascii_hexdigit v)"

record receipt_custody_material =
  cm_provider :: string
  cm_purpose :: string
  cm_receipt_public_key :: bytes
  cm_kms_public_key :: bytes
  cm_app_public_key :: bytes
  cm_root_public_key :: bytes

definition custody_of ::
  "string option \<Rightarrow> string option \<Rightarrow> bytes option \<Rightarrow> bytes option \<Rightarrow> bytes option \<Rightarrow> bytes option \<Rightarrow> receipt_custody_material option" where
  "custody_of provider purpose receipt kms app root =
     (case (provider, purpose, receipt, kms, app, root) of
        (Some provider, Some purpose, Some receipt, Some kms, Some app, Some root) \<Rightarrow>
          Some \<lparr>cm_provider = provider, cm_purpose = purpose, cm_receipt_public_key = receipt, cm_kms_public_key = kms,
            cm_app_public_key = app, cm_root_public_key = root\<rparr>
      | _ \<Rightarrow> None)"

definition read_receipt_custody :: "'x lib_scheme \<Rightarrow> (string \<times> json) list \<Rightarrow> receipt_custody_material option" where
  "read_receipt_custody L m = custody_of (req_str m ''provider'') (req_str m ''purpose'') (req_hex L 32 m ''receipt_public_key'')
     (req_hex L 33 m ''kms_public_key'') (req_hex L 33 m ''app_public_key'') (req_hex L 33 m ''root_public_key'')"

definition custody_from_verified :: "'x lib_scheme \<Rightarrow> receipt_custody \<Rightarrow> receipt_custody_material option" where
  "custody_from_verified L c = custody_of (Some (cu_provider c)) (Some (cu_purpose c)) (hex_parse L 32 (cu_receipt_public_key c))
     (hex_parse L 33 (cu_kms_public_key c)) (hex_parse L 33 (cu_app_public_key c)) (hex_parse L 33 (cu_root_public_key c))"

definition custody_valid :: "receipt_custody_material \<Rightarrow> bool" where
  "custody_valid c = (cm_provider c = ''dstack-kms'' \<and> cm_purpose c = ''aci.receipt.ed25519.v1'' \<and>
     list_all (\<lambda>key. code (key ! 0) = 2 \<or> code (key ! 0) = 3) [cm_kms_public_key c, cm_app_public_key c, cm_root_public_key c])"

definition is_str_member :: "(string \<times> json) list \<Rightarrow> string \<Rightarrow> bool" where
  "is_str_member m k = (req_str m k \<noteq> None)"

definition aci_service_profile :: "'x lib_scheme \<Rightarrow> (string \<times> json) list \<Rightarrow> bool" where
  "aci_service_profile L m =
     (is_str_member m ''session_material_version'' \<and> valid_tdx L m \<and> all_nonempty m [''tcb_status''] \<and>
      (case req_strs m ''advisory_ids'' of Some ids \<Rightarrow> sorted_unique ids | None \<Rightarrow> False) \<and>
      req_hex L 32 m ''measured_compose_hash'' \<noteq> None \<and>
      (case req_str m ''measured_app_id'' of Some app \<Rightarrow> material_lower_hex app | None \<Rightarrow> False) \<and>
      (case Option.bind (req_object m ''receipt_key_custody'') (read_receipt_custody L) of Some c \<Rightarrow> custody_valid c | None \<Rightarrow> False) \<and>
      (case req_object m ''published_source_provenance'' of
         Some p \<Rightarrow> is_str_member p ''image_digest'' \<or> (is_str_member p ''repo_url'' \<and> is_str_member p ''repo_commit'')
       | None \<Rightarrow> False))"

definition near_ai_profile :: "'x lib_scheme \<Rightarrow> (string \<times> json) list \<Rightarrow> bool" where
  "near_ai_profile L m =
     (valid_tdx L m \<and> all_nonempty m [''trust_boundary''] \<and>
      (case req_str m ''signing_address'' of Some a \<Rightarrow> is_signing_address a | None \<Rightarrow> False) \<and>
      req_hex L 32 m ''compose_hash'' \<noteq> None \<and> req_hex L 32 m ''gateway_tls_spki_sha256'' \<noteq> None \<and>
      req_bool m ''gateway_verified'' = Some True \<and> nullable_str m ''tcb_status'' \<and>
      (case req_object m ''gateway_gpu_check'' of Some g \<Rightarrow> req_bool g ''present'' \<noteq> None \<and> req_bool g ''accepted'' \<noteq> None | None \<Rightarrow> False))"

definition phala_direct_profile :: "'x lib_scheme \<Rightarrow> (string \<times> json) list \<Rightarrow> bool" where
  "phala_direct_profile L m =
     (valid_tdx L m \<and> all_nonempty m [''trust_boundary'', ''evidence_scope'', ''canonical_model_id''] \<and>
      (case req_str m ''signing_address'' of Some a \<Rightarrow> is_signing_address a | None \<Rightarrow> False) \<and>
      req_hex L 32 m ''compose_hash'' \<noteq> None \<and> Option.bind (map_of m ''attestation_version'') as_u64 = Some 2 \<and>
      req_bool m ''tls_spki_from_report_data'' = Some True \<and> req_bool m ''report_data_nonce_matched'' = Some True \<and>
      req_bool m ''compose_hash_verified'' = Some True \<and> req_bool m ''tdx_debug_mode'' = Some False \<and>
      list_all (nullable_str m) [''os_image_hash'', ''os_image_version'', ''gpu_arch'', ''tcb_status''] \<and>
      list_all (nullable_bool m) [''os_image_is_dev'', ''production_os_image'', ''gpu_evidence_nonce_matched''] \<and>
      req_bool m ''gpu_verified'' \<noteq> None \<and> req_bool m ''gpu_evidence_present'' \<noteq> None)"

definition chutes_profile :: "'x lib_scheme \<Rightarrow> (string \<times> json) list \<Rightarrow> bool" where
  "chutes_profile L m =
     (valid_tdx L m \<and>
      all_nonempty m [''trust_boundary'', ''evidence_scope'', ''chute_id'', ''canonical_model_id'', ''instance_id'', ''measurement''] \<and>
      (case req_strs m ''advisory_ids'' of Some ids \<Rightarrow> sorted_unique ids | None \<Rightarrow> False) \<and>
      nullable_str m ''tcb_status'' \<and> req_bool m ''gpu_verified'' \<noteq> None \<and> req_bool m ''gpu_evidence_present'' \<noteq> None \<and>
      nullable_str m ''gpu_arch'' \<and> nullable_bool m ''gpu_evidence_nonce_matched'')"

definition privatemode_profile :: "'x lib_scheme \<Rightarrow> (string \<times> json) list \<Rightarrow> bool" where
  "privatemode_profile L m =
     (all_nonempty m [''trust_boundary'', ''attestation_scope'', ''request_encryption'', ''success_response_authentication'',
        ''inference_secret_policy'', ''manifest_mode'', ''manifest_observation'', ''manifest_observed_at''] \<and>
      req_hex L 32 m ''observed_manifest_sha256'' \<noteq> None \<and> req_bool m ''manifest_bound_to_active_secret'' = Some False)"

definition valid_profile :: "'x lib_scheme \<Rightarrow> string \<Rightarrow> (string \<times> json) list \<Rightarrow> bool" where
  "valid_profile L provider m =
     (if provider = ''aci-service'' then aci_service_profile L m
      else if provider = ''near-ai'' then near_ai_profile L m
      else if provider = ''phala-direct'' then phala_direct_profile L m
      else if provider = ''chutes'' then chutes_profile L m
      else if provider = ''privatemode'' then privatemode_profile L m
      else False)"

section \<open>Lemmas\<close>

definition report_fields :: "tdx_report \<Rightarrow> bytes list" where
  "report_fields r = [tee_tcb_svn r, mr_seam r, mr_signer_seam r, seam_attributes r, td_attributes r, xfam r, mr_td r, mr_config_id r,
     mr_owner r, mr_owner_config r, rt_mr0 r, rt_mr1 r, rt_mr2 r, rt_mr3 r]"

definition report_widths :: "tdx_report \<Rightarrow> bool" where
  "report_widths r = (list_all2 (\<lambda>(k, n) b. length b = n) TDX_REPORT_MEMBERS (report_fields r) \<and>
     (case tee_tcb_svn2 r of None \<Rightarrow> True | Some b \<Rightarrow> length b = 16) \<and>
     (case mr_service_td r of None \<Rightarrow> True | Some b \<Rightarrow> length b = 48))"

lemma hex_parse_encode:
  assumes "hex_ok L" and "length b = n" and "0 < n"
  shows "hex_parse L n (hex_encode L b) = Some b"
proof -
  have "length (hex_encode L b) = 2 * n" "list_all is_lower_hex (hex_encode L b)" "hex_decode L (hex_encode L b) = Some b"
    using assms by (simp_all add: hex_ok_def)
  moreover from this assms(3) have "hex_encode L b \<noteq> []" by auto
  ultimately show ?thesis using assms(2) by (simp add: hex_parse_def material_lower_hex_def)
qed

lemma read_report_members:
  assumes "hex_ok L" and "report_widths r"
  shows "read_tdx_report L (tdx_report_members L r) = Some r"
proof -
  let ?m = "tdx_report_members L r"
  note widths = assms(2) [unfolded report_widths_def TDX_REPORT_MEMBERS_def report_fields_def, simplified]
  have m: "?m = (''report_format'', JString (case report_format r of Td10 \<Rightarrow> ''td10'' | Td15 \<Rightarrow> ''td15'')) #
    map2 (\<lambda>(k, n) b. (k, JString (hex_encode L b))) TDX_REPORT_MEMBERS (report_fields r)
    @ hex_member L ''tee_tcb_svn2'' (tee_tcb_svn2 r) @ hex_member L ''mr_service_td'' (mr_service_td r)"
    by (simp add: tdx_report_members_def report_fields_def)
  have known: "\<not> list_ex (\<lambda>(k, v). k \<notin> set ([''report_format'', ''tee_tcb_svn2'', ''mr_service_td''] @ map fst TDX_REPORT_MEMBERS)) ?m"
    by (simp add: m TDX_REPORT_MEMBERS_def report_fields_def hex_member_def split: option.split)
  have format: "read_report_format ?m = Some (report_format r)"
    by (simp add: m read_report_format_def req_str_def split: tdx_report_format.split)
  have fields: "try_opts (\<lambda>(k, n). req_hex L n ?m k) TDX_REPORT_MEMBERS = Some (report_fields r)"
    using widths by (simp add: m TDX_REPORT_MEMBERS_def report_fields_def req_hex_def req_str_def hex_parse_encode [OF assms(1)])
  have opts: "opt_hex L 16 ?m ''tee_tcb_svn2'' = Some (tee_tcb_svn2 r)" "opt_hex L 48 ?m ''mr_service_td'' = Some (mr_service_td r)"
    using widths by (simp_all add: m TDX_REPORT_MEMBERS_def report_fields_def hex_member_def opt_hex_def req_hex_def req_str_def
        hex_parse_encode [OF assms(1)] split: option.splits)
  from known format fields opts show ?thesis
    by (simp add: read_tdx_report_def report_fields_def)
qed

lemma report_members_canonical: "\<exists>b. jcs_bytes L (JObject (tdx_report_members L r)) = Inr b"
proof -
  have "jcs_ok (JObject (tdx_report_members L r))"
    by (simp add: tdx_report_members_def TDX_REPORT_MEMBERS_def hex_member_def is_ascii_def split: option.split)
  then have "\<exists>s. jcs_sorted (JObject (tdx_report_members L r)) = Inr s" by (simp only: jcs_sorted_ok_iff)
  then show ?thesis unfolding jcs_bytes_def by (metis and_then_simps(2))
qed

text \<open>A report value that is equal up to member order is read alike.\<close>

lemma same_value_members:
  assumes "same_value (JObject m) (JObject m')"
  shows "req_str m k = req_str m' k" and "map_of m k = None \<longleftrightarrow> map_of m' k = None"
proof -
  have dom: "dom (map_of m) = dom (map_of m')" using assms by (simp add: same_value_object)
  then show none: "map_of m k = None \<longleftrightarrow> map_of m' k = None" by (metis domIff)
  show "req_str m k = req_str m' k"
  proof (cases "map_of m k")
    case (Some v)
    then obtain w where w: "map_of m' k = Some w" using none by auto
    have "same_value v w" using assms Some w by (simp add: same_value_object)
    then have "as_str v = as_str w" by (cases rule: same_value.cases) simp_all
    then show ?thesis using Some w by (simp add: req_str_def)
  qed (use none in \<open>simp add: req_str_def\<close>)
qed

lemma list_ex_keys: "list_ex (\<lambda>(k, v). k \<notin> K) m \<longleftrightarrow> \<not> fst ` set m \<subseteq> K"
  by (induction m) auto

lemma read_same_report:
  assumes "same_value (JObject m) (JObject m')"
  shows "read_tdx_report L m = read_tdx_report L m'"
proof -
  note same = same_value_members [OF assms]
  have "dom (map_of m) = dom (map_of m')" using assms by (simp add: same_value_object)
  then have keys: "list_ex (\<lambda>(k, v). k \<notin> K) m = list_ex (\<lambda>(k, v). k \<notin> K) m'" for K
    by (simp add: list_ex_keys dom_map_of_conv_image_fst)
  have "read_report_format m = read_report_format m'" by (simp add: read_report_format_def same(1))
  moreover have hexes: "req_hex L n m k = req_hex L n m' k" for n k by (simp add: req_hex_def same(1))
  moreover have "opt_hex L n m k = opt_hex L n m' k" for n k by (simp add: opt_hex_def same(2) hexes)
  ultimately show ?thesis by (simp only: read_tdx_report_def keys)
qed

lemma jwf_member: "jwf (JObject m) \<Longrightarrow> map_of m k = Some v \<Longrightarrow> jwf v"
  by (force simp: list_all_iff dest!: map_of_SomeD)

lemma valid_tdxE:
  assumes "valid_tdx L m"
  obtains fs r b where "map_of m ''tdx_report'' = Some (JObject fs)" "read_tdx_report L fs = Some r" "tdx_report_valid r"
    "jcs_bytes L (JObject fs) = Inr b" "req_str m ''tdx_report_sha256'' = Some (sha256_hex L b)"
  using assms
  by (auto simp: valid_tdx_def read_tdx_material_def tdx_material_valid_def req_object_def
      split: option.splits sum.splits json.splits)

lemma try_opts_Some: "try_opts f xs = Some ys \<Longrightarrow> list_all2 (\<lambda>x y. f x = Some y) xs ys"
  by (induction xs arbitrary: ys) (auto split: option.splits)

lemma read_report_widths:
  assumes "read_tdx_report L m = Some r"
  shows "report_widths r"
proof -
  have hex: "length b = n" if "req_hex L n m k = Some b" for n m k b
  proof -
    from that obtain s where "hex_parse L n s = Some b" unfolding req_hex_def bind_eq_Some_conv by blast
    then show ?thesis by (auto simp: hex_parse_def split: option.splits if_splits)
  qed
  then have opt: "length b = n" if "opt_hex L n m k = Some (Some b)" for n m k b
    using that by (auto simp: opt_hex_def split: if_splits)
  from assms obtain ys where fields: "try_opts (\<lambda>(k, n). req_hex L n m k) TDX_REPORT_MEMBERS = Some ys" "report_fields r = ys"
    and opts: "opt_hex L 16 m ''tee_tcb_svn2'' = Some (tee_tcb_svn2 r)" "opt_hex L 48 m ''mr_service_td'' = Some (mr_service_td r)"
    by (auto simp: read_tdx_report_def report_fields_def split: option.splits list.splits if_splits)
  have "list_all2 (\<lambda>(k, n) b. length b = n) TDX_REPORT_MEMBERS ys"
    using try_opts_Some [OF fields(1)] by (rule list_all2_mono) (auto dest: hex)
  with fields(2) opts show ?thesis by (auto simp: report_widths_def dest: opt split: option.splits)
qed

lemma tdx_material_ok:
  assumes "hex_ok L" and "report_widths r"
  shows "\<exists>t. tdx_material_of L r = Some t \<and> read_tdx_material L (tdx_material_members L t) = Some t \<and>
    (valid_tdx L (tdx_material_members L t) \<longleftrightarrow> tdx_report_valid r)"
proof -
  obtain b where b: "jcs_bytes L (JObject (tdx_report_members L r)) = Inr b" using report_members_canonical by blast
  let ?t = "\<lparr>tm_report = r, tm_report_sha256 = sha256_hex L b\<rparr>"
  have "tdx_material_of L r = Some ?t" by (simp add: tdx_material_of_def tdx_report_digest_def b)
  moreover have "read_tdx_material L (tdx_material_members L ?t) = Some ?t"
    using read_report_members [OF assms]
    by (simp add: read_tdx_material_def tdx_material_members_def req_object_def req_str_def)
  moreover from this have "valid_tdx L (tdx_material_members L ?t) \<longleftrightarrow> tdx_report_valid r"
    using b by (simp add: valid_tdx_def tdx_material_valid_def) (simp add: tdx_material_members_def)
  ultimately show ?thesis by blast
qed

section \<open>Properties\<close>

text \<open>Material the gateway projects from a TDX report passes its own review. Its digest always exists; written as claims, the
  material is read back as the same report, and it is valid exactly when the optional measurements fit the report's format.\<close>

theorem tdx_material_roundtrip:
  assumes "hex_ok L" and "report_widths r"
  shows "\<exists>t. tdx_material_of L r = Some t \<and> read_tdx_material L (tdx_material_members L t) = Some t \<and>
    (valid_tdx L (tdx_material_members L t) \<longleftrightarrow> tdx_report_valid r)"
  by (rule tdx_material_ok [OF assms])

definition sample_report :: tdx_report where
  "sample_report = \<lparr>report_format = Td10, tee_tcb_svn = replicate 16 (CHR ''a''), mr_seam = replicate 48 (CHR ''b''),
     mr_signer_seam = replicate 48 (CHR ''c''), seam_attributes = replicate 8 (CHR ''d''), td_attributes = replicate 8 (CHR ''e''),
     xfam = replicate 8 (CHR ''f''), mr_td = replicate 48 (CHR ''g''), mr_config_id = replicate 48 (CHR ''h''),
     mr_owner = replicate 48 (CHR ''i''), mr_owner_config = replicate 48 (CHR ''j''), rt_mr0 = replicate 48 (CHR ''0''),
     rt_mr1 = replicate 48 (CHR ''1''), rt_mr2 = replicate 48 (CHR ''2''), rt_mr3 = replicate 48 (CHR ''3''),
     tee_tcb_svn2 = None, mr_service_td = None\<rparr>"

lemma sample_report_widths: "report_widths sample_report" "tdx_report_valid sample_report"
  by (simp_all add: report_widths_def report_fields_def TDX_REPORT_MEMBERS_def sample_report_def tdx_report_valid_def)

theorem tdx_material_roundtrip_witness:
  "\<exists>t. tdx_material_of sample_lib sample_report = Some t \<and> valid_tdx sample_lib (tdx_material_members sample_lib t)"
  using tdx_material_roundtrip [OF sample_lib_laws(3) sample_report_widths(1)] sample_report_widths(2) by blast

text \<open>C40: An accepted report digest determines the report. Two claim sets whose TDX material passes the review with the same digest
  describe the same report, in whatever member order, unless the canonical forms of the two reports they carry collide under SHA-256;
  and no claim set passes with a report of unknown members, wrong widths or a format its optional measurements do not fit.\<close>

theorem reviewed_report_bound:
  assumes "to_vec_inj L" and "hex_ok L" and "jwf (JObject m)" and "jwf (JObject m')"
    and "valid_tdx L m" and "valid_tdx L m'" and "req_str m ''tdx_report_sha256'' = req_str m' ''tdx_report_sha256''"
  shows "(\<exists>t. read_tdx_material L m = Some t \<and> read_tdx_material L m' = Some t \<and> report_widths (tm_report t) \<and>
      tdx_report_valid (tm_report t)) \<or>
    (\<exists>fs fs' b b'. map_of m ''tdx_report'' = Some (JObject fs) \<and> map_of m' ''tdx_report'' = Some (JObject fs') \<and>
       jcs_bytes L (JObject fs) = Inr b \<and> jcs_bytes L (JObject fs') = Inr b' \<and> collision (sha256 L) b b')"
proof -
  obtain fs r b where m: "map_of m ''tdx_report'' = Some (JObject fs)" "read_tdx_report L fs = Some r" "tdx_report_valid r"
    "jcs_bytes L (JObject fs) = Inr b" "req_str m ''tdx_report_sha256'' = Some (sha256_hex L b)"
    using assms(5) by (rule valid_tdxE)
  obtain fs' r' b' where m': "map_of m' ''tdx_report'' = Some (JObject fs')" "read_tdx_report L fs' = Some r'"
    "jcs_bytes L (JObject fs') = Inr b'" "req_str m' ''tdx_report_sha256'' = Some (sha256_hex L b')"
    using assms(6) by (rule valid_tdxE)
  have wf: "jwf (JObject fs)" "jwf (JObject fs')"
    using jwf_member [OF assms(3) m(1)] jwf_member [OF assms(4) m'(1)] .
  have digest: "sha256 L b = sha256 L b'"
    using assms(2,7) m(5) m'(4) by (simp add: sha256_hex_def hex_ok_inj)
  show ?thesis
  proof (cases "b = b'")
    case True
    then have "read_tdx_report L fs = read_tdx_report L fs'"
      using jcs_bytes_same_value [OF assms(1) wf] m(4) m'(3) by (intro read_same_report) simp
    moreover have "report_widths r" using m(2) by (rule read_report_widths)
    ultimately show ?thesis using m m' True by (auto simp: read_tdx_material_def req_object_def)
  next
    case False
    with digest m(1,4) m'(1,3) show ?thesis by (auto simp: collision_def)
  qed
qed

theorem reviewed_report_bound_witness:
  "\<exists>m t. valid_tdx sample_lib m \<and> rev m \<noteq> m \<and>
     read_tdx_material sample_lib m = Some t \<and> read_tdx_material sample_lib (rev m) = Some t \<and> tdx_report_valid (tm_report t)"
proof -
  obtain t where t: "valid_tdx sample_lib (tdx_material_members sample_lib t)" "tdx_material_of sample_lib sample_report = Some t"
    using tdx_material_ok [OF sample_lib_laws(3) sample_report_widths(1)] sample_report_widths(2) by blast
  let ?m = "tdx_material_members sample_lib t"
  have map: "map_of (rev ?m) = map_of ?m" by (auto simp: tdx_material_members_def)
  have r: "tm_report t = sample_report" using t(2) by (auto simp: tdx_material_of_def)
  have wf: "jwf (JObject ?m)" "jwf (JObject (rev ?m))"
    by (simp_all add: tdx_material_members_def r tdx_report_members_def TDX_REPORT_MEMBERS_def hex_member_def sample_report_def)
  have rev: "valid_tdx sample_lib (rev ?m)"
    using t(1) unfolding valid_tdx_def read_tdx_material_def req_object_def req_str_def map .
  have "req_str ?m ''tdx_report_sha256'' = req_str (rev ?m) ''tdx_report_sha256''" by (simp add: req_str_def map)
  from reviewed_report_bound [OF sample_lib_laws(5,3) wf t(1) rev this]
  obtain t' where "read_tdx_material sample_lib ?m = Some t'" "read_tdx_material sample_lib (rev ?m) = Some t'"
    "tdx_report_valid (tm_report t')"
    by (auto simp: map collision_def)
  moreover have "rev ?m \<noteq> ?m" by (simp add: tdx_material_members_def)
  ultimately show ?thesis using t(1) by blast
qed

end
