(* ===== verification/Claims.thy ===== *)
theory Claims
  imports Session SessionMaterial
begin

text \<open>
  What a session claims about a verified upstream (\<open>src/aggregator/service/claims.rs\<close>): one mapper per provider type, the raw
  provider facts kept beside the typed claims, and the slice of a fleet's facts that belongs to one instance. The lemmas
  say what each mapper may assert and that the claims of one instance do not depend on its siblings.
\<close>

section \<open>Facts of the provider\<close>

definition provider_fact :: "upstream_verified_event \<Rightarrow> string \<Rightarrow> json option" where
  "provider_fact ev k = Option.bind (provider_claims ev) (\<lambda>c. jget c k)"

definition provider_str :: "upstream_verified_event \<Rightarrow> string \<Rightarrow> string option" where
  "provider_str ev k = Option.bind (provider_fact ev k) as_str"

definition provider_bool :: "upstream_verified_event \<Rightarrow> string \<Rightarrow> bool option" where
  "provider_bool ev k = Option.bind (provider_fact ev k) as_bool"

section \<open>Single claims\<close>

definition hardware_tee_attested :: "upstream_verified_event \<Rightarrow> claim" where
  "hardware_tee_attested ev =
     claim_asserted HardwareProven (verifier_id ev @ '' verified the TEE quote and bound the request channel'')"

definition tcb_up_to_date_claim :: "upstream_verified_event \<Rightarrow> claim" where
  "tcb_up_to_date_claim ev =
     (case provider_str ev ''tcb_status'' of
        Some status \<Rightarrow>
          if eq_ignore_ascii_case status ''uptodate'' then claim_asserted HardwareProven (''platform TCB status '' @ status)
          else claim_refuted HardwareProven (''platform TCB status '' @ status)
      | None \<Rightarrow> claim_unknown)"

definition os_known_good_claim :: "upstream_verified_event \<Rightarrow> claim" where
  "os_known_good_claim ev =
     (case provider_bool ev ''production_os_image'' of
        Some True \<Rightarrow> claim_asserted VerifierDerived ''attested OS image resolves to a known production image''
      | Some False \<Rightarrow> claim_refuted VerifierDerived
          ''attested OS image is a dev image (SSH / serial console enabled), not production''
      | None \<Rightarrow> claim_unknown)"

definition gpu_attested_claim :: "upstream_verified_event \<Rightarrow> claim" where
  "gpu_attested_claim ev =
     (case provider_bool ev ''gpu_verified'' of
        Some True \<Rightarrow>
          claim_asserted VerifierDerived (case provider_str ev ''gpu_arch'' of
              Some arch \<Rightarrow> ''Supplemental NVIDIA GPU check accepted and nonce-matched (arch '' @ arch
                @ ''); does not authenticate GPU identity or bind it to the serving CPU TEE''
            | None \<Rightarrow> ''Supplemental NVIDIA GPU check accepted and nonce-matched; ''
                @ ''does not authenticate GPU identity or bind it to the serving CPU TEE'')
      | _ \<Rightarrow> claim_unknown)"

definition tinfoil_software_claim :: "upstream_verified_event \<Rightarrow> claim" where
  "tinfoil_software_claim ev =
     claim_asserted VerifierDerived (case (provider_str ev ''config_repo'', provider_str ev ''release_digest'') of
         (Some repo, Some release) \<Rightarrow>
           ''Sigstore-verified code measurement matches '' @ repo @ '' (release '' @ release @ '')''
       | (Some repo, None) \<Rightarrow> ''Sigstore-verified code measurement matches '' @ repo
       | _ \<Rightarrow> ''Sigstore-verified code measurement matches the published golden values'')"

definition secret_ai_software_claim :: "upstream_verified_event \<Rightarrow> claim" where
  "secret_ai_software_claim ev =
     (case provider_str ev ''accepted_workload_id'' of
        Some workload_id \<Rightarrow> claim_asserted VerifierDerived
          (''measured SecretVM workload matches operator-configured pin '' @ workload_id)
      | None \<Rightarrow> claim_unknown)"

definition secret_ai_os_claim :: "upstream_verified_event \<Rightarrow> claim" where
  "secret_ai_os_claim ev =
     (case provider_bool ev ''production_os_image'' of
        Some True \<Rightarrow> claim_asserted VerifierDerived
          ''measured SecretVM launch matches a production entry in the pinned verifier registry''
      | Some False \<Rightarrow> claim_refuted VerifierDerived
          ''measured SecretVM launch does not match a production registry entry''
      | None \<Rightarrow> claim_unknown)"

text \<open>\<open>join_with\<close> is \<open>[_]::join\<close>.\<close>

fun join_with :: "string \<Rightarrow> string list \<Rightarrow> string" where
  "join_with sep [] = []"
| "join_with sep [s] = s"
| "join_with sep (s # t # ss) = s @ sep @ join_with sep (t # ss)"

definition gpu_models :: "upstream_verified_event \<Rightarrow> string option" where
  "gpu_models ev =
     (case Option.bind (provider_fact ev ''gpu_models'') as_array of
        None \<Rightarrow> None
      | Some models \<Rightarrow>
          let s = join_with '', '' (List.map_filter as_str models)
          in if s = [] then None else Some s)"

definition nras_gpu_claim :: "upstream_verified_event \<Rightarrow> string \<Rightarrow> claim" where
  "nras_gpu_claim ev binding =
     (case provider_bool ev ''gpu_verified'' of
        Some True \<Rightarrow>
          claim_asserted VerifierDerived
            (''NVIDIA confidential-computing GPU attestation verified by NRAS and '' @ binding
              @ (case gpu_models ev of Some models \<Rightarrow> '' (signed models '' @ models @ '')'' | None \<Rightarrow> []))
      | _ \<Rightarrow> claim_unknown)"

definition secret_ai_gpu_claim :: "upstream_verified_event \<Rightarrow> claim" where
  "secret_ai_gpu_claim ev = nras_gpu_claim ev ''its nonce matches the CPU report_data''"

definition armet_ai_software_claim :: "upstream_verified_event \<Rightarrow> claim" where
  "armet_ai_software_claim ev =
     (case provider_str ev ''accepted_subject'' of
        Some sub \<Rightarrow> claim_asserted VerifierDerived
          (''measured TD (MRTD, RTMR0-3, launch configuration) matches operator-configured pin '' @ sub)
      | None \<Rightarrow> claim_unknown)"

section \<open>Mappers\<close>

definition default_claims :: session_claims where
  "default_claims = \<lparr>tee_attested = claim_unknown, gpu_attested = claim_unknown, tcb_up_to_date = claim_unknown,
     os_known_good = claim_unknown, serving_software_known_good = claim_unknown, model_weights_provenance = claim_unknown,
     claims_extra = []\<rparr>"

definition intel_tdx_claims :: "upstream_verified_event \<Rightarrow> session_claims" where
  "intel_tdx_claims ev = default_claims\<lparr>tee_attested := hardware_tee_attested ev,
     tcb_up_to_date := tcb_up_to_date_claim ev, os_known_good := os_known_good_claim ev,
     gpu_attested := gpu_attested_claim ev\<rparr>"

definition tinfoil_claims :: "upstream_verified_event \<Rightarrow> session_claims" where
  "tinfoil_claims ev = default_claims\<lparr>tee_attested := hardware_tee_attested ev,
     tcb_up_to_date := claim_asserted VerifierDerived
       (''Tinfoil'' @ [CHR 0x27] @ ''s verifier requires an up-to-date TCB for a verified result; no separable TcbStatus is surfaced''),
     serving_software_known_good := tinfoil_software_claim ev, os_known_good := os_known_good_claim ev\<rparr>"

definition secret_ai_claims :: "upstream_verified_event \<Rightarrow> session_claims" where
  "secret_ai_claims ev = default_claims\<lparr>tee_attested := hardware_tee_attested ev,
     tcb_up_to_date := tcb_up_to_date_claim ev, serving_software_known_good := secret_ai_software_claim ev,
     os_known_good := secret_ai_os_claim ev, gpu_attested := secret_ai_gpu_claim ev\<rparr>"

definition armet_ai_claims :: "upstream_verified_event \<Rightarrow> session_claims" where
  "armet_ai_claims ev = default_claims\<lparr>tee_attested := hardware_tee_attested ev,
     tcb_up_to_date := tcb_up_to_date_claim ev, serving_software_known_good := armet_ai_software_claim ev,
     gpu_attested := nras_gpu_claim ev ''the TD commits to the exact GPU evidence in its report_data''\<rparr>"

definition generic_claims :: "upstream_verified_event \<Rightarrow> session_claims" where
  "generic_claims ev = default_claims\<lparr>tee_attested := claim_asserted VerifierDerived
     (verifier_id ev @ '' verified the workload identity and bound the channel'')\<rparr>"

definition claim_mapper :: "string option \<Rightarrow> upstream_verified_event \<Rightarrow> session_claims" where
  "claim_mapper ptype =
     (if ptype = Some ''tinfoil'' then tinfoil_claims
      else if ptype = Some ''secret-ai'' then secret_ai_claims
      else if ptype = Some ''armet-ai'' then armet_ai_claims
      else if ptype = Some ''near-ai'' \<or> ptype = Some ''chutes'' \<or> ptype = Some ''phala-direct'' \<or> ptype = Some ''0g-private-computer''
      then intel_tdx_claims else generic_claims)"

definition session_claims_for_event :: "upstream_verified_event \<Rightarrow> session_claims" where
  "session_claims_for_event ev =
     (let claims = (if uv_result ev = Verified then claim_mapper (provider_type ev) ev else default_claims)
      in case provider_claims ev of
           Some (JObject m) \<Rightarrow> claims\<lparr>claims_extra := foldl (\<lambda>e (k, v). bt_put k v e) (claims_extra claims) m\<rparr>
         | _ \<Rightarrow> claims)"

section \<open>Reviewed material\<close>

definition expected_verifier_id :: "string \<Rightarrow> string option" where
  "expected_verifier_id provider =
     (if provider = ''aci-service'' then Some ''aci-service/v2''
      else if provider = ''near-ai'' then Some ''private-ai-verifier/near-ai-gateway/v1''
      else if provider = ''phala-direct'' then Some ''private-ai-verifier/phala-direct/v1''
      else if provider = ''chutes'' then Some ''private-ai-verifier/chutes/v1''
      else if provider = ''privatemode'' then Some ''privatemode-proxy/co-deployed-contrast/v1''
      else None)"

text \<open>\<open>claims\<close> are the members of the projected provider facts.\<close>

definition reviewed_session_material :: "'x lib_scheme \<Rightarrow> upstream_verified_event \<Rightarrow> (string \<times> json) list \<Rightarrow> bool" where
  "reviewed_session_material L ev claims =
     (case provider_type ev of
        None \<Rightarrow> False
      | Some provider \<Rightarrow>
          (case expected_verifier_id provider of
             None \<Rightarrow> False
           | Some expected_id \<Rightarrow>
               \<not> (verifier_id ev \<noteq> expected_id \<or> (provider = ''aci-service'' \<and> aci_identity ev = None)
                  \<or> req_str claims ''session_material_version'' \<noteq> Some (provider @ ''/1'')) \<and> valid_profile L provider claims))"

section \<open>Instances of a fleet\<close>

definition is_multi_instance :: "string option \<Rightarrow> bool" where
  "is_multi_instance ptype = (ptype = Some ''chutes'' \<or> ptype = Some ''0g-private-computer'')"

definition instance_id :: "upstream_verified_event \<Rightarrow> channel_binding \<Rightarrow> string option" where
  "instance_id ev binding =
     (if \<not> is_multi_instance (provider_type ev) then None
      else case binding of E2eePublicKeySha256 _ (Some i) _ _ \<Rightarrow> Some i | _ \<Rightarrow> None)"

definition copy_fact :: "json option \<Rightarrow> string \<Rightarrow> (string \<times> json) list \<Rightarrow> (string \<times> json) list" where
  "copy_fact v k pc = (case v of Some w \<Rightarrow> AList.update k w pc | None \<Rightarrow> pc)"

definition instance_fact :: "(string \<times> json) list \<Rightarrow> string \<Rightarrow> string \<Rightarrow> json option" where
  "instance_fact m k i = Option.bind (map_of m k) (\<lambda>instances. jget instances i)"

definition FLEET_KEYS :: "string list" where
  "FLEET_KEYS = [''session_material_version'', ''trust_boundary'', ''evidence_scope'', ''chute_id'', ''canonical_model_id'']"

definition INSTANCE_MAPS :: "(string \<times> string) list" where
  "INSTANCE_MAPS = [(''instance_tdx_reports'', ''tdx_report''), (''instance_tdx_report_sha256'', ''tdx_report_sha256''),
     (''instance_advisory_ids'', ''advisory_ids'')]"

definition GPU_KEYS :: "string list" where
  "GPU_KEYS = [''gpu_verified'', ''gpu_arch'', ''gpu_evidence_present'', ''gpu_evidence_nonce_matched'']"

definition per_instance_provider_claims :: "json option \<Rightarrow> string \<Rightarrow> json" where
  "per_instance_provider_claims full i =
     (case full of
        Some (JObject m) \<Rightarrow>
          let pc = fold (\<lambda>k. copy_fact (map_of m k) k) FLEET_KEYS [];
              pc = AList.update ''instance_id'' (JString i) pc;
              pc = copy_fact (instance_fact m ''instance_tcb_statuses'' i) ''tcb_status'' pc;
              pc = copy_fact (instance_fact m ''instance_measurements'' i) ''measurement'' pc;
              pc = (case instance_fact m ''instances'' i of
                  Some (JObject facts) \<Rightarrow> foldl (\<lambda>e (k, v). AList.update k v e) pc facts | _ \<Rightarrow> pc);
              pc = fold (\<lambda>(map_key, slice_key). copy_fact (instance_fact m map_key i) slice_key) INSTANCE_MAPS pc;
              pc = (case instance_fact m ''instance_gpu'' i of
                  Some (JObject gpu) \<Rightarrow> fold (\<lambda>k. copy_fact (map_of gpu k) k) GPU_KEYS pc | _ \<Rightarrow> pc)
          in JObject pc
      | _ \<Rightarrow> JObject [])"

definition default_event :: upstream_verified_event where
  "default_event = \<lparr>verification_round = None, upstream_name = [], provider_type = None, uv_model_id = [], url_origin = None,
     verifier_id = [], uv_result = Failed, required = False, uv_reason = None, uv_evidence = None, channel_bindings = [],
     provider_claims = None, aci_identity = None\<rparr>"

definition per_instance_session_claims :: "upstream_verified_event \<Rightarrow> string \<Rightarrow> session_claims" where
  "per_instance_session_claims ev i =
     session_claims_for_event (default_event\<lparr>provider_type := provider_type ev, verifier_id := verifier_id ev,
       uv_result := uv_result ev, provider_claims := Some (per_instance_provider_claims (provider_claims ev) i)\<rparr>)"

section \<open>Lemmas\<close>

definition quote_verifying :: "string option \<Rightarrow> bool" where
  "quote_verifying ptype =
     (ptype \<in> Some ` {''tinfoil'', ''secret-ai'', ''armet-ai'', ''near-ai'', ''chutes'', ''phala-direct'', ''0g-private-computer''})"

definition mapped_claims :: "upstream_verified_event \<Rightarrow> session_claims" where
  "mapped_claims e = (if uv_result e = Verified then claim_mapper (provider_type e) e else default_claims)"

lemma typed_claims [simp]:
  "tee_attested (session_claims_for_event e) = tee_attested (mapped_claims e)"
  "gpu_attested (session_claims_for_event e) = gpu_attested (mapped_claims e)"
  "tcb_up_to_date (session_claims_for_event e) = tcb_up_to_date (mapped_claims e)"
  "os_known_good (session_claims_for_event e) = os_known_good (mapped_claims e)"
  "serving_software_known_good (session_claims_for_event e) = serving_software_known_good (mapped_claims e)"
  "model_weights_provenance (session_claims_for_event e) = model_weights_provenance (mapped_claims e)"
  by (simp_all add: session_claims_for_event_def mapped_claims_def Let_def split: option.split json.split)

lemmas claim_kinds = claim_unknown_def claim_asserted_def claim_refuted_def

lemma gpu_claim_facts:
  "cl_source (gpu_attested_claim e) \<noteq> Some HardwareProven" "cl_source (nras_gpu_claim e b) \<noteq> Some HardwareProven"
  "cl_status (gpu_attested_claim e) = Asserted \<Longrightarrow> provider_bool e ''gpu_verified'' = Some True"
  "cl_status (nras_gpu_claim e b) = Asserted \<Longrightarrow> provider_bool e ''gpu_verified'' = Some True"
  by (auto simp: gpu_attested_claim_def nras_gpu_claim_def claim_kinds split: option.splits bool.splits)

lemma os_claim_facts:
  "cl_source (os_known_good_claim e) \<noteq> Some HardwareProven" "cl_source (secret_ai_os_claim e) \<noteq> Some HardwareProven"
  "cl_status (os_known_good_claim e) = Asserted \<Longrightarrow> provider_bool e ''production_os_image'' = Some True"
  "cl_status (secret_ai_os_claim e) = Asserted \<Longrightarrow> provider_bool e ''production_os_image'' = Some True"
  by (auto simp: os_known_good_claim_def secret_ai_os_claim_def claim_kinds split: option.splits bool.splits)

lemma software_claim_facts:
  "cl_source (tinfoil_software_claim e) \<noteq> Some HardwareProven" "cl_source (secret_ai_software_claim e) \<noteq> Some HardwareProven"
  "cl_source (armet_ai_software_claim e) \<noteq> Some HardwareProven"
  by (auto simp: tinfoil_software_claim_def secret_ai_software_claim_def armet_ai_software_claim_def claim_kinds
      split: option.splits)

lemma tcb_claim_facts:
  "cl_status (tcb_up_to_date_claim e) = Asserted \<Longrightarrow>
     \<exists>s. provider_str e ''tcb_status'' = Some s \<and> eq_ignore_ascii_case s ''uptodate''"
  by (auto simp: tcb_up_to_date_claim_def claim_kinds split: option.splits if_splits)

text \<open>\<open>mapped_cases\<close> leaves one goal per provider type, with the claims of that type's mapper.\<close>

lemma mapped_cases:
  obtains "mapped_claims e = default_claims"
    | "uv_result e = Verified" "mapped_claims e = generic_claims e" "\<not> quote_verifying (provider_type e)"
    | "uv_result e = Verified" "mapped_claims e = tinfoil_claims e" "quote_verifying (provider_type e)"
    | "uv_result e = Verified" "mapped_claims e = secret_ai_claims e" "quote_verifying (provider_type e)"
    | "uv_result e = Verified" "mapped_claims e = armet_ai_claims e" "quote_verifying (provider_type e)"
    | "uv_result e = Verified" "mapped_claims e = intel_tdx_claims e" "quote_verifying (provider_type e)"
proof (cases "uv_result e = Verified")
  case True
  then have m: "mapped_claims e = claim_mapper (provider_type e) e" by (simp add: mapped_claims_def)
  show thesis
  proof (cases "quote_verifying (provider_type e)")
    case q: True
    then have "claim_mapper (provider_type e) \<in> {tinfoil_claims, secret_ai_claims, armet_ai_claims, intel_tdx_claims}"
      by (auto simp: quote_verifying_def claim_mapper_def)
    with True q m that show thesis by auto
  next
    case False
    then have "claim_mapper (provider_type e) = generic_claims" by (auto simp: quote_verifying_def claim_mapper_def)
    with True False m that show thesis by simp
  qed
qed (use that(1) in \<open>simp add: mapped_claims_def\<close>)

lemmas mapper_defs = generic_claims_def tinfoil_claims_def secret_ai_claims_def armet_ai_claims_def intel_tdx_claims_def
  default_claims_def secret_ai_gpu_claim_def

text \<open>C16: No claim is stronger than its evidence. Without a verified result every typed claim is unknown, and the provenance of the
  weights always is. Only a provider whose verifier checks a hardware quote gets a hardware-proven claim, never for its GPU, its OS
  image or its software; the TCB is asserted from hardware only if the verifier reported it up to date; and a GPU or an OS image is
  vouched for only if the verifier reported it so.\<close>

theorem claims_honest:
  "let c = session_claims_for_event e in
     (uv_result e \<noteq> Verified \<longrightarrow> c\<lparr>claims_extra := []\<rparr> = default_claims) \<and>
     model_weights_provenance c = claim_unknown \<and>
     (cl_source (tee_attested c) = Some HardwareProven \<or> cl_source (tcb_up_to_date c) = Some HardwareProven
        \<longrightarrow> uv_result e = Verified \<and> quote_verifying (provider_type e)) \<and>
     Some HardwareProven \<notin> cl_source ` {gpu_attested c, os_known_good c, serving_software_known_good c} \<and>
     (cl_status (tcb_up_to_date c) = Asserted \<and> cl_source (tcb_up_to_date c) = Some HardwareProven \<longrightarrow>
        (\<exists>s. provider_str e ''tcb_status'' = Some s \<and> eq_ignore_ascii_case s ''uptodate'')) \<and>
     (cl_status (gpu_attested c) = Asserted \<longrightarrow> provider_bool e ''gpu_verified'' = Some True) \<and>
     (cl_status (os_known_good c) = Asserted \<longrightarrow> provider_bool e ''production_os_image'' = Some True)"
proof -
  have "uv_result e \<noteq> Verified \<longrightarrow> (session_claims_for_event e)\<lparr>claims_extra := []\<rparr> = default_claims"
    by (simp add: session_claims_for_event_def Let_def default_claims_def split: option.split json.split)
  moreover have "model_weights_provenance (mapped_claims e) = claim_unknown"
    by (rule mapped_cases [of e]) (simp_all add: mapper_defs)
  moreover have "cl_source (tee_attested (mapped_claims e)) = Some HardwareProven \<or>
      cl_source (tcb_up_to_date (mapped_claims e)) = Some HardwareProven \<longrightarrow> uv_result e = Verified \<and> quote_verifying (provider_type e)"
    by (rule mapped_cases [of e]) (simp_all add: mapper_defs claim_kinds)
  moreover have "Some HardwareProven \<notin>
      cl_source ` {gpu_attested (mapped_claims e), os_known_good (mapped_claims e), serving_software_known_good (mapped_claims e)}"
    by (rule mapped_cases [of e])
      (simp_all add: mapper_defs claim_unknown_def gpu_claim_facts [symmetric] os_claim_facts [symmetric] software_claim_facts [symmetric])
  moreover have "cl_status (tcb_up_to_date (mapped_claims e)) = Asserted \<and> cl_source (tcb_up_to_date (mapped_claims e)) = Some HardwareProven \<longrightarrow>
      (\<exists>s. provider_str e ''tcb_status'' = Some s \<and> eq_ignore_ascii_case s ''uptodate'')"
    by (rule mapped_cases [of e]) (simp_all add: mapper_defs claim_unknown_def claim_asserted_def tcb_claim_facts)
  moreover have "cl_status (gpu_attested (mapped_claims e)) = Asserted \<longrightarrow> provider_bool e ''gpu_verified'' = Some True"
    by (rule mapped_cases [of e]) (simp_all add: mapper_defs claim_unknown_def gpu_claim_facts)
  moreover have "cl_status (os_known_good (mapped_claims e)) = Asserted \<longrightarrow> provider_bool e ''production_os_image'' = Some True"
    by (rule mapped_cases [of e]) (simp_all add: mapper_defs claim_unknown_def os_claim_facts)
  ultimately show ?thesis by (simp add: Let_def)
qed

definition sample_tdx_event :: upstream_verified_event where
  "sample_tdx_event = default_event\<lparr>provider_type := Some ''near-ai'', verifier_id := ''v'', uv_result := Verified,
     provider_claims := Some (JObject [(''tcb_status'', JString ''UpToDate''), (''gpu_verified'', JBool True)])\<rparr>"

theorem claims_honest_witness:
  "cl_source (tcb_up_to_date (session_claims_for_event sample_tdx_event)) = Some HardwareProven
   \<and> quote_verifying (provider_type sample_tdx_event) \<and> provider_bool sample_tdx_event ''gpu_verified'' = Some True"
proof -
  have tcb: "cl_source (tcb_up_to_date (session_claims_for_event sample_tdx_event)) = Some HardwareProven"
    and gpu: "cl_status (gpu_attested (session_claims_for_event sample_tdx_event)) = Asserted" by code_simp+
  from claims_honest [of sample_tdx_event] tcb gpu show ?thesis by (simp add: Let_def)
qed

section \<open>Isolation of instances\<close>

text \<open>\<open>same_slice\<close>: two fleets report the same fleet-wide facts, and the same about instance \<open>i\<close>.\<close>

definition same_slice :: "string \<Rightarrow> (string \<times> json) list \<Rightarrow> (string \<times> json) list \<Rightarrow> bool" where
  "same_slice i m m' =
     (list_all (\<lambda>k. map_of m k = map_of m' k) FLEET_KEYS \<and>
      list_all (\<lambda>k. instance_fact m k i = instance_fact m' k i)
        ([''instance_tcb_statuses'', ''instance_measurements'', ''instances'', ''instance_gpu''] @ map fst INSTANCE_MAPS))"

lemma per_instance_slice:
  "same_slice i m m' \<Longrightarrow> per_instance_provider_claims (Some (JObject m)) i = per_instance_provider_claims (Some (JObject m')) i"
  by (simp add: per_instance_provider_claims_def same_slice_def FLEET_KEYS_def INSTANCE_MAPS_def)

text \<open>The claims of an instance survive fleet churn. Whatever a fleet reports of its other instances, and whatever fleet-wide
  aggregates come with it, the claims sealed for instance \<open>i\<close> depend only on the fleet's identity and on what was reported of
  \<open>i\<close>; in particular its GPU claim is asserted only from facts reported of that instance.\<close>

theorem instance_claims_isolated:
  assumes "provider_claims e = Some (JObject m)" and "provider_claims e' = Some (JObject m')"
    and "provider_type e = provider_type e'" and "verifier_id e = verifier_id e'" and "uv_result e = uv_result e'"
    and "same_slice i m m'"
  shows "per_instance_session_claims e i = per_instance_session_claims e' i"
  using assms per_instance_slice [of i m m'] by (simp add: per_instance_session_claims_def)

definition sample_fleet :: "bool \<Rightarrow> upstream_verified_event" where
  "sample_fleet sibling = default_event\<lparr>provider_type := Some ''chutes'', verifier_id := ''v'', uv_result := Verified,
     provider_claims := Some (JObject [(''gpu_verified'', JBool sibling),
       (''instance_gpu'', JObject ((''a'', JObject [(''gpu_verified'', JBool True)]) # (if sibling then [] else [(''b'', JObject [])])))])\<rparr>"

theorem instance_claims_isolated_witness:
  "per_instance_session_claims (sample_fleet True) ''a'' = per_instance_session_claims (sample_fleet False) ''a''
   \<and> session_claims_for_event (sample_fleet True) \<noteq> session_claims_for_event (sample_fleet False)
   \<and> cl_status (gpu_attested (per_instance_session_claims (sample_fleet True) ''a'')) = Asserted"
proof -
  obtain m m' where m: "provider_claims (sample_fleet True) = Some (JObject m)" "provider_claims (sample_fleet False) = Some (JObject m')"
    "same_slice ''a'' m m'"
    by (simp add: sample_fleet_def same_slice_def FLEET_KEYS_def INSTANCE_MAPS_def instance_fact_def)
  have "per_instance_session_claims (sample_fleet True) ''a'' = per_instance_session_claims (sample_fleet False) ''a''"
    by (rule instance_claims_isolated [OF m(1,2) _ _ _ m(3)]) (simp_all add: sample_fleet_def)
  moreover have "session_claims_for_event (sample_fleet True) \<noteq> session_claims_for_event (sample_fleet False)" by code_simp
  moreover have "cl_status (gpu_attested (per_instance_session_claims (sample_fleet True) ''a'')) = Asserted" by code_simp
  ultimately show ?thesis by blast
qed

end
