(* ===== verification/Admission.thy ===== *)
theory Admission
  imports Claims SessionMem Service
begin

text \<open>
  Admission of an upstream (\<open>src/aggregator/service/forward.rs\<close>): the verified channels are grouped, a session is acquired for each
  group, the client's pins and the validity windows are applied, and the response selects the session its receipt cites. A session
  store is its operation \<open>current_or_seal\<close>, an argument; the clock is read twice, before and after the acquisition. The lemmas show
  that an admission holds only sessions that are allowed and valid, and only channels that were verified.
\<close>

section \<open>Errors\<close>

datatype upstream_verification_error =
    NoVerifierResult | VerifierFailed string | NoEligibleAttestedRoute string | NoEligibleAttestedSession string

datatype session_fault = BindingNotCanonical jcs_error | FingerprintFailed jcs_error | ExpiryOverflow | SealOrPersist store_error

datatype admission_error =
    AdmissionInvariant string
  | EarlyResponseKeysetExpired
  | UpstreamVerification upstream_verification_error
  | SessionStore session_fault

section \<open>Channels\<close>

definition canonical_bindings :: "'x lib_scheme \<Rightarrow> channel_binding list \<Rightarrow> admission_error + channel_binding list" where
  "canonical_bindings L bs =
     and_then (try_map (\<lambda>b. and_then (map_err (\<lambda>e. SessionStore (BindingNotCanonical e)) (jcs_bytes L (binding_value b))) (\<lambda>k. Inr (k, b))) bs)
       (\<lambda>kbs. Inr (map snd (foldl (\<lambda>m (k, b). bt_put k b m) [] kbs)))"

text \<open>The channels of a fleet: one group per instance, in the order of the verifier. \<open>instances\<close> is the map built so far.\<close>

fun instance_groups ::
  "upstream_verified_event \<Rightarrow> (string \<times> channel_binding) list \<Rightarrow> channel_binding list
     \<Rightarrow> admission_error + (string option \<times> channel_binding list) list" where
  "instance_groups ev instances [] = Inr []"
| "instance_groups ev instances (b # bs) =
     (case Option.bind (instance_id ev b) (\<lambda>i. if i = [] then None else Some i) of
        None \<Rightarrow> Inl (AdmissionInvariant ''multi-instance binding has no instance identifier'')
      | Some i \<Rightarrow>
          (case map_of instances i of
             Some previous \<Rightarrow>
               if previous \<noteq> b then Inl (AdmissionInvariant ''conflicting instance bindings'')
               else instance_groups ev (bt_put i b instances) bs
           | None \<Rightarrow> and_then (instance_groups ev (bt_put i b instances) bs) (\<lambda>gs. Inr ((Some i, [b]) # gs))))"

definition is_tls_of :: "string \<Rightarrow> channel_binding \<Rightarrow> bool" where
  "is_tls_of orig b = (case b of TlsSpkiSha256 other _ \<Rightarrow> other = orig | _ \<Rightarrow> False)"

definition single_group ::
  "'x lib_scheme \<Rightarrow> upstream_verified_event \<Rightarrow> admission_error + (string option \<times> channel_binding list) list" where
  "single_group L ev =
     and_then (canonical_bindings L (channel_bindings ev)) (\<lambda>bs.
     if length bs \<le> 1 then Inr (if bs = [] then [] else [(None, bs)])
     else case hd bs of
         TlsSpkiSha256 orig _ \<Rightarrow>
           if \<not> list_all (is_tls_of orig) bs \<or> (case url_origin ev of Some endpoint \<Rightarrow> endpoint \<noteq> orig | None \<Rightarrow> False)
           then Inl (AdmissionInvariant ''mixed or unsupported channel origins'')
           else Inr [(None, bs)]
       | _ \<Rightarrow> Inl (AdmissionInvariant ''unsupported multi-binding channel''))"

definition channel_groups ::
  "'x lib_scheme \<Rightarrow> upstream_verified_event \<Rightarrow> admission_error + (string option \<times> channel_binding list) list" where
  "channel_groups L ev =
     (if is_multi_instance (provider_type ev) then instance_groups ev [] (channel_bindings ev) else single_group L ev)"

section \<open>Sealing\<close>

definition identity_from_provider_claims :: "upstream_verified_event \<Rightarrow> workload_identity_ref option" where
  "identity_from_provider_claims ev =
     (let ident = \<lparr>signing_address = (case provider_claims ev of Some (JObject m) \<Rightarrow> req_str m ''signing_address'' | _ \<Rightarrow> None),
            identity_extra = []\<rparr>;
          ident = (case aci_identity ev of
              None \<Rightarrow> ident
            | Some binding \<Rightarrow> ident\<lparr>identity_extra :=
                bt_put ''keyset_not_after'' (JNumber (PosInt (not_after (rb_keyset binding))))
                  (bt_put ''subject'' (nullable (subject (rb_keyset binding)))
                    (bt_put ''workload_keyset_digest'' (JString (rb_keyset_digest binding)) (identity_extra ident)))\<rparr>)
      in if identity_is_empty ident then None else Some ident)"

record channel_material =
  ma_schema :: "string option"
  ma_provider_type :: "string option"
  ma_upstream_name :: string
  ma_endpoint :: "string option"
  ma_verifier_id :: string
  ma_identity :: "workload_identity_ref option"
  ma_channel_binding :: "channel_binding list"
  ma_claims :: session_claims
  ma_evidence_digest :: "string option"
  ma_verification_round :: "bytes option"

definition material_value :: "channel_material \<Rightarrow> json" where
  "material_value c = JObject (skip_none ''schema'' (ma_schema c) @ skip_none ''provider_type'' (ma_provider_type c)
     @ [(''upstream_name'', JString (ma_upstream_name c)), (''endpoint'', nullable (ma_endpoint c)),
        (''verifier_id'', JString (ma_verifier_id c)),
        (''identity'', case ma_identity c of None \<Rightarrow> JNull | Some i \<Rightarrow> identity_value i),
        (''channel_binding'', JArray (map binding_value (ma_channel_binding c))), (''claims'', claims_value (ma_claims c)),
        (''evidence_digest'', nullable (ma_evidence_digest c))]
     @ (case ma_verification_round c of None \<Rightarrow> []
        | Some token \<Rightarrow> [(''verification_round'', JArray (map (\<lambda>b. JNumber (PosInt (of_nat (code b)))) token))]))"

definition fingerprint :: "'x lib_scheme \<Rightarrow> channel_material \<Rightarrow> jcs_error + string" where
  "fingerprint L c = and_then (jcs_bytes L (material_value c)) (\<lambda>b. Inr (sha256_hex L b))"

definition channel_material_of ::
  "'x lib_scheme \<Rightarrow> upstream_verified_event \<Rightarrow> workload_identity_ref option \<Rightarrow> channel_binding list \<Rightarrow> session_claims \<Rightarrow> channel_material" where
  "channel_material_of L ev ident bs claims =
     (let reviewed = reviewed_session_material L ev (claims_extra claims)
      in \<lparr>ma_schema = (if reviewed then Some ''aci-session-material/1'' else None),
          ma_provider_type = (if reviewed then provider_type ev else None), ma_upstream_name = upstream_name ev,
          ma_endpoint = url_origin ev, ma_verifier_id = verifier_id ev, ma_identity = ident, ma_channel_binding = bs, ma_claims = claims,
          ma_evidence_digest = (if reviewed then None else Option.bind (uv_evidence ev) (\<lambda>e. jget_str e ''digest'')),
          ma_verification_round = (if reviewed then None else verification_round ev)\<rparr>)"

definition session_document_of ::
  "upstream_verified_event \<Rightarrow> workload_identity_ref option \<Rightarrow> channel_binding list \<Rightarrow> session_claims \<Rightarrow> u64 \<Rightarrow> u64 \<Rightarrow> session_document" where
  "session_document_of ev ident bs claims now expires =
     \<lparr>sd_api_version = SESSION_API_VERSION, sd_upstream_name = upstream_name ev, sd_endpoint = url_origin ev,
      sd_verifier_id = verifier_id ev, established_at = now, expires_at = expires, sd_identity = ident, sd_channel_binding = bs,
      sd_claims = claims,
      evidence = (case uv_evidence ev of Some v \<Rightarrow> evidence_from_value v | None \<Rightarrow> \<lparr>ev_digest = None, ev_data = None\<rparr>)\<rparr>"

definition session_expiry :: "service_config \<Rightarrow> upstream_verified_event \<Rightarrow> u64 \<Rightarrow> admission_error + u64" where
  "session_expiry config ev now =
     and_then (ok_or (SessionStore ExpiryOverflow) (checked_add now (sc_attested_session_ttl_seconds config))) (\<lambda>expires.
     let expires = (case aci_identity ev of None \<Rightarrow> expires | Some binding \<Rightarrow> min expires (not_after (rb_keyset binding)))
     in and_then (ensure (\<not> expires \<le> now) (AdmissionInvariant ''attested keyset expired before admission'')) (\<lambda>_. Inr expires))"

text \<open>The operation of a session store that admission uses: fingerprint, retention, the time, and the result of the sealing closure,
  which is used only when the channel has no current session.\<close>

type_synonym 's acquire = "string \<Rightarrow> u64 \<Rightarrow> u64 \<Rightarrow> store_error + attested_session \<Rightarrow> 's \<Rightarrow> 's \<times> (store_error + session_lease)"

definition seal_closure :: "'x lib_scheme \<Rightarrow> session_document \<Rightarrow> store_error + attested_session" where
  "seal_closure L doc = map_err SealFailed (seal L doc)"

definition seal_attested_session ::
  "'x lib_scheme \<Rightarrow> service_config \<Rightarrow> 's acquire \<Rightarrow> upstream_verified_event \<Rightarrow> workload_identity_ref option \<Rightarrow> channel_binding list
     \<Rightarrow> session_claims \<Rightarrow> u64 \<Rightarrow> 's \<Rightarrow> 's \<times> (admission_error + session_lease)" where
  "seal_attested_session L config acquire ev ident bs claims now s =
     (case and_then (map_err (\<lambda>e. SessionStore (FingerprintFailed e)) (fingerprint L (channel_material_of L ev ident bs claims)))
             (\<lambda>fp. and_then (session_expiry config ev now) (\<lambda>expires. Inr (fp, expires))) of
        Inl e \<Rightarrow> (s, Inl e)
      | Inr (fp, expires) \<Rightarrow>
          (case acquire fp (saturating_add now (sc_receipt_ttl_seconds config)) now
                  (seal_closure L (session_document_of ev ident bs claims now expires)) s of
             (s, r) \<Rightarrow> (s, map_err (\<lambda>e. SessionStore (SealOrPersist e)) r)))"

record session_group =
  instance_key :: "string option"
  sg_bindings :: "channel_binding list"
  sg_lease :: session_lease

definition group_claims :: "upstream_verified_event \<Rightarrow> string option \<Rightarrow> session_claims" where
  "group_claims ev i = (case i of Some i \<Rightarrow> per_instance_session_claims ev i | None \<Rightarrow> session_claims_for_event ev)"

fun seal_groups ::
  "'x lib_scheme \<Rightarrow> service_config \<Rightarrow> 's acquire \<Rightarrow> upstream_verified_event \<Rightarrow> u64 \<Rightarrow> (string option \<times> channel_binding list) list
     \<Rightarrow> 's \<Rightarrow> 's \<times> (admission_error + session_group list)" where
  "seal_groups L config acquire ev now [] s = (s, Inr [])"
| "seal_groups L config acquire ev now ((i, bs) # gs) s =
     (case seal_attested_session L config acquire ev (identity_from_provider_claims ev) bs (group_claims ev i) now s of
        (s, Inl e) \<Rightarrow> (s, Inl e)
      | (s, Inr lease) \<Rightarrow>
          (case seal_groups L config acquire ev now gs s of
             (s, Inl e) \<Rightarrow> (s, Inl e)
           | (s, Inr groups) \<Rightarrow> (s, Inr (\<lparr>instance_key = i, sg_bindings = bs, sg_lease = lease\<rparr> # groups))))"

definition record_attested_upstream_session ::
  "'x lib_scheme \<Rightarrow> aci_service \<Rightarrow> 's acquire \<Rightarrow> upstream_verified_event \<Rightarrow> u64 \<Rightarrow> 's \<Rightarrow> 's \<times> (admission_error + session_group list)" where
  "record_attested_upstream_session L sv acquire ev now s =
     (if serves_directly sv \<or> uv_result ev \<noteq> Verified then (s, Inr [])
      else case channel_groups L ev of
          Inl e \<Rightarrow> (s, Inl e)
        | Inr groups \<Rightarrow> seal_groups L (sv_config sv) acquire ev now groups s)"

section \<open>Admission\<close>

record admitted_upstream =
  ad_event :: upstream_verified_event
  admitted_at :: u64
  ad_sessions :: "session_group list"
  requires_instance :: bool

record selected_upstream =
  se_event :: upstream_verified_event
  se_admitted_at :: u64
  se_lease :: "session_lease option"

fun filter_sessions :: "string list \<Rightarrow> u64 \<Rightarrow> session_group list \<Rightarrow> admission_error + session_group list" where
  "filter_sessions allowed at [] = Inr []"
| "filter_sessions allowed at (g # gs) =
     (if allowed = [] \<or> ls_session_id (sg_lease g) \<in> set allowed then
        if \<not> (ls_established_at (sg_lease g) \<le> at \<and> at < ls_expires_at (sg_lease g))
        then Inl (AdmissionInvariant ''store returned a session outside its validity window'')
        else and_then (filter_sessions allowed at gs) (\<lambda>gs. Inr (g # gs))
      else filter_sessions allowed at gs)"

text \<open>\<open>now\<close> is the time given to the acquisition, \<open>at\<close> the time read after it; \<open>early\<close> is the expiry of the keyset that an early
  response committed to, if there is one.\<close>

definition admit_upstream ::
  "'x lib_scheme \<Rightarrow> aci_service \<Rightarrow> 's acquire \<Rightarrow> upstream_verified_event \<Rightarrow> string list \<Rightarrow> string \<Rightarrow> u64 option \<Rightarrow> u64 \<Rightarrow> u64
     \<Rightarrow> 's \<Rightarrow> 's \<times> (admission_error + admitted_upstream)" where
  "admit_upstream L sv acquire ev allowed model early now at s =
     (case record_attested_upstream_session L sv acquire ev now s of
        (s, Inl e) \<Rightarrow> (s, Inl e)
      | (s, Inr groups) \<Rightarrow>
          (s, if (case early of Some t \<Rightarrow> at \<ge> t | None \<Rightarrow> False) then Inl EarlyResponseKeysetExpired
              else and_then (filter_sessions allowed at groups) (\<lambda>admitted.
                if allowed \<noteq> [] \<and> admitted = [] then Inl (UpstreamVerification (NoEligibleAttestedSession model))
                else let ev' = (if admitted \<noteq> [] then ev\<lparr>channel_bindings := concat (map sg_bindings admitted)\<rparr> else ev)
                  in Inr \<lparr>ad_event = ev', admitted_at = at, ad_sessions = admitted,
                       requires_instance = (\<not> serves_directly sv \<and> is_multi_instance (provider_type ev) \<and> uv_result ev = Verified)\<rparr>)))"

definition withheld_without_instance :: "admitted_upstream \<Rightarrow> admitted_upstream" where
  "withheld_without_instance a =
     (if requires_instance a
      then a\<lparr>ad_sessions := [], requires_instance := False,
             ad_event := (ad_event a)\<lparr>channel_bindings := [], uv_result := Failed,
               uv_reason := Some ''upstream withheld an unverified response without a serving instance''\<rparr>\<rparr>
      else a)"

definition select :: "admitted_upstream \<Rightarrow> string option \<Rightarrow> admission_error + selected_upstream" where
  "select a served =
     and_then
       (if requires_instance a then
          and_then (ok_or (AdmissionInvariant ''multi-instance response omitted its instance identifier'') served) (\<lambda>i.
          and_then (ok_or (AdmissionInvariant ''response instance was not admitted'')
              (List.find (\<lambda>g. instance_key g = Some i) (ad_sessions a))) (\<lambda>g.
          Inr (Some (sg_lease g))))
        else Inr (if ad_sessions a = [] then None else Some (sg_lease (last (ad_sessions a)))))
       (\<lambda>lease. Inr \<lparr>se_event = ad_event a, se_admitted_at = admitted_at a, se_lease = lease\<rparr>)"

section \<open>Lemmas\<close>

declare map_of_eq_Some_iff [simp del]

lemma map_of_foldl_bt: "map_of (foldl (\<lambda>m (k, b). bt_put k b m) m kbs) = map_of m ++ map_of (rev kbs)"
  by (induction kbs arbitrary: m) (simp_all add: split_beta map_add_def fun_eq_iff split: option.split)

lemma foldl_bt_wf: "bt_wf m \<Longrightarrow> bt_wf (foldl (\<lambda>m (k, b). bt_put k b m) m kbs)"
proof (induction kbs arbitrary: m)
  case (Cons kb kbs)
  from Cons.IH [OF bt_put_wf [OF Cons.prems]] show ?case by (simp add: split_beta)
qed simp

lemma bt_ext:
  assumes "bt_wf m" and "bt_wf m'" and "map_of m = map_of m'"
  shows "m = m'"
proof -
  have wf: "hm_wf m" "hm_wf m'" by (rule bt_wf_distinct, fact assms)+
  have set: "set m = set m'" using hm_wf_map_of [OF wf(1)] hm_wf_map_of [OF wf(2)] assms(3) by (metis subrelI subset_antisym)
  have "sorted (map fst m)" "sorted (map fst m')" using assms(1,2) strict_sorted_imp_sorted by blast+
  moreover have "inj_on fst (set m \<union> set m')" using wf(1) set by (simp only: distinct_map Un_absorb)
  ultimately show ?thesis using wf set by (intro map_sorted_distinct_set_unique)
qed

lemma binding_jcs: "\<exists>k. jcs_bytes L (binding_value b) = Inr k"
proof -
  have "jcs_ok (binding_value b)" by (cases b) (simp_all add: binding_value_def skip_none_def is_ascii_def split: option.split)
  then have "\<exists>s. jcs_sorted (binding_value b) = Inr s" by (simp only: jcs_sorted_ok_iff)
  then show ?thesis unfolding jcs_bytes_def by (metis and_then_simps(2))
qed

definition binding_fields :: "channel_binding \<Rightarrow> string option list" where
  "binding_fields b = map (jget_str (binding_value b)) [''type'', ''origin'', ''spki_sha256'', ''provider'', ''key_id'', ''algorithm'',
     ''public_key_sha256'', ''proxy_image_digest'', ''credential_sha256'']"

lemma binding_fields_simps:
  "binding_fields (TlsSpkiSha256 orig spki) = [Some ''tls_spki_sha256'', Some orig, Some spki, None, None, None, None, None, None]"
  "binding_fields (E2eePublicKeySha256 prov kid alg pk) =
     [Some ''e2ee_public_key_sha256'', None, None, Some prov, kid, Some alg, Some pk, None, None]"
  "binding_fields (ProxyImageSha256 prov img cred) =
     [Some ''proxy_image_sha256'', None, None, Some prov, None, None, None, Some img, Some cred]"
  by (simp_all add: binding_fields_def binding_value_def jget_str_def skip_none_def split: option.split)

lemma binding_fields_inj: "binding_fields a = binding_fields b \<longleftrightarrow> a = b"
  by (cases a; cases b) (simp_all add: binding_fields_simps)

lemma binding_value_inj:
  assumes "same_value (binding_value a) (binding_value b)"
  shows "a = b"
proof -
  have "jget_str (binding_value a) k = jget_str (binding_value b) k" for k
  proof -
    obtain m m' where m: "binding_value a = JObject m" "binding_value b = JObject m'"
      by (cases a; cases b) (simp_all add: binding_value_def)
    show ?thesis using same_value_members(1) [OF assms [unfolded m]] by (simp add: m jget_str_def req_str_def)
  qed
  note q = this
  have "binding_fields a = binding_fields b" unfolding binding_fields_def q ..
  then show ?thesis by (simp only: binding_fields_inj)
qed

lemma binding_jwf: "jwf (binding_value b)"
  by (cases b) (simp_all add: binding_value_def skip_none_def split: option.split)

definition binding_key :: "'x lib_scheme \<Rightarrow> channel_binding \<Rightarrow> bytes" where
  "binding_key L b = projr (jcs_bytes L (binding_value b))"

lemma binding_key_inj: "to_vec_inj L \<Longrightarrow> inj (binding_key L)"
proof (rule injI)
  fix a b
  assume "to_vec_inj L" "binding_key L a = binding_key L b"
  moreover obtain k l where "jcs_bytes L (binding_value a) = Inr k" "jcs_bytes L (binding_value b) = Inr l" using binding_jcs by metis
  ultimately show "a = b"
    by (intro binding_value_inj jcs_bytes_same_value [of L]) (simp_all add: binding_key_def binding_jwf)
qed

definition binding_map :: "'x lib_scheme \<Rightarrow> channel_binding list \<Rightarrow> (bytes \<times> channel_binding) list" where
  "binding_map L bs = foldl (\<lambda>m (k, b). bt_put k b m) [] (map (\<lambda>b. (binding_key L b, b)) bs)"

lemma canonical_bindings_eq: "canonical_bindings L bs = Inr (map snd (binding_map L bs))"
proof -
  have "try_map (\<lambda>b. and_then (map_err (\<lambda>e. SessionStore (BindingNotCanonical e)) (jcs_bytes L (binding_value b))) (\<lambda>k. Inr (k, b))) bs
      = Inr (map (\<lambda>b. (binding_key L b, b)) bs)"
    unfolding try_map_Inr_iff list_all2_map2 binding_key_def
    by (rule list_all2_refl) (metis binding_jcs and_then_simps(2) map_err_simps(2) sum.sel(2))
  then show ?thesis by (simp add: canonical_bindings_def binding_map_def)
qed

lemma binding_map_wf: "bt_wf (binding_map L bs)"
  unfolding binding_map_def by (rule foldl_bt_wf) simp

lemma map_of_binding_map:
  assumes "to_vec_inj L"
  shows "map_of (binding_map L bs) k = Some b \<longleftrightarrow> b \<in> set bs \<and> k = binding_key L b"
proof -
  have "map_of (binding_map L bs) = map_of (rev (map (\<lambda>b. (binding_key L b, b)) bs))"
    unfolding binding_map_def map_of_foldl_bt by simp
  moreover have "map_of (rev (map (\<lambda>b. (binding_key L b, b)) bs)) k = Some b \<longleftrightarrow> b \<in> set bs \<and> k = binding_key L b"
    using binding_key_inj [OF assms(1)] by (induction bs rule: rev_induct) (auto simp: inj_eq)
  ultimately show ?thesis by simp
qed

lemma canonical_bindings_set:
  assumes "to_vec_inj L" and "canonical_bindings L bs = Inr cs"
  shows "set cs = set bs \<and> distinct cs"
proof -
  have cs: "cs = map snd (binding_map L bs)" using assms(2) by (simp add: canonical_bindings_eq)
  have wf: "hm_wf (binding_map L bs)" by (rule bt_wf_distinct [OF binding_map_wf])
  have M: "set (binding_map L bs) = (\<lambda>b. (binding_key L b, b)) ` set bs"
    using hm_wf_map_of [OF wf] map_of_binding_map [OF assms(1), of bs] by (auto simp del: map_of_eq_Some_iff)
  have "set cs = set bs" unfolding cs set_map M image_image by simp
  moreover have "inj_on snd (set (binding_map L bs))" unfolding M by (rule inj_onI) auto
  then have "distinct cs" unfolding cs using wf by (simp add: distinct_map)
  ultimately show ?thesis by blast
qed

lemma canonical_bindings_unique:
  assumes "to_vec_inj L" and "set bs = set bs'"
  shows "canonical_bindings L bs = canonical_bindings L bs'"
proof -
  have "map_of (binding_map L bs) k = Some b \<longleftrightarrow> map_of (binding_map L bs') k = Some b" for k b
    unfolding map_of_binding_map [OF assms(1)] assms(2) ..
  then have "map_of (binding_map L bs) = map_of (binding_map L bs')" by (intro ext) (metis not_Some_eq)
  from bt_ext [OF binding_map_wf binding_map_wf this] show ?thesis by (simp only: canonical_bindings_eq)
qed

text \<open>The groups partition the verified channels.\<close>

lemma instance_groups_facts:
  assumes "instance_groups ev seen bs = Inr gs" and "is_multi_instance (provider_type ev)"
  shows "(\<forall>(i, cs) \<in> set gs. \<exists>b k. cs = [b] \<and> i = Some k \<and> instance_id ev b = Some k \<and> b \<in> set bs \<and> map_of seen k = None) \<and>
    distinct (map fst gs) \<and> (\<forall>b \<in> set bs. (\<exists>k. map_of seen k = Some b) \<or> (\<exists>k. (Some k, [b]) \<in> set gs))"
  using assms(1)
proof (induction ev seen bs arbitrary: gs rule: instance_groups.induct)
  case (2 ev seen b bs)
  from 2(3) obtain i where i: "Option.bind (instance_id ev b) (\<lambda>i. if i = [] then None else Some i) = Some i"
    by (auto split: option.splits)
  then have id: "instance_id ev b = Some i" by (auto simp: bind_eq_Some_conv split: if_splits)
  show ?case
  proof (cases "map_of seen i")
    case None
    then obtain gs' where gs': "instance_groups ev (bt_put i b seen) bs = Inr gs'" "gs = (Some i, [b]) # gs'"
      using 2(3) i by (auto simp: result_iffs)
    note IH = 2(1) [OF i None gs'(1)]
    have "Some i \<notin> set (map fst gs')" using IH by fastforce
    then show ?thesis using IH gs'(2) id None by (fastforce split: if_splits)
  next
    case (Some prev)
    then have prev: "prev = b" "instance_groups ev (bt_put i b seen) bs = Inr gs" using 2(3) i by (auto split: if_splits)
    have same: "(map_of (bt_put i b seen)) = map_of seen" using Some prev(1) by (auto simp: fun_eq_iff)
    show ?thesis using 2(2) [OF i Some _ prev(2)] prev(1) Some unfolding same by (auto; blast)
  qed
qed simp

lemma single_group_facts:
  assumes "to_vec_inj L" and "single_group L ev = Inr gs"
  shows "(\<exists>cs. cs \<noteq> [] \<and> set cs = set (channel_bindings ev) \<and> gs = [(None, cs)]) \<or> (channel_bindings ev = [] \<and> gs = [])"
proof -
  obtain cs where cs: "canonical_bindings L (channel_bindings ev) = Inr cs" using canonical_bindings_eq by blast
  have set: "set cs = set (channel_bindings ev)" using canonical_bindings_set [OF assms(1) cs] by blast
  show ?thesis
  proof (cases "cs = []")
    case True
    then show ?thesis using assms(2) cs set by (simp add: single_group_def)
  next
    case False
    then have "gs = [(None, cs)]"
      using assms(2) cs by (auto simp: single_group_def split: if_splits channel_binding.splits)
    then show ?thesis using False set by blast
  qed
qed

lemma channel_groups_facts:
  assumes "to_vec_inj L" and "channel_groups L ev = Inr gs"
  shows "(\<forall>(i, cs) \<in> set gs. cs \<noteq> [] \<and> set cs \<subseteq> set (channel_bindings ev) \<and> (i \<noteq> None \<longleftrightarrow> is_multi_instance (provider_type ev))) \<and>
    distinct (map fst gs) \<and> set (channel_bindings ev) = (\<Union>(i, cs) \<in> set gs. set cs)"
proof (cases "is_multi_instance (provider_type ev)")
  case True
  then have "instance_groups ev [] (channel_bindings ev) = Inr gs" using assms(2) by (simp add: channel_groups_def)
  from instance_groups_facts [OF this True] True show ?thesis by fastforce
next
  case False
  then have "single_group L ev = Inr gs" using assms(2) by (simp add: channel_groups_def)
  from single_group_facts [OF assms(1) this] show ?thesis
  proof (elim disjE exE conjE)
    fix cs
    assume "cs \<noteq> []" "set cs = set (channel_bindings ev)" "gs = [(None, cs)]"
    with False show ?thesis by simp
  qed simp
qed

lemma seal_groups_shape:
  "seal_groups L config acquire ev now gs s = (s', Inr groups) \<Longrightarrow> map (\<lambda>g. (instance_key g, sg_bindings g)) groups = gs"
proof (induction gs arbitrary: s groups)
  case (Cons g gs)
  obtain i bs where g: "g = (i, bs)" by fastforce
  show ?case using Cons.prems Cons.IH unfolding g by (auto split: prod.splits sum.splits)
qed simp

lemma filter_sessions_Inr:
  "filter_sessions allowed at gs = Inr as \<Longrightarrow>
     as = filter (\<lambda>g. allowed = [] \<or> ls_session_id (sg_lease g) \<in> set allowed) gs \<and>
     (\<forall>g \<in> set as. ls_established_at (sg_lease g) \<le> at \<and> at < ls_expires_at (sg_lease g))"
  by (induction gs arbitrary: as) (auto simp: result_iffs split: if_splits)

definition selected_from :: "admitted_upstream \<Rightarrow> string option \<Rightarrow> session_lease \<Rightarrow> bool" where
  "selected_from a served l = (\<exists>g \<in> set (ad_sessions a). sg_lease g = l \<and> (requires_instance a \<longrightarrow> instance_key g = served))"

lemma select_Inr:
  assumes "select a served = Inr sel"
  shows "se_event sel = ad_event a \<and> se_admitted_at sel = admitted_at a \<and>
    (case se_lease sel of Some l \<Rightarrow> selected_from a served l | None \<Rightarrow> ad_sessions a = [] \<and> \<not> requires_instance a)"
proof -
  have "se_lease sel = Some l \<longrightarrow> selected_from a served l" for l
    using assms by (auto simp: select_def result_iffs selected_from_def find_Some_iff split: if_splits)
  moreover have "se_lease sel = None \<longrightarrow> ad_sessions a = [] \<and> \<not> requires_instance a"
    using assms by (auto simp: select_def result_iffs split: if_splits)
  ultimately show ?thesis using assms by (auto simp: select_def result_iffs split: option.split)
qed

section \<open>Sessions of a channel\<close>

text \<open>What a material and a session document have in common.\<close>

definition records :: "session_document \<Rightarrow> channel_material \<Rightarrow> bool" where
  "records d c = (sd_upstream_name d = ma_upstream_name c \<and> sd_endpoint d = ma_endpoint c \<and> sd_verifier_id d = ma_verifier_id c \<and>
     sd_identity d = ma_identity c \<and> sd_channel_binding d = ma_channel_binding c \<and> sd_claims d = ma_claims c)"

text \<open>Every fingerprint the index maps was computed from a material that the session it names records.\<close>

definition channels_recorded :: "'x lib_scheme \<Rightarrow> attested_session set \<Rightarrow> channel_material set \<Rightarrow> session_index \<Rightarrow> bool" where
  "channels_recorded L S M idx = (\<forall>fp sid. map_of (by_fingerprint idx) fp = Some sid \<longrightarrow>
     (\<exists>s \<in> S. \<exists>c \<in> M. session_id s = sid \<and> records (document s) c \<and> fingerprint L c = Inr fp \<and> jwf (material_value c)))"

text \<open>A document and the channel it is about, up to the order of JSON members.\<close>

definition about_channel :: "session_document \<Rightarrow> channel_material \<Rightarrow> bool" where
  "about_channel d c = (sd_upstream_name d = ma_upstream_name c \<and> sd_endpoint d = ma_endpoint c \<and> sd_verifier_id d = ma_verifier_id c \<and>
     sd_channel_binding d = ma_channel_binding c \<and> jcs_sorted (claims_value (sd_claims d)) = jcs_sorted (claims_value (ma_claims c)))"

lemma same_value_obj:
  assumes "same_value (JObject m) (JObject n)" and "map_of m k = Some v" and "map_of n k = Some w"
  shows "same_value v w"
  using assms by (simp add: same_value_object)

lemma bindings_inj:
  assumes "same_value (JArray (map binding_value bs)) (JArray (map binding_value cs))"
  shows "bs = cs"
proof -
  have "list_all2 same_value (map binding_value bs) (map binding_value cs)" using assms by (simp add: same_value_array)
  then have "list_all2 (=) bs cs" unfolding list_all2_map1 list_all2_map2 by (rule list_all2_mono) (rule binding_value_inj)
  then show ?thesis by (simp add: list.rel_eq)
qed

lemma nullable_inj: "same_value (nullable a) (nullable b) \<Longrightarrow> a = b"
  by (cases a; cases b) (auto simp: nullable_def same_value_leaf)

lemma material_member:
  assumes "material_value c = JObject m"
  shows "map_of m ''upstream_name'' = Some (JString (ma_upstream_name c))" "map_of m ''endpoint'' = Some (nullable (ma_endpoint c))"
    "map_of m ''verifier_id'' = Some (JString (ma_verifier_id c))"
    "map_of m ''channel_binding'' = Some (JArray (map binding_value (ma_channel_binding c)))"
    "map_of m ''claims'' = Some (claims_value (ma_claims c))"
  using assms [symmetric] by (simp_all add: material_value_def skip_none_def split: option.split)

lemma document_channel_member:
  assumes "document_value d = JObject m"
  shows "map_of m ''upstream_name'' = Some (JString (sd_upstream_name d))" "map_of m ''endpoint'' = Some (nullable (sd_endpoint d))"
    "map_of m ''verifier_id'' = Some (JString (sd_verifier_id d))"
    "map_of m ''channel_binding'' = Some (JArray (map binding_value (sd_channel_binding d)))"
    "map_of m ''claims'' = Some (claims_value (sd_claims d))"
  using assms [symmetric] by (simp_all add: document_value_def split: option.split)

lemma jwf_claims: "jwf (material_value c) \<Longrightarrow> jwf (claims_value (ma_claims c))"
  by (simp add: material_value_def list_all_iff)

lemma jwf_document_claims: "jwf (document_value d) \<Longrightarrow> jwf (claims_value (sd_claims d))"
  by (simp add: document_value_def list_all_iff)

lemma same_material:
  assumes "same_value (material_value c) (material_value c')" and "jwf (material_value c)" "jwf (material_value c')" and "records d c"
  shows "about_channel d c'"
proof -
  obtain m m' where m: "material_value c = JObject m" "material_value c' = JObject m'" by (simp add: material_value_def)
  note M = material_member [OF m(1)] and M' = material_member [OF m(2)] and eq = same_value_obj [OF assms(1) [unfolded m]]
  have "ma_upstream_name c = ma_upstream_name c'" using eq [OF M(1) M'(1)] by (simp add: same_value_leaf)
  moreover have "ma_endpoint c = ma_endpoint c'" using eq [OF M(2) M'(2)] by (rule nullable_inj)
  moreover have "ma_verifier_id c = ma_verifier_id c'" using eq [OF M(3) M'(3)] by (simp add: same_value_leaf)
  moreover have "ma_channel_binding c = ma_channel_binding c'" using eq [OF M(4) M'(4)] by (rule bindings_inj)
  moreover have "jcs_sorted (claims_value (ma_claims c)) = jcs_sorted (claims_value (ma_claims c'))"
    by (rule same_value_jcs_sorted [OF eq [OF M(5) M'(5)]]) (rule jwf_claims, fact assms)+
  ultimately show ?thesis using assms(4) by (simp add: records_def about_channel_def)
qed

lemma same_document:
  assumes "same_value (document_value d) (document_value d')" and "jwf (document_value d)" "jwf (document_value d')" and "about_channel d c"
  shows "about_channel d' c"
proof -
  obtain m m' where m: "document_value d = JObject m" "document_value d' = JObject m'" by (simp add: document_value_def)
  note M = document_channel_member [OF m(1)] and M' = document_channel_member [OF m(2)] and eq = same_value_obj [OF assms(1) [unfolded m]]
  have "sd_upstream_name d = sd_upstream_name d'" using eq [OF M(1) M'(1)] by (simp add: same_value_leaf)
  moreover have "sd_endpoint d = sd_endpoint d'" using eq [OF M(2) M'(2)] by (rule nullable_inj)
  moreover have "sd_verifier_id d = sd_verifier_id d'" using eq [OF M(3) M'(3)] by (simp add: same_value_leaf)
  moreover have "sd_channel_binding d = sd_channel_binding d'" using eq [OF M(4) M'(4)] by (rule bindings_inj)
  moreover have "jcs_sorted (claims_value (sd_claims d)) = jcs_sorted (claims_value (sd_claims d'))"
    by (rule same_value_jcs_sorted [OF eq [OF M(5) M'(5)]]) (rule jwf_document_claims, fact assms)+
  ultimately show ?thesis using assms(4) by (simp add: about_channel_def)
qed

text \<open>The canonical forms of two particular channels collide under SHA-256.\<close>

definition fingerprint_clash :: "'x lib_scheme \<Rightarrow> channel_material \<Rightarrow> channel_material \<Rightarrow> bool" where
  "fingerprint_clash L c c' = (\<exists>x y. jcs_bytes L (material_value c) = Inr x \<and> jcs_bytes L (material_value c') = Inr y \<and>
     collision (sha256 L) x y)"

lemma same_fingerprint:
  assumes "to_vec_inj L" "hex_ok L" and "fingerprint L c = Inr fp" "fingerprint L c' = Inr fp"
    and "jwf (material_value c)" "jwf (material_value c')"
  shows "same_value (material_value c) (material_value c') \<or> fingerprint_clash L c c'"
proof -
  obtain b b' where b: "jcs_bytes L (material_value c) = Inr b" "jcs_bytes L (material_value c') = Inr b'"
    "sha256_hex L b = fp" "sha256_hex L b' = fp" using assms(3,4) by (auto simp: fingerprint_def result_iffs)
  have "sha256_hex L b = sha256_hex L b'" using b(3,4) by simp
  then have "sha256 L b = sha256 L b'" using assms(2) by (simp add: sha256_hex_def hex_ok_inj)
  then show ?thesis
    using jcs_bytes_same_value [OF assms(1,5,6) b(1)] b(1,2)
    by (cases "b = b'") (auto simp: fingerprint_clash_def collision_def)
qed

section \<open>The index of fingerprints\<close>

lemma evict_fingerprints: "map_of (by_fingerprint (evict_lapsed now idx)) fp = Some sid \<Longrightarrow> map_of (by_fingerprint idx) fp = Some sid"
proof -
  define P where "P = (\<lambda>i :: session_index. \<forall>fp sid. map_of (by_fingerprint i) fp = Some sid \<longrightarrow> map_of (by_fingerprint idx) fp = Some sid)"
  have id: "P (evict_id t i x)" if "P i" for t i x
    using that by (auto simp: P_def evict_id_def Let_def split: option.splits if_splits)
  have "P (evict_deadline i t)" if "P i" for i t
    unfolding evict_deadline_def Let_def
  proof (rule foldl_keeps)
    show "P (i\<lparr>by_retention := AList.delete t (by_retention i)\<rparr>)" using that by (simp add: P_def)
  qed (rule id)
  note deadline = this
  have "P idx" unfolding P_def by blast
  then have "P (evict_lapsed now idx)" unfolding evict_lapsed_def by (rule foldl_keeps) (rule deadline)
  then show "map_of (by_fingerprint (evict_lapsed now idx)) fp = Some sid \<Longrightarrow> map_of (by_fingerprint idx) fp = Some sid"
    by (simp add: P_def)
qed

lemma take_lease_facts:
  assumes "take_lease sid idx = Inr (i, l)"
  shows "by_fingerprint i = by_fingerprint idx" and "ls_session_id l = sid"
    and "\<exists>e. ent idx sid = Some e \<and> ls_expires_at l = expires_at (en_stripped e)"
  using assms by (auto simp: take_lease_def split: option.splits)

lemma extend_fingerprints: "SessionIndex.extend l r idx = Inr i \<Longrightarrow> by_fingerprint i = by_fingerprint idx"
  by (auto simp: SessionIndex.extend_def Let_def split: option.splits if_splits)

lemma current_hit:
  assumes "current fp r now idx = Inr (i, Some l)"
  shows "\<exists>sid e i0. map_of (by_fingerprint (evict_lapsed now idx)) fp = Some sid \<and> ent (evict_lapsed now idx) sid = Some e \<and>
    now < expires_at (en_stripped e) \<and> take_lease sid (evict_lapsed now idx) = Inr (i0, l) \<and> SessionIndex.extend l r i0 = Inr i"
proof -
  let ?i = "evict_lapsed now idx"
  obtain sid e where e: "map_of (by_fingerprint ?i) fp = Some sid" "ent ?i sid = Some e" "now < expires_at (en_stripped e)"
    "and_then (take_lease sid ?i) (\<lambda>(i, l). case SessionIndex.extend l r i of Inl _ \<Rightarrow> Inl Panicked | Inr i \<Rightarrow> Inr (i, Some l)) = Inr (i, Some l)"
    using assms by (auto simp: current_def Let_def not_le split: option.splits if_splits)
  then obtain i0 l0 where t: "take_lease sid ?i = Inr (i0, l0)"
    "(case SessionIndex.extend l0 r i0 of Inl _ \<Rightarrow> Inl Panicked | Inr i \<Rightarrow> Inr (i, Some l0)) = Inr (i, Some l)"
    by (auto simp: and_then_Inr_iff)
  then have "l0 = l" "SessionIndex.extend l r i0 = Inr i" by (cases "SessionIndex.extend l0 r i0"; simp)+
  with e t show ?thesis by blast
qed

lemma current_miss:
  assumes "current fp r now idx = Inr (i, None)"
  shows "i = evict_lapsed now idx"
proof -
  have "and_then t (\<lambda>(i, l). case SessionIndex.extend l r i of Inl _ \<Rightarrow> Inl Panicked | Inr i \<Rightarrow> Inr (i, Some l)) \<noteq> Inr (i, None)" for t
  proof (cases t)
    case (Inr p)
    then show ?thesis by (cases "SessionIndex.extend (snd p) r (fst p)") (auto simp: split_beta)
  qed simp
  then show ?thesis using assms by (auto simp: current_def Let_def split: option.splits if_splits)
qed

lemma channels_recorded_mono:
  "channels_recorded L S M idx \<Longrightarrow> (\<And>fp sid. map_of (by_fingerprint i) fp = Some sid \<Longrightarrow> map_of (by_fingerprint idx) fp = Some sid) \<Longrightarrow>
     channels_recorded L S M i"
  by (simp add: channels_recorded_def)

lemma seal_on_miss:
  assumes "current fp r now idx = Inr (i, None)" and "mem_current_or_seal L fp r now sealed idx = (idx', Inr l)"
  obtains s split k where "sealed = Inr s" "split_session_new L s = Inr split"
    "take_lease (sp_session_id split) (index_insert fp split r i) = Inr (k, l)" "idx' = evict_lapsed now k"
proof (cases "and_then sealed (split_session_new L)")
  case (Inr split)
  then obtain s where s: "sealed = Inr s" "split_session_new L s = Inr split" by (auto simp: result_iffs)
  show ?thesis
  proof (cases "take_lease (sp_session_id split) (index_insert fp split r i)")
    case t: (Inr p)
    then have "snd p = l" "idx' = evict_lapsed now (fst p)" using assms Inr by (simp_all add: mem_current_or_seal_def split_beta)
    then show ?thesis using that [OF s, of "fst p"] t by (cases p) simp
  qed (use assms Inr in \<open>simp add: mem_current_or_seal_def\<close>)
qed (use assms in \<open>simp add: mem_current_or_seal_def\<close>)

text \<open>Acquiring a session of a channel: a lease on the current session, or on the one just sealed.\<close>

lemma current_or_seal_cases:
  assumes run: "mem_current_or_seal L fp r now sealed idx = (idx', Inr l)" and rec: "channels_recorded L S M idx"
  obtains (current) "map_of (by_fingerprint idx) fp = Some (ls_session_id l)" "now < ls_expires_at l" "channels_recorded L S M idx'"
  | (sealed) s split where "sealed = Inr s" "split_session_new L s = Inr split" "ls_session_id l = sp_session_id split"
      "ls_expires_at l = expires_at (sp_stripped split)"
      "\<And>fp' sid. map_of (by_fingerprint idx') fp' = Some sid \<Longrightarrow>
         (fp' = fp \<and> sid = sp_session_id split) \<or> map_of (by_fingerprint idx) fp' = Some sid"
proof (cases "current fp r now idx")
  case (Inr res)
  obtain i lo where res: "res = (i, lo)" by fastforce
  show ?thesis
  proof (cases lo)
    case (Some l')
    then have l: "l' = l" "i = idx'" using run Inr res by (simp_all add: mem_current_or_seal_def)
    then obtain sid e i0 where e: "map_of (by_fingerprint (evict_lapsed now idx)) fp = Some sid" "ent (evict_lapsed now idx) sid = Some e"
      "now < expires_at (en_stripped e)" "take_lease sid (evict_lapsed now idx) = Inr (i0, l)" "SessionIndex.extend l r i0 = Inr idx'"
      using current_hit Inr res Some by blast
    note t = take_lease_facts [OF e(4)]
    show ?thesis
    proof (rule current)
      show "map_of (by_fingerprint idx) fp = Some (ls_session_id l)" using evict_fingerprints [OF e(1)] t(2) by simp
      show "now < ls_expires_at l" using t(3) e(2,3) by auto
      show "channels_recorded L S M idx'"
      proof (rule channels_recorded_mono [OF rec], rule evict_fingerprints)
        fix fp sid
        show "map_of (by_fingerprint idx') fp = Some sid \<Longrightarrow> map_of (by_fingerprint (evict_lapsed now idx)) fp = Some sid"
          by (simp only: extend_fingerprints [OF e(5)] t(1))
      qed
    qed
  next
    case None
    have i: "i = evict_lapsed now idx" using current_miss Inr res None by blast
    obtain s split k where s: "sealed = Inr s" "split_session_new L s = Inr split"
      "take_lease (sp_session_id split) (index_insert fp split r i) = Inr (k, l)" "idx' = evict_lapsed now k"
      by (rule seal_on_miss [OF _ run]) (use Inr res None in simp)
    note t = take_lease_facts [OF s(3)]
    show ?thesis
    proof (rule sealed [OF s(1,2)])
      show "ls_session_id l = sp_session_id split" by (rule t(2))
      show "ls_expires_at l = expires_at (sp_stripped split)" using t(3) by (auto simp: index_insert_frame inserted_entry_def)
      fix fp' sid
      assume "map_of (by_fingerprint idx') fp' = Some sid"
      then have "map_of (by_fingerprint k) fp' = Some sid" unfolding s(4) by (rule evict_fingerprints)
      then have "((map_of (by_fingerprint i))(fp \<mapsto> sp_session_id split)) fp' = Some sid" by (simp add: t(1) index_insert_frame)
      then show "(fp' = fp \<and> sid = sp_session_id split) \<or> map_of (by_fingerprint idx) fp' = Some sid"
        using evict_fingerprints [of now idx fp' sid] unfolding i by (cases "fp' = fp") simp_all
    qed
  qed
qed (use run in \<open>simp add: mem_current_or_seal_def\<close>)

lemma split_session_facts:
  "split_session_new L s = Inr split \<Longrightarrow> sp_session_id split = session_id s \<and> expires_at (sp_stripped split) = expires_at (document s)"
  by (auto simp: split_session_new_def Let_def result_iffs)

lemma sealed_about_channel:
  assumes safe: "safe_store L S idx" and "s \<in> S" "t \<in> S" "session_id s = session_id t" "about_channel (document s) c"
  shows "about_channel (document t) c"
proof -
  have laws: "hex_ok L" "to_vec_inj L" "sealed_set L S" using safe by (simp_all add: safe_store_def)
  have eq: "session_bytes s = session_bytes t" using sealed_same_id [OF laws assms(2-4)] by blast
  have st: "seal L (document s) = Inr s" "seal L (document t) = Inr t" "document_wf (document s)" "document_wf (document t)"
    using laws(3) assms(2,3) by (auto simp: sealed_set_def)
  note jwf = document_value_jwf [OF st(3)] document_value_jwf [OF st(4)]
  have "same_value (document_value (document s)) (document_value (document t))"
    using jcs_bytes_same_value [OF laws(2) jwf] st(1,2) eq by (simp add: seal_Inr)
  from same_document [OF this jwf assms(5)] show ?thesis .
qed

section \<open>Properties\<close>

lemma admit_Inr:
  assumes "admit_upstream L sv acquire ev allowed model early now at s = (s', Inr a)"
  obtains groups where "record_attested_upstream_session L sv acquire ev now s = (s', Inr groups)"
    "\<not> (case early of Some t \<Rightarrow> t \<le> at | None \<Rightarrow> False)" "filter_sessions allowed at groups = Inr (ad_sessions a)"
    "allowed = [] \<or> ad_sessions a \<noteq> []" "admitted_at a = at"
    "ad_event a = (if ad_sessions a \<noteq> [] then ev\<lparr>channel_bindings := concat (map sg_bindings (ad_sessions a))\<rparr> else ev)"
proof (cases "record_attested_upstream_session L sv acquire ev now s")
  case (Pair t r)
  show ?thesis
  proof (cases r)
    case (Inr groups)
    let ?late = "case early of Some t \<Rightarrow> t \<le> at | None \<Rightarrow> False"
    show ?thesis
    proof (cases ?late)
      case False
      then have t: "t = s'" and f: "and_then (filter_sessions allowed at groups) (\<lambda>admitted.
          if allowed \<noteq> [] \<and> admitted = [] then Inl (UpstreamVerification (NoEligibleAttestedSession model))
          else let ev' = (if admitted \<noteq> [] then ev\<lparr>channel_bindings := concat (map sg_bindings admitted)\<rparr> else ev)
            in Inr \<lparr>ad_event = ev', admitted_at = at, ad_sessions = admitted,
                 requires_instance = (\<not> serves_directly sv \<and> is_multi_instance (provider_type ev) \<and> uv_result ev = Verified)\<rparr>) = Inr a"
        using assms Pair Inr by (simp_all add: admit_upstream_def)
      from f obtain admitted where admitted: "filter_sessions allowed at groups = Inr admitted" "allowed = [] \<or> admitted \<noteq> []"
        "a = \<lparr>ad_event = (if admitted \<noteq> [] then ev\<lparr>channel_bindings := concat (map sg_bindings admitted)\<rparr> else ev), admitted_at = at,
           ad_sessions = admitted,
           requires_instance = (\<not> serves_directly sv \<and> is_multi_instance (provider_type ev) \<and> uv_result ev = Verified)\<rparr>"
        unfolding and_then_Inr_iff Let_def by (auto split: if_splits)
      show ?thesis by (rule that [of groups]) (use Pair Inr t False admitted in simp_all)
    qed (use assms Pair Inr in \<open>simp add: admit_upstream_def\<close>)
  qed (use assms Pair in \<open>simp add: admit_upstream_def\<close>)
qed

lemma recorded_groups:
  assumes "record_attested_upstream_session L sv acquire ev now s = (s', Inr groups)"
  shows "(groups = [] \<and> (serves_directly sv \<or> uv_result ev \<noteq> Verified)) \<or>
    (\<not> serves_directly sv \<and> uv_result ev = Verified \<and> channel_groups L ev = Inr (map (\<lambda>g. (instance_key g, sg_bindings g)) groups))"
proof (cases "serves_directly sv \<or> uv_result ev \<noteq> Verified")
  case False
  then show ?thesis using assms seal_groups_shape [of L "sv_config sv" acquire ev now _ s s' groups]
    by (auto simp: record_attested_upstream_session_def split: sum.splits)
qed (use assms in \<open>simp add: record_attested_upstream_session_def\<close>)

text \<open>C5: An admission holds exactly what it may. Every session admitted is one the client allowed and is valid at the time of the
  decision, its channels are verified ones, and a request with pins is refused unless one of them is there; the channels the backend
  may use are those of the admitted sessions, and without pins none of the verified channels is lost; nothing else of the verifier's
  event changes; a keyset committed in an early response has not expired; and the session the response selects is an admitted
  one, of the instance that served where instances are told apart.\<close>

theorem admission_sound:
  assumes "to_vec_inj L" and "admit_upstream L sv acquire ev allowed model early now at s = (s', Inr a)"
  shows "admitted_at a = at \<and> (\<forall>t. early = Some t \<longrightarrow> at < t) \<and>
    (\<forall>g \<in> set (ad_sessions a). (allowed = [] \<or> ls_session_id (sg_lease g) \<in> set allowed) \<and>
       ls_established_at (sg_lease g) \<le> at \<and> at < ls_expires_at (sg_lease g) \<and>
       sg_bindings g \<noteq> [] \<and> set (sg_bindings g) \<subseteq> set (channel_bindings ev)) \<and>
    (allowed \<noteq> [] \<longrightarrow> ad_sessions a \<noteq> []) \<and>
    (ad_sessions a \<noteq> [] \<longrightarrow> uv_result ev = Verified \<and> channel_bindings (ad_event a) = concat (map sg_bindings (ad_sessions a))) \<and>
    (allowed = [] \<and> uv_result ev = Verified \<and> \<not> serves_directly sv \<longrightarrow> set (channel_bindings (ad_event a)) = set (channel_bindings ev)) \<and>
    (ad_event a)\<lparr>channel_bindings := channel_bindings ev\<rparr> = ev \<and>
    (\<forall>served sel l. select a served = Inr sel \<longrightarrow> se_lease sel = Some l \<longrightarrow> selected_from a served l)"
proof -
  obtain groups where g: "record_attested_upstream_session L sv acquire ev now s = (s', Inr groups)"
    "\<not> (case early of Some t \<Rightarrow> t \<le> at | None \<Rightarrow> False)" "filter_sessions allowed at groups = Inr (ad_sessions a)"
    "allowed = [] \<or> ad_sessions a \<noteq> []" "admitted_at a = at"
    "ad_event a = (if ad_sessions a \<noteq> [] then ev\<lparr>channel_bindings := concat (map sg_bindings (ad_sessions a))\<rparr> else ev)"
    using assms(2) by (rule admit_Inr)
  note f = filter_sessions_Inr [OF g(3)] and r = recorded_groups [OF g(1)]
  have verified: "ad_sessions a \<noteq> [] \<longrightarrow> uv_result ev = Verified" using f r by auto
  have chan: "sg_bindings x \<noteq> [] \<and> set (sg_bindings x) \<subseteq> set (channel_bindings ev)" if "x \<in> set groups" for x
    using r that channel_groups_facts(1) [OF assms(1)] by fastforce
  have all: "set (channel_bindings (ad_event a)) = set (channel_bindings ev)"
    if "allowed = []" "uv_result ev = Verified" "\<not> serves_directly sv"
  proof -
    have "ad_sessions a = groups" using f that(1) by simp
    moreover have "set (channel_bindings ev) = (\<Union>x \<in> set groups. set (sg_bindings x))"
      using r that channel_groups_facts [OF assms(1), of ev] by auto
    ultimately show ?thesis using g(6) by auto
  qed
  have sel: "selected_from a served l" if "select a served = Inr sel" "se_lease sel = Some l" for served sel l
    using select_Inr [OF that(1)] that(2) by simp
  have "\<forall>x \<in> set (ad_sessions a). x \<in> set groups \<and> (allowed = [] \<or> ls_session_id (sg_lease x) \<in> set allowed) \<and>
      ls_established_at (sg_lease x) \<le> at \<and> at < ls_expires_at (sg_lease x)" using f by auto
  moreover have "\<forall>t. early = Some t \<longrightarrow> at < t" using g(2) by auto
  moreover have "(ad_event a)\<lparr>channel_bindings := channel_bindings ev\<rparr> = ev" using g(6) by simp
  ultimately show ?thesis using chan all sel verified g(4-6) by auto
qed

definition sample_verified :: upstream_verified_event where
  "sample_verified = default_event\<lparr>upstream_name := ''up'', verifier_id := ''v'', uv_result := Verified,
     channel_bindings := [TlsSpkiSha256 ''https://up'' ''aa'', TlsSpkiSha256 ''https://up'' ''bb'', TlsSpkiSha256 ''https://up'' ''aa'']\<rparr>"

definition sample_gateway :: aci_service where
  "sample_gateway = \<lparr>sv_keyset = \<lparr>sk_keyset = \<lparr>subject = None, not_after = 9000, receipt_signing_keys = [], e2ee_public_keys = [],
       tls_public_keys = []\<rparr>, sk_value = JNull, sk_bytes = [], sk_digest = []\<rparr>,
     sv_default_receipt_key_id = ''k'', sv_config = sample_service_config\<rparr>"

definition sample_lease :: session_lease where
  "sample_lease = \<lparr>ls_session_id = ''pinned'', ls_established_at = 90, ls_expires_at = 200, ls_token = 0\<rparr>"

definition sample_acquire :: "nat acquire" where
  "sample_acquire fp retention now sealed s = (Suc s, Inr sample_lease)"

lemma sample_groups:
  assumes "to_vec_inj L"
  shows "\<exists>bs. channel_groups L sample_verified = Inr [(None, bs)]"
proof -
  obtain bs where bs: "canonical_bindings L (channel_bindings sample_verified) = Inr bs" using canonical_bindings_eq by blast
  have set: "set bs = {TlsSpkiSha256 ''https://up'' ''aa'', TlsSpkiSha256 ''https://up'' ''bb''}"
    using canonical_bindings_set [OF assms bs] by (auto simp: sample_verified_def)
  then obtain spki where "bs \<noteq> []" "hd bs = TlsSpkiSha256 ''https://up'' spki" by (cases bs) auto
  moreover have "list_all (is_tls_of ''https://up'') bs" using set by (simp add: list_all_iff is_tls_of_def)
  ultimately have "single_group L sample_verified = Inr [(None, bs)]"
    using bs by (simp add: single_group_def sample_verified_def default_event_def)
  moreover have "\<not> is_multi_instance (provider_type sample_verified)"
    by (simp add: is_multi_instance_def sample_verified_def default_event_def)
  ultimately show ?thesis by (auto simp: channel_groups_def)
qed

lemma sample_material:
  "\<exists>fp. fingerprint L (channel_material_of L sample_verified None bs (session_claims_for_event sample_verified)) = Inr fp"
  "jwf (material_value (channel_material_of L sample_verified None bs (session_claims_for_event sample_verified)))"
proof -
  let ?v = "material_value (channel_material_of L sample_verified None bs (session_claims_for_event sample_verified))"
  have b: "jcs_ok (binding_value b)" for b by (cases b) (simp_all add: binding_value_def skip_none_def is_ascii_def split: option.split)
  have v: "jcs_ok ?v" "jwf ?v"
    using b binding_jwf by (simp_all add: material_value_def channel_material_of_def reviewed_session_material_def sample_verified_def default_event_def
      session_claims_for_event_def claim_mapper_def generic_claims_def default_claims_def claims_value_def claim_value_def
      claim_asserted_def claim_unknown_def nullable_def skip_none_def skip_empty_def is_ascii_def list_all_iff)
  then show "jwf ?v" by simp
  from v(1) obtain s where "jcs_sorted ?v = Inr s" using jcs_sorted_ok_iff by blast
  then show "\<exists>fp. fingerprint L (channel_material_of L sample_verified None bs (session_claims_for_event sample_verified)) = Inr fp"
    by (simp add: fingerprint_def jcs_bytes_def)
qed

lemma sample_identity: "identity_from_provider_claims sample_verified = None"
  by (simp add: identity_from_provider_claims_def sample_verified_def default_event_def identity_is_empty_def)

lemma sample_expiry: "session_expiry sample_service_config sample_verified 100 = Inr 3700"
  by (simp add: session_expiry_def checked_add_def sample_service_config_def sample_verified_def default_event_def)

theorem admission_sound_witness:
  "\<exists>s a. admit_upstream sample_lib sample_gateway sample_acquire sample_verified [''other'', ''pinned''] ''m'' (Some 150) 100 101 0 = (s, Inr a) \<and>
     ad_sessions a \<noteq> [] \<and> (\<forall>g \<in> set (ad_sessions a). ls_session_id (sg_lease g) \<in> {''other'', ''pinned''} \<and> 101 < ls_expires_at (sg_lease g))"
proof -
  obtain bs where bs: "channel_groups sample_lib sample_verified = Inr [(None, bs)]" using sample_groups [OF sample_lib_laws(5)] by blast
  obtain fp where fp: "fingerprint sample_lib (channel_material_of sample_lib sample_verified None bs (session_claims_for_event sample_verified)) = Inr fp"
    using sample_material(1) by blast
  have "\<not> serves_directly sample_gateway" "sv_config sample_gateway = sample_service_config" "uv_result sample_verified = Verified"
    by (simp_all add: serves_directly_def sample_gateway_def sample_service_config_def default_capabilities_def sample_verified_def)
  then have "record_attested_upstream_session sample_lib sample_gateway sample_acquire sample_verified 100 0 =
      (1, Inr [\<lparr>instance_key = None, sg_bindings = bs, sg_lease = sample_lease\<rparr>])"
    by (simp add: record_attested_upstream_session_def bs seal_attested_session_def group_claims_def fp sample_identity sample_expiry sample_acquire_def)
  then obtain s a where a: "admit_upstream sample_lib sample_gateway sample_acquire sample_verified [''other'', ''pinned''] ''m'' (Some 150) 100 101 0 = (s, Inr a)"
    by (simp add: admit_upstream_def sample_lease_def)
  from admission_sound [OF sample_lib_laws(5) a] a show ?thesis by auto
qed

lemma channels_recordedD:
  "channels_recorded L S M idx \<Longrightarrow> map_of (by_fingerprint idx) fp = Some sid \<Longrightarrow>
     \<exists>s \<in> S. \<exists>c \<in> M. session_id s = sid \<and> records (document s) c \<and> fingerprint L c = Inr fp \<and> jwf (material_value c)"
  by (simp add: channels_recorded_def)

lemma channels_recorded_insert: "channels_recorded L S M idx \<Longrightarrow> channels_recorded L S (insert c M) idx"
  by (fastforce simp: channels_recorded_def)

text \<open>C10: The session a receipt cites is about the channel that was verified. Acquiring a session of a channel from the in-memory store
  returns a lease on a session that is still valid and that the store serves until the retention asked for; that session names the
  upstream, the endpoint, the verifier and exactly the channel bindings of this verification, with the same claims up to member
  order, whether it was just sealed or found under the fingerprint. The one exception is that the canonical form of this channel
  collides under SHA-256 with that of a channel in \<open>M\<close>, those fingerprinted before. The store stays one for which this holds,
  with this channel added to \<open>M\<close>.\<close>

theorem cited_session_about_channel:
  assumes "safe_store L S idx" and "channels_recorded L S M idx"
    and "\<And>expires s. session_expiry config ev now = Inr expires \<Longrightarrow> seal L (session_document_of ev ident bs claims now expires) = Inr s \<Longrightarrow> s \<in> S"
    and "jwf (material_value (channel_material_of L ev ident bs claims))"
    and "seal_attested_session L config (mem_current_or_seal L) ev ident bs claims now idx = (idx', Inr l)"
  shows "safe_store L S idx' \<and> channels_recorded L S (insert (channel_material_of L ev ident bs claims) M) idx' \<and>
    now < ls_expires_at l \<and>
    ((\<forall>later < saturating_add now (sc_receipt_ttl_seconds config).
        \<exists>s. snd (mem_get_session L (ls_session_id l) later idx') = Some s \<and> session_id s = ls_session_id l \<and>
          about_channel (document s) (channel_material_of L ev ident bs claims)) \<or>
     (\<exists>c \<in> M. fingerprint_clash L c (channel_material_of L ev ident bs claims)))"
proof -
  let ?c = "channel_material_of L ev ident bs claims" and ?r = "saturating_add now (sc_receipt_ttl_seconds config)"
  have laws: "hex_ok L" "b64_ok L" "to_vec_inj L" "sealed_set L S" "store_inv L S idx" using assms(1) by (simp_all add: safe_store_def)
  obtain fp expires where fp: "fingerprint L ?c = Inr fp" "session_expiry config ev now = Inr expires"
    using assms(5) by (auto simp: seal_attested_session_def result_iffs split: sum.splits)
  let ?doc = "session_document_of ev ident bs claims now expires"
  have run: "mem_current_or_seal L fp ?r now (seal_closure L ?doc) idx = (idx', Inr l)"
    using assms(5) fp by (auto simp: seal_attested_session_def map_err_Inr_iff split: prod.splits)
  have closure: "s \<in> S \<and> document s = ?doc" if "seal_closure L ?doc = Inr s" for s
    using that assms(3) [OF fp(2)] by (auto simp: seal_closure_def map_err_Inr_iff seal_Inr)
  have doc: "records ?doc ?c" by (simp add: records_def session_document_of_def channel_material_of_def Let_def)
  have safe: "safe_store L S idx'" "promised idx' (ls_session_id l) ?r"
    using mem_current_or_seal_ok [OF laws _ run] closure laws by (auto simp: safe_store_def promised_def)
  have found: "(\<forall>later < ?r. \<exists>t. snd (mem_get_session L (ls_session_id l) later idx') = Some t \<and> session_id t = ls_session_id l \<and>
      about_channel (document t) ?c)" if "s \<in> S" "session_id s = ls_session_id l" "about_channel (document s) ?c" for s
    using served_until_deadline [OF safe] sealed_about_channel [OF assms(1) that(1) _ _ that(3)] that(2) by metis
  show ?thesis
    using run assms(2)
  proof (cases rule: current_or_seal_cases)
    case current
    then obtain s c where s: "s \<in> S" "session_id s = ls_session_id l" "records (document s) c" "fingerprint L c = Inr fp" "jwf (material_value c)"
      "c \<in> M"
      using channels_recordedD [OF assms(2)] by blast
    have "channels_recorded L S (insert ?c M) idx'" using current(3) by (rule channels_recorded_insert)
    with same_fingerprint [OF laws(3,1) s(4) fp(1) s(5) assms(4)] show ?thesis
      using same_material [OF _ s(5) assms(4) s(3)] found [OF s(1,2)] current(1,2) safe(1) s(6) by blast
  next
    case (sealed s split)
    note split = split_session_facts [OF sealed(2)]
    have s: "s \<in> S" "document s = ?doc" "session_id s = ls_session_id l" using closure sealed split by auto
    have new: "\<exists>s \<in> S. \<exists>c \<in> insert ?c M. session_id s = sp_session_id split \<and> records (document s) c \<and> fingerprint L c = Inr fp \<and> jwf (material_value c)"
      using s doc fp(1) split assms(4) by (metis insertI1)
    have "channels_recorded L S (insert ?c M) idx'"
      unfolding channels_recorded_def
      using sealed(5) new channels_recordedD [OF channels_recorded_insert [OF assms(2)]] by metis
    moreover have "now < ls_expires_at l"
      using fp(2) sealed(4) split s(2) by (auto simp: session_expiry_def result_iffs Let_def session_document_of_def)
    moreover have "about_channel (document s) ?c" using doc s(2) by (simp add: records_def about_channel_def)
    ultimately show ?thesis using found s safe(1) by blast
  qed
qed

definition sample_evidenced :: upstream_verified_event where
  "sample_evidenced = sample_verified\<lparr>uv_evidence := Some (JObject [(''digest'', JString (sha256_hex sample_lib ''proof'')),
     (''data'', JString (''data:text/plain;base64,'' @ b64_encode sample_lib ''proof''))])\<rparr>"

definition sample_channel :: "channel_binding list" where
  "sample_channel = [TlsSpkiSha256 ''https://up'' ''aa'']"

lemma sample_evidenced_material:
  "\<exists>fp. fingerprint L (channel_material_of L sample_evidenced None sample_channel (session_claims_for_event sample_evidenced)) = Inr fp"
  "jwf (material_value (channel_material_of L sample_evidenced None sample_channel (session_claims_for_event sample_evidenced)))"
proof -
  let ?v = "material_value (channel_material_of L sample_evidenced None sample_channel (session_claims_for_event sample_evidenced))"
  have v: "jcs_ok ?v" "jwf ?v"
    by (simp_all add: material_value_def channel_material_of_def reviewed_session_material_def sample_evidenced_def sample_verified_def
      default_event_def session_claims_for_event_def claim_mapper_def generic_claims_def default_claims_def claims_value_def claim_value_def
      claim_asserted_def claim_unknown_def nullable_def skip_none_def skip_empty_def is_ascii_def sample_channel_def binding_value_def jget_str_def)
  then show "jwf ?v" by simp
  from v(1) obtain s where "jcs_sorted ?v = Inr s" using jcs_sorted_ok_iff by blast
  then show "\<exists>fp. fingerprint L (channel_material_of L sample_evidenced None sample_channel (session_claims_for_event sample_evidenced)) = Inr fp"
    by (simp add: fingerprint_def jcs_bytes_def)
qed

lemma sample_evidenced_sealed:
  defines "d \<equiv> session_document_of sample_evidenced None sample_channel (session_claims_for_event sample_evidenced) 100 3700"
  obtains s where "seal sample_lib d = Inr s" "sealed_set sample_lib {s}" "bundle_of sample_lib s = Some (''text/plain'', ''proof'')"
proof -
  have ev: "evidence d = evidence_from_bytes sample_lib ''text/plain'' ''proof''"
    by (simp add: d_def session_document_of_def sample_evidenced_def evidence_from_value_def evidence_from_bytes_def jget_str_def)
  have d: "jcs_ok (document_value d)" "document_wf d"
    by (simp_all add: d_def document_wf_def session_document_of_def document_value_def sample_evidenced_def sample_verified_def
      default_event_def session_claims_for_event_def claim_mapper_def generic_claims_def default_claims_def claims_value_def claim_value_def
      claim_asserted_def claim_unknown_def nullable_def skip_none_def skip_empty_def is_ascii_def sample_channel_def binding_value_def
      evidence_value_def evidence_from_value_def jget_str_def)
  obtain s where s: "seal sample_lib d = Inr s" using seal_total d(1) by blast
  have doc: "document s = d" using s by (simp add: seal_Inr)
  have "\<not> contains_str '';base64,'' ''text/plain''" by code_simp
  from evidence_decode_from_bytes [OF sample_lib_laws(4) this, of "''proof''"]
  have b: "bundle_of sample_lib s = Some (''text/plain'', ''proof'')" by (simp add: bundle_of_def doc ev)
  have "sealed_set sample_lib {s}" using s doc d by (auto simp: sealed_set_def collision_def)
  then show ?thesis by (rule that [OF s _ b])
qed

theorem cited_session_about_channel_witness:
  "\<exists>S idx l. seal_attested_session sample_lib sample_service_config (mem_current_or_seal sample_lib) sample_evidenced None
      sample_channel (session_claims_for_event sample_evidenced) 100 index_default = (idx, Inr l) \<and>
     safe_store sample_lib S idx \<and> 100 < ls_expires_at l \<and>
     (\<exists>s. snd (mem_get_session sample_lib (ls_session_id l) 100 idx) = Some s \<and> session_id s = ls_session_id l \<and>
        sd_channel_binding (document s) = sample_channel)"
proof -
  let ?claims = "session_claims_for_event sample_evidenced"
  obtain s where s: "seal sample_lib (session_document_of sample_evidenced None sample_channel ?claims 100 3700) = Inr s"
    "sealed_set sample_lib {s}" "bundle_of sample_lib s = Some (''text/plain'', ''proof'')" by (rule sample_evidenced_sealed)
  obtain fp where fp: "fingerprint sample_lib (channel_material_of sample_lib sample_evidenced None sample_channel ?claims) = Inr fp"
    using sample_evidenced_material(1) by blast
  have expiry: "session_expiry sample_service_config sample_evidenced 100 = Inr 3700"
    using sample_expiry by (simp add: session_expiry_def sample_evidenced_def)
  obtain idx l where run: "mem_current_or_seal sample_lib fp (saturating_add 100 (sc_receipt_ttl_seconds sample_service_config)) 100 (Inr s) index_default = (idx, Inr l)"
    by (rule sample_current_or_seal [OF s(1,3,2)])
  have seal: "seal_attested_session sample_lib sample_service_config (mem_current_or_seal sample_lib) sample_evidenced None
      sample_channel ?claims 100 index_default = (idx, Inr l)"
    by (simp add: seal_attested_session_def fp expiry seal_closure_def s(1) run)
  have none: "channels_recorded sample_lib {s} {} index_default" by (simp add: channels_recorded_def index_default_def)
  have S: "\<And>expires t. session_expiry sample_service_config sample_evidenced 100 = Inr expires \<Longrightarrow>
      seal sample_lib (session_document_of sample_evidenced None sample_channel ?claims 100 expires) = Inr t \<Longrightarrow> t \<in> {s}"
    using s(1) expiry by simp
  have cited: "safe_store sample_lib {s} idx \<and> 100 < ls_expires_at l \<and>
      (\<forall>later < saturating_add 100 (sc_receipt_ttl_seconds sample_service_config).
        \<exists>t. snd (mem_get_session sample_lib (ls_session_id l) later idx) = Some t \<and> session_id t = ls_session_id l \<and>
          about_channel (document t) (channel_material_of sample_lib sample_evidenced None sample_channel ?claims))"
    using cited_session_about_channel [OF default_safe [OF s(2)] none _ sample_evidenced_material(2) seal] S by blast
  have "100 < saturating_add 100 (sc_receipt_ttl_seconds sample_service_config)" by (simp add: saturating_add_def sample_service_config_def)
  then obtain t where t: "snd (mem_get_session sample_lib (ls_session_id l) 100 idx) = Some t" "session_id t = ls_session_id l"
    "about_channel (document t) (channel_material_of sample_lib sample_evidenced None sample_channel ?claims)"
    using cited by blast
  from t(3) have "sd_channel_binding (document t) = sample_channel"
    by (simp add: about_channel_def channel_material_of_def Let_def)
  with cited t have "safe_store sample_lib {s} idx \<and> 100 < ls_expires_at l \<and>
     (\<exists>s. snd (mem_get_session sample_lib (ls_session_id l) 100 idx) = Some s \<and> session_id s = ls_session_id l \<and>
        sd_channel_binding (document s) = sample_channel)" by blast
  with seal show ?thesis by blast
qed

end
