(* ===== verification/SseProtocol.thy ===== *)
theory SseProtocol
  imports Json
begin

text \<open>
  Client-facing errors and stream endings (\<open>src/error_payload.rs\<close>, \<open>src/sse_protocol.rs\<close>): the
  error type and the sanitised message of a status, the error envelope of each API surface, the
  streaming protocol of an endpoint, its success terminator and the events that end a broken stream.
  An HTTP status (a \<open>u16\<close> that is only compared) is a \<open>nat\<close>.
\<close>

section \<open>Error payloads\<close>

datatype surface = Openai | Anthropic

definition error_type :: "surface \<Rightarrow> nat \<Rightarrow> string" where
  "error_type surface status =
     (case surface of
        Anthropic \<Rightarrow>
          (if status = 400 then ''invalid_request_error''
           else if status = 401 then ''authentication_error''
           else if status = 402 then ''billing_error''
           else if status = 403 then ''permission_error''
           else if status = 404 then ''not_found_error''
           else if status = 413 then ''request_too_large''
           else if status = 429 then ''rate_limit_error''
           else if status = 504 then ''timeout_error''
           else if status \<ge> 500 then ''api_error''
           else ''invalid_request_error'')
      | Openai \<Rightarrow>
          (if status = 401 then ''authentication_error''
           else if status = 402 then ''insufficient_quota''
           else if status = 403 then ''permission_error''
           else if status = 404 then ''not_found_error''
           else if status = 429 then ''rate_limit_error''
           else if status = 503 then ''service_unavailable''
           else if status = 504 then ''timeout_error''
           else if status \<ge> 500 then ''upstream_error''
           else ''invalid_request_error''))"

definition upstream_message :: "nat \<Rightarrow> string" where
  "upstream_message status =
     (if status = 400 \<or> status = 422 then ''The request was rejected as invalid''
      else if 401 \<le> status \<and> status \<le> 403 then ''The upstream provider is currently unavailable''
      else if status = 404 then ''The requested model or resource was not found''
      else if status = 413 then ''The request is too large''
      else if status = 429 then ''Rate limit exceeded. Please retry after some time.''
      else if status = 503 then ''The model is currently unavailable. Please try again later.''
      else if status = 504 then ''The upstream provider timed out''
      else ''The upstream provider returned an error'')"

definition envelope :: "surface \<Rightarrow> string \<Rightarrow> string \<Rightarrow> string option \<Rightarrow> json" where
  "envelope surface etype message request_id =
     (case surface of
        Anthropic \<Rightarrow>
          (let v = JObject [(''type'', JString ''error''),
               (''error'', JObject [(''type'', JString etype), (''message'', JString message)])]
           in case request_id of None \<Rightarrow> v | Some r \<Rightarrow> jset v ''request_id'' (JString r))
      | Openai \<Rightarrow> JObject [(''error'', JObject [(''message'', JString message), (''type'', JString etype),
           (''code'', JNull), (''param'', JNull)])])"

section \<open>Streaming protocols\<close>

datatype sse_protocol = OpenaiChat | OpenaiResponses | AnthropicMessages

definition MESSAGES_PATH :: string where
  "MESSAGES_PATH = ''/v1/messages''"

definition RESPONSES_PATH :: string where
  "RESPONSES_PATH = ''/v1/responses''"

definition sse_protocol_of :: "string \<Rightarrow> sse_protocol" where
  "sse_protocol_of endpoint_path =
     (if endpoint_path = MESSAGES_PATH then AnthropicMessages
      else if endpoint_path = RESPONSES_PATH then OpenaiResponses
      else OpenaiChat)"

abbreviation LF :: char where "LF \<equiv> CHR 0x0A"
abbreviation CR :: char where "CR \<equiv> CHR 0x0D"

definition stream_success_terminator :: "sse_protocol \<Rightarrow> string option" where
  "stream_success_terminator protocol =
     (case protocol of OpenaiChat \<Rightarrow> Some (''data: [DONE]'' @ [LF, LF])
      | AnthropicMessages \<Rightarrow> None | OpenaiResponses \<Rightarrow> None)"

definition chat_gateway_error :: "nat \<Rightarrow> json" where
  "chat_gateway_error status = JObject [(''message'', JString (upstream_message status)),
     (''type'', JString (error_type Openai status)), (''code'', JNumber (PosInt (of_nat status))),
     (''param'', JNull)]"

definition responses_gateway_code :: "nat \<Rightarrow> string" where
  "responses_gateway_code status =
     (if status = 429 then ''rate_limit_exceeded''
      else if status = 400 \<or> status = 413 \<or> status = 422 then ''invalid_prompt''
      else ''server_error'')"

definition opt_str :: "string option \<Rightarrow> json" where
  "opt_str s = (case s of None \<Rightarrow> JNull | Some s \<Rightarrow> JString s)"

definition responses_error_event ::
  "string option \<Rightarrow> string \<Rightarrow> string option \<Rightarrow> u64 option \<Rightarrow> json" where
  "responses_error_event ecode message param sequence_number =
     (let event = JObject [(''type'', JString ''error''), (''code'', opt_str ecode),
          (''message'', JString message), (''param'', opt_str param)]
      in case sequence_number of None \<Rightarrow> event
         | Some n \<Rightarrow> jset event ''sequence_number'' (JNumber (PosInt n)))"

text \<open>The body of the error event of a protocol, and the bytes that carry it.\<close>

definition stream_error_body :: "sse_protocol \<Rightarrow> nat \<Rightarrow> string option \<Rightarrow> u64 option \<Rightarrow> json" where
  "stream_error_body protocol status request_id last_sequence_number =
     (case protocol of
        AnthropicMessages \<Rightarrow>
          envelope Anthropic (error_type Anthropic status) (upstream_message status) request_id
      | OpenaiResponses \<Rightarrow>
          responses_error_event (Some (responses_gateway_code status)) (upstream_message status) None
            (Some (case last_sequence_number of None \<Rightarrow> 0 | Some l \<Rightarrow> saturating_add l 1))
      | OpenaiChat \<Rightarrow> JObject [(''error'', chat_gateway_error status)])"

definition stream_error_event ::
  "'x lib_scheme \<Rightarrow> sse_protocol \<Rightarrow> nat \<Rightarrow> string option \<Rightarrow> u64 option \<Rightarrow> bytes" where
  "stream_error_event L protocol status request_id last_sequence_number =
     (let body = to_vec L (stream_error_body protocol status request_id last_sequence_number)
      in case protocol of
        OpenaiChat \<Rightarrow> [LF, LF] @ ''data: '' @ body @ [LF, LF] @ ''data: [DONE]'' @ [LF, LF]
      | _ \<Rightarrow> [LF, LF] @ ''event: error'' @ [LF] @ ''data: '' @ body @ [LF, LF])"

definition stream_error_tail ::
  "'x lib_scheme \<Rightarrow> sse_protocol \<Rightarrow> string option \<Rightarrow> u64 option \<Rightarrow> bytes" where
  "stream_error_tail L protocol request_id last_sequence_number =
     stream_error_event L protocol 502 request_id last_sequence_number"

section \<open>What clients read\<close>

lemma stream_error_body_wf: "jwf (stream_error_body protocol status request_id seq)"
  by (cases protocol; cases request_id)
     (auto simp: stream_error_body_def envelope_def responses_error_event_def opt_str_def
        chat_gateway_error_def split: option.splits)

end
