(* ===== verification/SseFraming.thy ===== *)
theory SseFraming
  imports SseProtocol Samples
begin

text \<open>
  The SSE framing observer (\<open>src/sse_framing.rs\<close>): it watches a client-facing stream byte by byte and
  decides how it ended. The lemmas show that the way the transport cuts the stream into chunks does not
  matter, that LF, CR and CRLF framings are read alike and refine a line-based specification of SSE
  dispatch, that the buffers stay below their cap, that an observer that is done never changes again,
  and that the gateway's own error tail is always read back as an error.
\<close>

section \<open>The observer\<close>

definition MAX_OBSERVED_EVENT_BYTES :: nat where
  "MAX_OBSERVED_EVENT_BYTES = 16 * 1024 * 1024"

record sse_framing_observer =
  line_buffer :: bytes
  event_data :: bytes
  pending_cr :: bool
  chat_id :: "string option"
  model_id :: "string option"
  protocol :: "sse_protocol option"
  saw_terminal :: bool
  saw_error :: bool
  mid_event :: bool
  last_sequence_number :: "u64 option"
  observation_failed :: bool

definition with_protocol :: "sse_protocol option \<Rightarrow> sse_framing_observer" where
  "with_protocol p = \<lparr>line_buffer = [], event_data = [], pending_cr = False, chat_id = None, model_id = None,
     protocol = p, saw_terminal = False, saw_error = False, mid_event = False,
     last_sequence_number = None, observation_failed = False\<rparr>"

definition observer_new :: "string \<Rightarrow> sse_framing_observer" where
  "observer_new endpoint_path = with_protocol (Some (sse_protocol_of endpoint_path))"

definition identifiers_only :: sse_framing_observer where
  "identifiers_only = with_protocol None"

definition at_event_boundary :: "sse_framing_observer \<Rightarrow> bool" where
  "at_event_boundary s = (line_buffer s = [] \<and> \<not> mid_event s)"

definition observation_usable :: "sse_framing_observer \<Rightarrow> bool" where
  "observation_usable s = (\<not> observation_failed s)"

text \<open>\<open>SseFramingObserver::done\<close>.\<close>

definition observer_done :: "sse_framing_observer \<Rightarrow> bool" where
  "observer_done s = (observation_failed s \<or>
     (chat_id s \<noteq> None \<and> model_id s \<noteq> None \<and> (protocol s = None \<or> saw_terminal s \<or> saw_error s)))"

definition is_error_reason :: "string \<Rightarrow> bool" where
  "is_error_reason r = (r = ''error'' \<or> ends_with ''_error'' r)"

definition non_null :: "json option \<Rightarrow> bool" where
  "non_null v = (case v of None \<Rightarrow> False | Some e \<Rightarrow> e \<noteq> JNull)"

definition is_terminal_event :: "sse_protocol \<Rightarrow> string option \<Rightarrow> bool" where
  "is_terminal_event p event_type =
     (case p of
        OpenaiChat \<Rightarrow> False
      | AnthropicMessages \<Rightarrow> event_type = Some ''message_stop''
      | OpenaiResponses \<Rightarrow> event_type \<in> {Some ''response.completed'', Some ''response.incomplete'', Some ''response.failed''})"

definition is_error_event :: "json \<Rightarrow> bool" where
  "is_error_event parsed =
     (let event_type = jget_str parsed ''type'';
          responses_failed = (event_type = Some ''response.failed'');
          nested_error = non_null (Option.bind (jget parsed ''response'') (\<lambda>r. jget r ''error''));
          choices_error = (case Option.bind (jget parsed ''choices'') as_array of None \<Rightarrow> False
            | Some choices \<Rightarrow> list_ex (\<lambda>choice. case jget_str choice ''finish_reason'' of None \<Rightarrow> False
                | Some r \<Rightarrow> is_error_reason r) choices);
          stop_reason_error = (case Option.bind (jget parsed ''delta'') (\<lambda>d. jget_str d ''stop_reason'') of
              None \<Rightarrow> False | Some r \<Rightarrow> is_error_reason r)
      in event_type = Some ''error'' \<or> non_null (jget parsed ''error'') \<or> responses_failed \<or> nested_error
         \<or> choices_error \<or> stop_reason_error)"

definition observe_terminal :: "json \<Rightarrow> sse_framing_observer \<Rightarrow> sse_framing_observer" where
  "observe_terminal parsed s =
     (let s = (case Option.bind (jget parsed ''sequence_number'') as_u64 of
            None \<Rightarrow> s
          | Some n \<Rightarrow> s\<lparr>last_sequence_number := Some (case last_sequence_number s of
                Some previous \<Rightarrow> max previous n | None \<Rightarrow> n)\<rparr>)
      in case protocol s of
          None \<Rightarrow> s
        | Some p \<Rightarrow> s\<lparr>saw_terminal := (saw_terminal s \<or> is_terminal_event p (jget_str parsed ''type'')),
              saw_error := (saw_error s \<or> is_error_event parsed)\<rparr>)"

text \<open>The body of \<open>dispatch_event\<close> after the buffered data has been taken.\<close>

definition dispatch_payload :: "'x lib_scheme \<Rightarrow> bytes \<Rightarrow> sse_framing_observer \<Rightarrow> sse_framing_observer" where
  "dispatch_payload L data s =
     (if data = ''[DONE]'' then s\<lparr>saw_terminal := (saw_terminal s \<or> protocol s = Some OpenaiChat)\<rparr>
      else case from_slice L data of
          None \<Rightarrow> s
        | Some parsed \<Rightarrow>
            let s = observe_terminal parsed s;
                s = (if chat_id s = None then s\<lparr>chat_id := jget_str parsed ''id''\<rparr> else s)
            in if model_id s = None then s\<lparr>model_id := jget_str parsed ''model''\<rparr> else s)"

definition pop_lf :: "bytes \<Rightarrow> bytes" where
  "pop_lf data = (if data \<noteq> [] \<and> last data = LF then butlast data else data)"

definition dispatch_event :: "'x lib_scheme \<Rightarrow> sse_framing_observer \<Rightarrow> sse_framing_observer" where
  "dispatch_event L s =
     (if event_data s = [] then s
      else dispatch_payload L (pop_lf (event_data s)) (s\<lparr>event_data := []\<rparr>))"

definition observe_line :: "'x lib_scheme \<Rightarrow> bytes \<Rightarrow> sse_framing_observer \<Rightarrow> sse_framing_observer" where
  "observe_line L line s =
     (if line = [] then (dispatch_event L s)\<lparr>mid_event := False\<rparr>
      else if starts_with '':'' line then s
      else let s = s\<lparr>mid_event := True\<rparr>
        in case strip_prefix ''data:'' line of
            None \<Rightarrow> s
          | Some rest \<Rightarrow>
              let data = (case strip_prefix '' '' rest of Some r \<Rightarrow> r | None \<Rightarrow> rest)
              in s\<lparr>event_data := event_data s @ data @ [LF]\<rparr>)"

text \<open>The loop of \<open>observe\<close> and its early returns.\<close>

fun observe_bytes :: "'x lib_scheme \<Rightarrow> sse_framing_observer \<Rightarrow> bytes \<Rightarrow> sse_framing_observer" where
  "observe_bytes L s [] = s"
| "observe_bytes L s (byte # chunk) =
     (let was_pending_cr = pending_cr s;
          s = s\<lparr>pending_cr := False\<rparr>
      in if was_pending_cr \<and> byte = LF then observe_bytes L s chunk
         else let newline = (byte = CR \<or> byte = LF);
                  s = (if newline then
                         observe_line L (line_buffer s) (s\<lparr>pending_cr := (byte = CR), line_buffer := []\<rparr>)
                       else s\<lparr>line_buffer := line_buffer s @ [byte]\<rparr>)
         in if newline \<and> observer_done s then s
            else if length (line_buffer s) + length (event_data s) > MAX_OBSERVED_EVENT_BYTES then
              s\<lparr>observation_failed := True, line_buffer := [], event_data := []\<rparr>
            else observe_bytes L s chunk)"

definition observe :: "'x lib_scheme \<Rightarrow> sse_framing_observer \<Rightarrow> bytes \<Rightarrow> sse_framing_observer" where
  "observe L s chunk = (if observer_done s then s else observe_bytes L s chunk)"

section \<open>Chunking\<close>

text \<open>The interface of a state that a byte stream is pushed into: how the stream is cut into pieces must
  not matter. Every client lemma about streams rests on these two laws.\<close>

locale byte_sink =
  fixes push :: "'s \<Rightarrow> bytes \<Rightarrow> 's"
  assumes push_Nil: "push s [] = s"
    and push_append: "push s (xs @ ys) = push (push s xs) ys"
begin

lemma push_chunks: "foldl push s chunks = push s (concat chunks)"
  by (induction chunks arbitrary: s) (simp_all add: push_Nil push_append)

lemma push_rechunk: "concat cs = concat ds \<Longrightarrow> foldl push s cs = foldl push s ds"
  by (simp add: push_chunks)

lemma push_invariant:
  assumes "\<And>s b. P s \<Longrightarrow> P (push s [b])" and "P s"
  shows "P (push s xs)"
  using assms(2)
proof (induction xs arbitrary: s)
  case (Cons b xs)
  then show ?case using assms(1) push_append [of s "[b]" xs] by simp
qed (simp add: push_Nil)

end

lemma observer_done_buffers [simp]:
  "observer_done (s\<lparr>line_buffer := l\<rparr>) = observer_done s"
  "observer_done (s\<lparr>pending_cr := b\<rparr>) = observer_done s"
  "observer_done (s\<lparr>event_data := d\<rparr>) = observer_done s"
  "observer_done (s\<lparr>mid_event := m\<rparr>) = observer_done s"
  by (simp_all add: observer_done_def)

lemma observer_done_failed [simp]: "observer_done (s\<lparr>observation_failed := True\<rparr>)"
  by (simp add: observer_done_def)

lemma observer_done_failed_buffers [simp]:
  "observer_done (s\<lparr>observation_failed := True, line_buffer := l, event_data := d\<rparr>)"
  by (simp add: observer_done_def)

lemma observe_done: "observer_done s \<Longrightarrow> observe L s xs = s"
  by (simp add: observe_def)

lemma observe_bytes_Cons:
  assumes "\<not> observer_done s"
  shows "observe_bytes L s (b # bs) = observe L (observe_bytes L s [b]) bs"
  using assms by (simp add: Let_def observe_def)

lemma observe_Cons: "observe L s (b # bs) = observe L (observe L s [b]) bs"
proof (cases "observer_done s")
  case False
  then show ?thesis using observe_bytes_Cons [OF False] by (simp only: observe_def if_False)
qed (simp add: observe_done)

lemma observe_Nil: "observe L s [] = s"
  by (simp add: observe_def)

lemma observe_append: "observe L s (xs @ ys) = observe L (observe L s xs) ys"
proof (induction xs arbitrary: s)
  case (Cons b xs)
  have "observe L s ((b # xs) @ ys) = observe L (observe L s [b]) (xs @ ys)"
    using observe_Cons [of L s b "xs @ ys"] by simp
  also have "\<dots> = observe L (observe L (observe L s [b]) xs) ys" by (rule Cons)
  also have "observe L (observe L s [b]) xs = observe L s (b # xs)" by (rule observe_Cons [symmetric])
  finally show ?case .
qed (simp add: observe_Nil)

interpretation sse: byte_sink "observe L" for L
  by unfold_locales (rule observe_Nil, rule observe_append)

section \<open>Bounded buffers\<close>

lemma observe_terminal_frame [simp]:
  "line_buffer (observe_terminal v s) = line_buffer s" "event_data (observe_terminal v s) = event_data s"
  "pending_cr (observe_terminal v s) = pending_cr s" "mid_event (observe_terminal v s) = mid_event s"
  "protocol (observe_terminal v s) = protocol s"
  "observation_failed (observe_terminal v s) = observation_failed s"
  "chat_id (observe_terminal v s) = chat_id s" "model_id (observe_terminal v s) = model_id s"
  by (simp_all add: observe_terminal_def Let_def split: option.splits)

lemma dispatch_payload_frame [simp]:
  "line_buffer (dispatch_payload L p s) = line_buffer s" "event_data (dispatch_payload L p s) = event_data s"
  "pending_cr (dispatch_payload L p s) = pending_cr s" "mid_event (dispatch_payload L p s) = mid_event s"
  "protocol (dispatch_payload L p s) = protocol s"
  "observation_failed (dispatch_payload L p s) = observation_failed s"
  by (simp_all add: dispatch_payload_def Let_def split: option.splits)

text \<open>What a line adds to the data of its event.\<close>

definition field_data :: "bytes \<Rightarrow> bytes" where
  "field_data line =
     (if starts_with '':'' line then []
      else case strip_prefix ''data:'' line of None \<Rightarrow> []
        | Some rest \<Rightarrow> (case strip_prefix '' '' rest of Some r \<Rightarrow> r | None \<Rightarrow> rest) @ [LF])"

lemma field_data_length: "length (field_data line) \<le> length line"
  by (auto simp: field_data_def strip_prefix_Some split: option.splits)

lemma observe_line_event_data:
  "event_data (observe_line L line s) = (if line = [] then [] else event_data s @ field_data line)"
  by (simp add: observe_line_def dispatch_event_def field_data_def Let_def split: option.splits)

lemma observe_line_frame [simp]:
  "line_buffer (observe_line L line s) = line_buffer s" "pending_cr (observe_line L line s) = pending_cr s"
  "protocol (observe_line L line s) = protocol s"
  "observation_failed (observe_line L line s) = observation_failed s"
  by (simp_all add: observe_line_def dispatch_event_def Let_def split: option.splits)

definition buffered :: "sse_framing_observer \<Rightarrow> nat" where
  "buffered s = length (line_buffer s) + length (event_data s)"

text \<open>The invariant of the observer: its buffers are bounded and a line is pending after no CR.\<close>

definition observer_wf :: "sse_framing_observer \<Rightarrow> bool" where
  "observer_wf s = (buffered s \<le> MAX_OBSERVED_EVENT_BYTES \<and> (pending_cr s \<longrightarrow> line_buffer s = []))"

lemma observe_byte_wf: "observer_wf s \<Longrightarrow> observer_wf (observe L s [b])"
  using field_data_length [of "line_buffer s"]
  by (auto simp: observer_wf_def buffered_def observe_def Let_def observe_line_event_data)

lemma observe_wf: "observer_wf s \<Longrightarrow> observer_wf (observe L s xs)"
  by (rule sse.push_invariant [where P = observer_wf]) (auto simp: observe_byte_wf)

lemma with_protocol_wf: "observer_wf (with_protocol p)"
  by (simp add: observer_wf_def buffered_def with_protocol_def)

text \<open>C23: The observer's memory is bounded: however a stream is framed, the line and the event it holds
  back never exceed the 16 MiB cap together.\<close>

theorem observer_memory_bounded:
  "length (line_buffer (foldl (observe L) (with_protocol p) chunks))
     + length (event_data (foldl (observe L) (with_protocol p) chunks)) \<le> MAX_OBSERVED_EVENT_BYTES"
  using observe_wf [OF with_protocol_wf, of L p "concat chunks"]
  by (simp add: sse.push_chunks observer_wf_def buffered_def)

text \<open>C22: How the transport cuts a stream into chunks does not affect the judgement: two ways to cut the
  same bytes leave the observer in the same state. Once it is done, nothing changes it.\<close>

theorem observe_chunking:
  assumes "concat chunks = concat chunks'"
  shows "foldl (observe L) s chunks = foldl (observe L) s chunks' \<and>
    (observer_done s \<longrightarrow> foldl (observe L) s chunks = s)"
  using sse.push_rechunk [OF assms] by (simp add: sse.push_chunks observe_done)

theorem observe_chunking_witness:
  "foldl (observe sample_lib) (with_protocol (Some OpenaiChat)) [''data: [DO'', ''NE]'', [LF, LF]]
     = foldl (observe sample_lib) (with_protocol (Some OpenaiChat)) [''data: [DONE]'' @ [LF, LF]]"
  by (rule observe_chunking [THEN conjunct1]) simp

section \<open>Refinement of a line-based specification\<close>

text \<open>The payloads a sequence of lines dispatches: data fields accumulate, a blank line dispatches.\<close>

fun sse_payloads :: "bytes \<Rightarrow> bytes list \<Rightarrow> bytes list" where
  "sse_payloads buf [] = []"
| "sse_payloads buf (line # lines) =
     (if line = [] then (if buf = [] then [] else [pop_lf buf]) @ sse_payloads [] lines
      else sse_payloads (buf @ field_data line) lines)"

definition judge :: "'x lib_scheme \<Rightarrow> sse_framing_observer \<Rightarrow> bytes \<Rightarrow> sse_framing_observer" where
  "judge L s payload = (if observer_done s then s else dispatch_payload L payload s)"

text \<open>The state without the framing bookkeeping.\<close>

definition verdict :: "sse_framing_observer \<Rightarrow> sse_framing_observer" where
  "verdict s = s\<lparr>line_buffer := [], event_data := [], pending_cr := False, mid_event := False\<rparr>"

definition framed :: "bytes \<Rightarrow> bytes list \<Rightarrow> bytes" where
  "framed eol lines = concat (map (\<lambda>line. line @ eol) lines)"

definition eols :: "bytes list" where
  "eols = [[LF], [CR], [CR, LF]]"

lemma observer_done_verdict [simp]: "observer_done (verdict s) = observer_done s"
  by (simp add: verdict_def)

lemma verdict_bookkeeping [simp]:
  "verdict (s\<lparr>line_buffer := l\<rparr>) = verdict s" "verdict (s\<lparr>event_data := d\<rparr>) = verdict s"
  "verdict (s\<lparr>pending_cr := c\<rparr>) = verdict s" "verdict (s\<lparr>mid_event := m\<rparr>) = verdict s"
  by (simp_all add: verdict_def)

lemma verdict_select [simp]:
  "protocol (verdict s) = protocol s" "chat_id (verdict s) = chat_id s" "model_id (verdict s) = model_id s"
  "saw_terminal (verdict s) = saw_terminal s" "saw_error (verdict s) = saw_error s"
  "last_sequence_number (verdict s) = last_sequence_number s"
  by (simp_all add: verdict_def)

lemma verdict_update [simp]:
  "verdict (s\<lparr>saw_terminal := t\<rparr>) = (verdict s)\<lparr>saw_terminal := t\<rparr>"
  "verdict (s\<lparr>saw_error := e\<rparr>) = (verdict s)\<lparr>saw_error := e\<rparr>"
  "verdict (s\<lparr>chat_id := c\<rparr>) = (verdict s)\<lparr>chat_id := c\<rparr>"
  "verdict (s\<lparr>model_id := m\<rparr>) = (verdict s)\<lparr>model_id := m\<rparr>"
  "verdict (s\<lparr>last_sequence_number := n\<rparr>) = (verdict s)\<lparr>last_sequence_number := n\<rparr>"
  by (simp_all add: verdict_def)

lemma observe_terminal_verdict: "verdict (observe_terminal v s) = observe_terminal v (verdict s)"
  by (simp add: observe_terminal_def Let_def split: option.splits)

lemma dispatch_payload_verdict: "verdict (dispatch_payload L p s) = dispatch_payload L p (verdict s)"
  by (auto simp: dispatch_payload_def Let_def observe_terminal_verdict [symmetric] split: option.splits)

lemma observe_line_verdict:
  "verdict (observe_line L line s) =
     (if line = [] \<and> event_data s \<noteq> [] then dispatch_payload L (pop_lf (event_data s)) (verdict s)
      else verdict s)"
  by (simp add: observe_line_def dispatch_event_def Let_def dispatch_payload_verdict split: option.splits)

lemma observe_plain:
  assumes "\<not> observer_done s" and "CR \<notin> set l" and "LF \<notin> set l"
    and "length (line_buffer s) + length (event_data s) + length l \<le> MAX_OBSERVED_EVENT_BYTES"
  shows "observe L s l = s\<lparr>line_buffer := line_buffer s @ l, pending_cr := (pending_cr s \<and> l = [])\<rparr>"
  using assms
proof (induction l arbitrary: s)
  case (Cons b l)
  have "b \<noteq> CR" "b \<noteq> LF" using Cons.prems by auto
  then have "observe L s [b] = s\<lparr>line_buffer := line_buffer s @ [b], pending_cr := False\<rparr>"
    using Cons.prems by (simp add: observe_def Let_def)
  moreover have "observe L s (b # l) = observe L (observe L s [b]) l" by (rule observe_Cons)
  ultimately show ?case using Cons by simp
qed (simp add: observe_Nil)

lemma pending_cr_commute:
  "s\<lparr>pending_cr := c, event_data := d\<rparr> = s\<lparr>event_data := d, pending_cr := c\<rparr>"
  "s\<lparr>pending_cr := c, line_buffer := l\<rparr> = s\<lparr>line_buffer := l, pending_cr := c\<rparr>"
  by simp_all

lemma observe_terminal_pending:
  "observe_terminal v (s\<lparr>pending_cr := c\<rparr>) = (observe_terminal v s)\<lparr>pending_cr := c\<rparr>"
  by (simp add: observe_terminal_def Let_def split: option.splits)

lemma dispatch_payload_pending:
  "dispatch_payload L p (s\<lparr>pending_cr := c\<rparr>) = (dispatch_payload L p s)\<lparr>pending_cr := c\<rparr>"
  by (auto simp: dispatch_payload_def Let_def observe_terminal_pending split: option.splits)

lemma observe_line_pending:
  "observe_line L l (s\<lparr>pending_cr := c\<rparr>) = (observe_line L l s)\<lparr>pending_cr := c\<rparr>"
proof -
  have "dispatch_event L (s\<lparr>pending_cr := c\<rparr>) = (dispatch_event L s)\<lparr>pending_cr := c\<rparr>"
    by (simp add: dispatch_event_def pending_cr_commute dispatch_payload_pending)
  then show ?thesis by (simp add: observe_line_def Let_def split: option.splits)
qed

text \<open>One line with its terminator, seen from a state between lines.\<close>

lemma observe_framed_line:
  assumes "\<not> observer_done s" and "line_buffer s = []" and "CR \<notin> set l" and "LF \<notin> set l"
    and "eol \<in> set eols" and "pending_cr s \<Longrightarrow> eol = [CR]"
    and "length (event_data s) + length l \<le> MAX_OBSERVED_EVENT_BYTES"
  shows "\<exists>c. observe L s (l @ eol) = (observe_line L l (s\<lparr>pending_cr := c, line_buffer := []\<rparr>)) \<and>
    (c \<longrightarrow> eol = [CR] \<or> observer_done (observe L s (l @ eol)))"
proof -
  define s1 where "s1 = observe L s l"
  have s1: "s1 = s\<lparr>line_buffer := l, pending_cr := (pending_cr s \<and> l = [])\<rparr>"
    using observe_plain [of s l L] assms by (simp add: s1_def)
  have size: "length (event_data (observe_line L l (s\<lparr>pending_cr := c, line_buffer := []\<rparr>)))
      \<le> MAX_OBSERVED_EVENT_BYTES" for c
    using assms(7) field_data_length [of l] by (simp add: observe_line_event_data)
  have nl: "observe L s1 [b] = observe_line L l (s\<lparr>pending_cr := (b = CR), line_buffer := []\<rparr>)"
    if "b = CR \<or> b = LF" "pending_cr s1 \<Longrightarrow> b = CR" for b
    using that assms(1,2) size [of "b = CR"] by (auto simp: s1 observe_def Let_def)
  have pend: "pending_cr s1 \<Longrightarrow> eol = [CR]" using assms(6) by (simp add: s1)
  have split: "observe L s (l @ eol) = observe L s1 eol" by (simp add: observe_append s1_def)
  consider "eol = [LF]" | "eol = [CR]" | "eol = [CR, LF]" using assms(5) by (auto simp: eols_def)
  then show ?thesis
  proof cases
    case 1
    then show ?thesis using nl [of LF] pend split by (intro exI [of _ False]) auto
  next
    case 2
    then show ?thesis using nl [of CR] split by (intro exI [of _ True]) auto
  next
    case 3
    define s2 where "s2 = observe_line L l (s\<lparr>pending_cr := True, line_buffer := []\<rparr>)"
    have "observe L s (l @ eol) = observe L s2 [LF]"
      using 3 split nl [of CR] observe_append [of L s1 "[CR]" "[LF]"] by (simp add: s2_def)
    moreover have "observe L s2 [LF] = observe_line L l (s\<lparr>pending_cr := False, line_buffer := []\<rparr>)"
      if "\<not> observer_done s2"
      using that by (simp add: s2_def observe_def Let_def pending_cr_commute observe_line_pending)
    ultimately show ?thesis
      by (cases "observer_done s2") (auto simp: observe_done s2_def)
  qed
qed

definition plain_lines :: "bytes list \<Rightarrow> bool" where
  "plain_lines lines = list_all (\<lambda>l. CR \<notin> set l \<and> LF \<notin> set l) lines"

lemma judge_done: "observer_done s \<Longrightarrow> foldl (judge L) s ps = s"
  by (induction ps) (simp_all add: judge_def)

lemma observe_framed:
  assumes "eol \<in> set eols" and "plain_lines lines" and "line_buffer s = []" and "pending_cr s \<Longrightarrow> eol = [CR]"
    and "length (event_data s) + length (concat lines) \<le> MAX_OBSERVED_EVENT_BYTES"
  shows "verdict (observe L s (framed eol lines)) = foldl (judge L) (verdict s) (sse_payloads (event_data s) lines)"
  using assms(2-)
proof (induction lines arbitrary: s)
  case (Cons l lines)
  show ?case
  proof (cases "observer_done s")
    case False
    define s' where "s' = observe L s (l @ eol)"
    obtain c where s': "s' = observe_line L l (s\<lparr>pending_cr := c, line_buffer := []\<rparr>)"
      and c: "c \<longrightarrow> eol = [CR] \<or> observer_done s'"
      using observe_framed_line [OF False Cons.prems(2) _ _ assms(1), of l L] Cons.prems
      unfolding s'_def plain_lines_def by fastforce
    have split: "observe L s (framed eol (l # lines)) = observe L s' (framed eol lines)"
      by (simp add: framed_def s'_def observe_append)
    have v: "verdict s' = (if l = [] \<and> event_data s \<noteq> [] then dispatch_payload L (pop_lf (event_data s)) (verdict s)
        else verdict s)"
      by (simp add: s' observe_line_verdict)
    have ed: "event_data s' = (if l = [] then [] else event_data s @ field_data l)"
      by (simp add: s' observe_line_event_data)
    have payloads: "foldl (judge L) (verdict s) (sse_payloads (event_data s) (l # lines))
        = foldl (judge L) (verdict s') (sse_payloads (event_data s') lines)"
      using False by (simp add: v ed judge_def)
    show ?thesis
    proof (cases "observer_done s'")
      case True
      then show ?thesis unfolding split payloads by (simp add: observe_done judge_done)
    next
      case False
      have "length (event_data s') + length (concat lines) \<le> MAX_OBSERVED_EVENT_BYTES"
        using Cons.prems(4) field_data_length [of l] by (auto simp: ed)
      moreover have "pending_cr s' \<Longrightarrow> eol = [CR]" using c False by (simp add: s')
      ultimately show ?thesis
        unfolding split payloads using Cons.prems(1) by (intro Cons.IH) (simp_all add: plain_lines_def s')
    qed
  qed (simp add: observe_done judge_done)
qed (simp add: framed_def observe_Nil)

lemma observe_framed_start:
  assumes "eol \<in> set eols" and "plain_lines lines" and "length (concat lines) \<le> MAX_OBSERVED_EVENT_BYTES"
  shows "verdict (observe L (with_protocol p) (framed eol lines))
    = foldl (judge L) (with_protocol p) (sse_payloads [] lines)"
  using observe_framed [OF assms(1,2), of "with_protocol p" L] assms(3)
  by (simp add: with_protocol_def verdict_def)

lemma observe_framed_done:
  assumes "eol \<in> set eols" and "plain_lines lines" and "length (concat lines) \<le> MAX_OBSERVED_EVENT_BYTES"
  shows "observer_done (observe L (with_protocol p) (framed eol lines))
    = observer_done (foldl (judge L) (with_protocol p) (sse_payloads [] lines))"
  by (simp flip: observe_framed_start [OF assms, of L p])

text \<open>The same for any bytes. A line ends at LF, at CR or at CRLF, in any mixture; what follows the last
  line end is not a line yet.\<close>

definition skip_lf :: "bytes \<Rightarrow> bytes" where
  "skip_lf bs = (case bs of [] \<Rightarrow> [] | b # rest \<Rightarrow> if b = LF then rest else bs)"

lemma skip_lf_length [termination_simp]: "length (skip_lf bs) \<le> length bs"
  by (simp add: skip_lf_def split: list.split)

fun sse_lines :: "bytes \<Rightarrow> bytes \<Rightarrow> bytes list" where
  "sse_lines cur [] = []"
| "sse_lines cur (b # bs) =
     (if b = LF then cur # sse_lines [] bs
      else if b = CR then cur # sse_lines [] (skip_lf bs)
      else sse_lines (cur @ [b]) bs)"

text \<open>How much a stream leaves open at its end: the unfinished line and the data of the unfinished event.\<close>

fun sse_open :: "bytes \<Rightarrow> bytes \<Rightarrow> bytes \<Rightarrow> nat" where
  "sse_open cur buf [] = length cur + length buf"
| "sse_open cur buf (b # bs) =
     (if b = LF \<or> b = CR then
        sse_open [] (if cur = [] then [] else buf @ field_data cur) (if b = CR then skip_lf bs else bs)
      else sse_open (cur @ [b]) buf bs)"

lemma sse_open_length: "sse_open cur buf bs \<le> length cur + length buf + length bs"
proof (induction cur buf bs rule: sse_open.induct)
  case (2 cur buf b bs)
  show ?case
  proof (cases "b = LF \<or> b = CR")
    case True
    then show ?thesis using 2(1) field_data_length [of cur] skip_lf_length [of bs] by (simp split: if_splits)
  next
    case False
    then show ?thesis using 2(2) by simp
  qed
qed simp

text \<open>What is left to read once a line feed that completes a CRLF is skipped.\<close>

definition unread :: "sse_framing_observer \<Rightarrow> bytes \<Rightarrow> bytes" where
  "unread s bs = (if pending_cr s then skip_lf bs else bs)"

lemma unread_Nil [simp]: "unread s [] = []"
  by (simp add: unread_def skip_lf_def)

text \<open>One byte: it completes a CRLF, ends a line, or is held back.\<close>

lemma observe_byte_cases:
  assumes "\<not> observer_done s"
  obtains (crlf) "pending_cr s" "b = LF" "observe L s [b] = s\<lparr>pending_cr := False\<rparr>"
  | (newline) t where "b = CR \<or> b = LF" "pending_cr s \<longrightarrow> b = CR"
      "t = observe_line L (line_buffer s) (s\<lparr>pending_cr := (b = CR), line_buffer := []\<rparr>)"
      "observer_done t \<or> length (event_data t) \<le> MAX_OBSERVED_EVENT_BYTES" "observe L s [b] = t"
  | (plain) t where "b \<noteq> CR" "b \<noteq> LF" "t = s\<lparr>pending_cr := False, line_buffer := line_buffer s @ [b]\<rparr>"
      "observe L s [b] = t"
  | (over) "\<not> (pending_cr s \<and> b = LF)" "observation_failed (observe L s [b])"
      "sse_open (line_buffer s) (event_data s) [b] > MAX_OBSERVED_EVENT_BYTES"
proof -
  let ?t = "observe_line L (line_buffer s) (s\<lparr>pending_cr := (b = CR), line_buffer := []\<rparr>)"
  have ev: "event_data ?t = (if line_buffer s = [] then [] else event_data s @ field_data (line_buffer s))"
    by (simp add: observe_line_event_data)
  consider "pending_cr s" "b = LF"
    | "b = CR \<or> b = LF" "pending_cr s \<longrightarrow> b = CR" "observer_done ?t \<or> length (event_data ?t) \<le> MAX_OBSERVED_EVENT_BYTES"
    | "b = CR \<or> b = LF" "pending_cr s \<longrightarrow> b = CR" "\<not> observer_done ?t" "length (event_data ?t) > MAX_OBSERVED_EVENT_BYTES"
    | "b \<noteq> CR" "b \<noteq> LF" by fastforce
  then show thesis
  proof cases
    case 1
    then show thesis using assms by (intro crlf) (simp_all add: observe_def Let_def)
  next
    case 2
    then show thesis using assms by (intro newline [of ?t]) (auto simp: observe_def Let_def)
  next
    case 3
    then have "observation_failed (observe L s [b])" using assms by (auto simp: observe_def Let_def)
    moreover have "sse_open (line_buffer s) (event_data s) [b] > MAX_OBSERVED_EVENT_BYTES"
      using 3 ev by (auto simp: skip_lf_def)
    ultimately show thesis using 3(2) by (intro over) auto
  next
    case 4
    then show thesis
      using assms by (cases "length (line_buffer s @ [b]) + length (event_data s) > MAX_OBSERVED_EVENT_BYTES")
        (auto intro: over plain simp: observe_def Let_def)
  qed
qed

lemma observe_any:
  assumes "\<not> observation_failed (observe L s bs)"
  shows "verdict (observe L s bs)
    = foldl (judge L) (verdict s) (sse_payloads (event_data s) (sse_lines (line_buffer s) (unread s bs)))"
  using assms
proof (induction bs arbitrary: s)
  case (Cons b bs)
  show ?case
  proof (cases "observer_done s")
    case False
    have split: "observe L s (b # bs) = observe L (observe L s [b]) bs" by (rule observe_Cons)
    from False show ?thesis
    proof (cases rule: observe_byte_cases [where b = b and L = L])
      case crlf
      have "observe L s (b # bs) = observe L (s\<lparr>pending_cr := False\<rparr>) bs" by (simp only: split crlf(3))
      then show ?thesis using Cons.IH [of "s\<lparr>pending_cr := False\<rparr>"] Cons.prems crlf(1,2)
        by (simp add: unread_def skip_lf_def)
    next
      case (newline t)
      have un: "unread s (b # bs) = b # bs" using newline(2) by (auto simp: unread_def skip_lf_def)
      have t: "event_data t = (if line_buffer s = [] then [] else event_data s @ field_data (line_buffer s))"
        "line_buffer t = []" "pending_cr t = (b = CR)"
        using newline(3) by (simp_all add: observe_line_event_data)
      have v: "verdict t = (if line_buffer s = [] \<and> event_data s \<noteq> []
          then dispatch_payload L (pop_lf (event_data s)) (verdict s) else verdict s)"
        using newline(3) by (simp add: observe_line_verdict)
      have "sse_lines (line_buffer s) (b # bs) = line_buffer s # sse_lines (line_buffer t) (unread t bs)"
        using newline(1) t by (auto simp: unread_def)
      then have "foldl (judge L) (verdict s) (sse_payloads (event_data s) (sse_lines (line_buffer s) (b # bs)))
          = foldl (judge L) (verdict t) (sse_payloads (event_data t) (sse_lines (line_buffer t) (unread t bs)))"
        using False by (simp add: v t(1) judge_def)
      moreover have "verdict (observe L t bs)
          = foldl (judge L) (verdict t) (sse_payloads (event_data t) (sse_lines (line_buffer t) (unread t bs)))"
        using Cons.IH [of t] Cons.prems split newline(5) by simp
      ultimately show ?thesis unfolding split newline(5) un by simp
    next
      case (plain t)
      then have "unread s (b # bs) = b # bs" by (auto simp: unread_def skip_lf_def)
      then show ?thesis using plain Cons.IH [of t] Cons.prems by (simp add: split unread_def)
    next
      case over
      then have "observer_done (observe L s [b])" by (simp add: observer_done_def)
      then have "observe L s (b # bs) = observe L s [b]" unfolding split by (rule observe_done)
      then show ?thesis using Cons.prems over(2) by simp
    qed
  qed (simp add: observe_done judge_done)
qed (simp add: observe_Nil)

lemma observe_fails_over_cap:
  assumes "observation_failed (observe L s bs)" and "\<not> observation_failed s"
  shows "\<exists>pre post. unread s bs = pre @ post \<and>
    sse_open (line_buffer s) (event_data s) pre > MAX_OBSERVED_EVENT_BYTES"
  using assms
proof (induction bs arbitrary: s)
  case (Cons b bs)
  show ?case
  proof (cases "observer_done s")
    case False
    have split: "observe L s (b # bs) = observe L (observe L s [b]) bs" by (rule observe_Cons)
    from False show ?thesis
    proof (cases rule: observe_byte_cases [where b = b and L = L])
      case crlf
      have "observe L s (b # bs) = observe L (s\<lparr>pending_cr := False\<rparr>) bs" by (simp only: split crlf(3))
      then show ?thesis using Cons.IH [of "s\<lparr>pending_cr := False\<rparr>"] Cons.prems crlf(1,2)
        by (simp add: unread_def skip_lf_def)
    next
      case (newline t)
      have un: "unread s (b # bs) = b # bs" using newline(2) by (auto simp: unread_def skip_lf_def)
      have t: "event_data t = (if line_buffer s = [] then [] else event_data s @ field_data (line_buffer s))"
        "line_buffer t = []" "pending_cr t = (b = CR)" "observation_failed t = observation_failed s"
        using newline(3) by (simp_all add: observe_line_event_data)
      obtain pre post where pre: "unread t bs = pre @ post"
        "sse_open (line_buffer t) (event_data t) pre > MAX_OBSERVED_EVENT_BYTES"
        using Cons.IH [of t] Cons.prems t(4) split newline(5) by auto
      define full where "full = b # (if b = CR \<and> skip_lf bs \<noteq> bs then LF # pre else pre)"
      have "b # bs = full @ post"
        using pre(1) t(3) by (auto simp: full_def unread_def skip_lf_def split: list.splits if_splits)
      moreover have "sse_open (line_buffer s) (event_data s) full = sse_open (line_buffer t) (event_data t) pre"
      proof -
        have "skip_lf pre = pre" if "b = CR" "skip_lf bs = bs"
          using pre(1) t(3) that by (cases pre) (auto simp: unread_def skip_lf_def split: list.splits if_splits)
        then have "(if b = CR then skip_lf (tl full) else tl full) = pre"
          by (auto simp: full_def skip_lf_def [of "LF # pre"])
        then show ?thesis using newline(1) t(1,2) by (auto simp: full_def)
      qed
      ultimately show ?thesis unfolding un using pre(2) by fastforce
    next
      case (plain t)
      have un: "unread s (b # bs) = b # bs" using plain by (auto simp: unread_def skip_lf_def)
      obtain pre post where pre: "unread t bs = pre @ post"
        "sse_open (line_buffer t) (event_data t) pre > MAX_OBSERVED_EVENT_BYTES"
        using Cons.IH [of t] Cons.prems split plain(3,4) by auto
      then have "b # bs = (b # pre) @ post" and "sse_open (line_buffer s) (event_data s) (b # pre) > MAX_OBSERVED_EVENT_BYTES"
        using plain(1-3) by (simp_all add: unread_def)
      then show ?thesis unfolding un by blast
    next
      case over
      then have "unread s (b # bs) = [b] @ bs" by (auto simp: unread_def skip_lf_def)
      then show ?thesis using over(3) by blast
    qed
  qed (use Cons.prems in \<open>simp add: observe_done\<close>)
qed (simp add: observe_Nil)

text \<open>C19: The observer implements SSE dispatch, for every stream of bytes. Cut the stream at LF, CR and
  CRLF in any mixture; unless the observer has given up, its judgement (identifiers, terminal, error,
  numbering) is that of the payloads the complete lines dispatch, taken in order until nothing is left to
  learn, so a payload counts only once a blank line dispatches it. It gives up only when some beginning of
  the stream leaves more than 16 MiB open, in one unfinished line and the data of its event; however long the
  stream is, many small events never make it give up.\<close>

theorem observer_refines_dispatch:
  "(observation_usable (observe L (with_protocol p) stream) \<longrightarrow>
      verdict (observe L (with_protocol p) stream)
        = foldl (judge L) (with_protocol p) (sse_payloads [] (sse_lines [] stream))) \<and>
   (\<not> observation_usable (observe L (with_protocol p) stream) \<longrightarrow>
      (\<exists>pre post. stream = pre @ post \<and> sse_open [] [] pre > MAX_OBSERVED_EVENT_BYTES))"
proof -
  have "\<not> observation_failed (with_protocol p)" and "verdict (with_protocol p) = with_protocol p"
    and "event_data (with_protocol p) = []" "line_buffer (with_protocol p) = []" "unread (with_protocol p) stream = stream"
    by (simp_all add: with_protocol_def verdict_def unread_def)
  then show ?thesis
    using observe_any [of L "with_protocol p" stream] observe_fails_over_cap [of L "with_protocol p" stream]
    by (simp add: observation_usable_def)
qed

text \<open>A stream whose lines end in CR, LF and CRLF: the terminal counts with the blank line, not before.\<close>

theorem observer_refines_dispatch_witness:
  "saw_terminal (observe sample_lib (with_protocol (Some OpenaiChat)) (''data: [DONE]'' @ [CR, LF, CR])) \<and>
   \<not> saw_terminal (observe sample_lib (with_protocol (Some OpenaiChat)) ('':'' @ [LF] @ ''data: [DONE]'' @ [CR, LF]))"
proof -
  let ?s = "with_protocol (Some OpenaiChat)"
  let ?a = "''data: [DONE]'' @ [CR, LF, CR]" and ?b = "'':'' @ [LF] @ ''data: [DONE]'' @ [CR, LF]"
  have usable: "observation_usable (observe sample_lib ?s x)" if "length x \<le> 20" for x
  proof (rule ccontr)
    assume "\<not> observation_usable (observe sample_lib ?s x)"
    then obtain pre post where "x = pre @ post" "sse_open [] [] pre > MAX_OBSERVED_EVENT_BYTES"
      using observer_refines_dispatch [of sample_lib "Some OpenaiChat" x] by blast
    then show False using sse_open_length [of "[]" "[]" pre] that by (simp add: MAX_OBSERVED_EVENT_BYTES_def)
  qed
  have "sse_payloads [] (sse_lines [] ?a) = [''[DONE]'']" and "sse_payloads [] (sse_lines [] ?b) = []" by code_simp+
  then have "verdict (observe sample_lib ?s ?a) = judge sample_lib ?s ''[DONE]''"
    and "verdict (observe sample_lib ?s ?b) = ?s"
    using observer_refines_dispatch [of sample_lib "Some OpenaiChat"] usable [of ?a] usable [of ?b]
    by (simp_all del: sse_lines.simps)
  then have "saw_terminal (verdict (observe sample_lib ?s ?a))" and "\<not> saw_terminal (verdict (observe sample_lib ?s ?b))"
    by (simp_all add: judge_def observer_done_def dispatch_payload_def with_protocol_def)
  then show ?thesis by simp
qed

section \<open>The gateway's error tail\<close>

text \<open>What the tail relies on of the JSON package for the value it prints: an object prints on one line,
  from its opening brace, and reads back.\<close>

definition prints_object :: "'x lib_scheme \<Rightarrow> json \<Rightarrow> bool" where
  "prints_object L v = (from_slice L (to_vec L v) = Some v \<and> CR \<notin> set (to_vec L v) \<and> LF \<notin> set (to_vec L v)
     \<and> starts_with ''{'' (to_vec L v))"

definition tail_lines :: "sse_protocol \<Rightarrow> bytes \<Rightarrow> bytes list" where
  "tail_lines p body = (case p of OpenaiChat \<Rightarrow> [''data: '' @ body, [], ''data: [DONE]'', []]
     | _ \<Rightarrow> [''event: error'', ''data: '' @ body, []])"

lemma stream_error_event_framed:
  "stream_error_event L p status rid n =
     [LF, LF] @ framed [LF] (tail_lines p (to_vec L (stream_error_body p status rid n)))"
  by (cases p) (simp_all add: stream_error_event_def tail_lines_def framed_def Let_def)

lemma tail_payloads:
  assumes "starts_with ''{'' body"
  shows "sse_payloads [] (tail_lines p body) = body # (case p of OpenaiChat \<Rightarrow> [''[DONE]''] | _ \<Rightarrow> [])"
proof -
  have "strip_prefix '' '' ('' '' @ body) = Some body" by simp
  then have "field_data (''data: '' @ body) = body @ [LF]" by (simp add: field_data_def starts_with_def)
  moreover have "field_data ''event: error'' = []" and "field_data ''data: [DONE]'' = ''[DONE]'' @ [LF]" by code_simp+
  ultimately show ?thesis by (cases p) (simp_all add: tail_lines_def pop_lf_def)
qed

lemma stream_error_body_is_error: "is_error_event (stream_error_body p status rid n)"
  by (cases p)
     (auto simp: is_error_event_def stream_error_body_def Let_def jget_str_def envelope_def non_null_def
        responses_error_event_def chat_gateway_error_def split: option.splits)

text \<open>Two line feeds bring any live stream to an event boundary, whatever it was in the middle of.\<close>

lemma observe_resync:
  assumes "\<not> observer_done s" and "observer_wf s" and "\<not> observer_done (observe L s [LF, LF])"
  shows "line_buffer (observe L s [LF, LF]) = [] \<and> event_data (observe L s [LF, LF]) = [] \<and>
    \<not> pending_cr (observe L s [LF, LF]) \<and> protocol (observe L s [LF, LF]) = protocol s"
proof -
  have ev: "length (event_data (observe_line L (line_buffer s) (s\<lparr>pending_cr := c, line_buffer := l\<rparr>)))
      \<le> MAX_OBSERVED_EVENT_BYTES" for c l
    using assms(2) field_data_length [of "line_buffer s"]
    by (simp add: observer_wf_def buffered_def observe_line_event_data)
  show ?thesis
    using assms ev by (auto simp: observer_wf_def observe_def Let_def observe_line_event_data split: if_splits)
qed

lemma observe_protocol [simp]: "protocol (observe L s xs) = protocol s"
  by (rule sse.push_invariant [where P = "\<lambda>t. protocol t = protocol s"])
     (auto simp: observe_def Let_def)

lemma observe_terminal_saw_error:
  "saw_error (observe_terminal v s) = (saw_error s \<or> protocol s \<noteq> None \<and> is_error_event v)"
  by (auto simp: observe_terminal_def Let_def split: option.splits)

lemma dispatch_payload_saw_error:
  "saw_error (dispatch_payload L data s) = (saw_error s \<or> data \<noteq> ''[DONE]'' \<and> protocol s \<noteq> None \<and>
     (\<exists>v. from_slice L data = Some v \<and> is_error_event v))"
  by (auto simp: dispatch_payload_def Let_def observe_terminal_saw_error split: option.splits)

lemma saw_error_kept: "saw_error s \<Longrightarrow> saw_error (foldl (judge L) s ps)"
  by (induction ps arbitrary: s)
     (auto simp: judge_def dispatch_payload_saw_error)

lemma judge_error_body:
  assumes "prints_object L (stream_error_body p status rid n)" and "protocol s = Some p" and "\<not> observer_done s"
  shows "saw_error (judge L s (to_vec L (stream_error_body p status rid n)))"
proof -
  have "to_vec L (stream_error_body p status rid n) \<noteq> ''[DONE]''"
    using assms(1) by (auto simp: prints_object_def starts_with_def)
  then show ?thesis
    using assms stream_error_body_is_error [of p status rid n]
    by (simp add: prints_object_def judge_def dispatch_payload_saw_error)
qed

text \<open>A broken stream ends visibly. Whatever a stream was in the middle of (a line, an event, a CRLF)
  when it broke, appending the gateway's error event makes the observer, and so a client that parses SSE
  as it does, see an error; the one exception is that the event left undispatched already ended the stream.\<close>

theorem error_tail_observed:
  assumes live: "\<not> observer_done (foldl (observe L) (with_protocol (Some p)) chunks)"
    and prints: "prints_object L (stream_error_body p status rid n)"
    and small: "length (to_vec L (stream_error_body p status rid n)) + 100 \<le> MAX_OBSERVED_EVENT_BYTES"
  shows "saw_error (foldl (observe L) (with_protocol (Some p)) (chunks @ [stream_error_event L p status rid n])) \<or>
    observer_done (foldl (observe L) (with_protocol (Some p)) (chunks @ [[LF, LF]]))"
proof -
  define s where "s = foldl (observe L) (with_protocol (Some p)) chunks"
  define s2 where "s2 = observe L s [LF, LF]"
  let ?body = "to_vec L (stream_error_body p status rid n)"
  have s: "observer_wf s" "protocol s = Some p"
    unfolding s_def sse.push_chunks by (simp_all add: observe_wf with_protocol_wf) (simp add: with_protocol_def)
  have "saw_error (observe L s (stream_error_event L p status rid n))" if "\<not> observer_done s2"
  proof -
    have s2: "line_buffer s2 = []" "event_data s2 = []" "\<not> pending_cr s2" "protocol s2 = Some p"
      using observe_resync [OF live [folded s_def] s(1), of L] that s(2) by (simp_all add: s2_def)
    have "verdict (observe L s2 (framed [LF] (tail_lines p ?body)))
        = foldl (judge L) (verdict s2) (sse_payloads [] (tail_lines p ?body))"
      using observe_framed [of "[LF]" "tail_lines p ?body" s2 L] s2 prints small
      by (cases p) (auto simp: eols_def plain_lines_def tail_lines_def prints_object_def)
    moreover have "saw_error (judge L (verdict s2) ?body)"
      using judge_error_body [OF prints] s2 that by simp
    ultimately have "saw_error (verdict (observe L s2 (framed [LF] (tail_lines p ?body))))"
      using prints by (simp add: tail_payloads prints_object_def saw_error_kept)
    then show ?thesis by (simp add: stream_error_event_framed observe_append [of L s] s2_def del: append_Cons)
  qed
  then show ?thesis by (auto simp: s_def s2_def)
qed

text \<open>A stand-in printer that writes the body of one error event as an object without members.\<close>

definition sample_sse_body :: json where
  "sample_sse_body = stream_error_body OpenaiResponses 502 None (Some 7)"

definition sample_sse_lib :: lib where
  "sample_sse_lib = sample_lib\<lparr>to_vec := (\<lambda>v. ''{}''),
     from_slice := (\<lambda>b. if b = ''{}'' then Some sample_sse_body else None)\<rparr>"

theorem error_tail_observed_witness:
  "saw_error (foldl (observe sample_sse_lib) (with_protocol (Some OpenaiResponses))
     ([''data: {'' @ [LF]] @ [stream_error_event sample_sse_lib OpenaiResponses 502 None (Some 7)]))"
proof -
  let ?s = "with_protocol (Some OpenaiResponses)"
  have payloads: "sse_payloads [] [''data: {''] = []" "sse_payloads [] [''data: {'', [], []] = [''{'']" by code_simp+
  have start: "\<not> observer_done ?s" by (simp add: observer_done_def with_protocol_def)
  have framing: "[LF] \<in> set eols" "plain_lines [''data: {'']" "plain_lines [''data: {'', [], []]"
    "length (concat [''data: {'']) \<le> MAX_OBSERVED_EVENT_BYTES"
    "length (concat [''data: {'', [], []]) \<le> MAX_OBSERVED_EVENT_BYTES"
    by (simp_all add: eols_def plain_lines_def MAX_OBSERVED_EVENT_BYTES_def)
  have live: "\<not> observer_done (observe sample_sse_lib ?s (framed [LF] [''data: {'']))"
    unfolding observe_framed_done [OF framing(1,2,4)] payloads by (simp add: start)
  have live': "\<not> observer_done (observe sample_sse_lib ?s (framed [LF] [''data: {'', [], []]))"
    unfolding observe_framed_done [OF framing(1,3,5)] payloads
    by (simp add: judge_def dispatch_payload_def sample_sse_lib_def start)
  have "framed [LF] [''data: {''] = concat [''data: {'' @ [LF]]"
    and "framed [LF] [''data: {'', [], []] = concat ([''data: {'' @ [LF]] @ [[LF, LF]])"
    by (simp_all add: framed_def)
  note live = live [unfolded this(1), folded sse.push_chunks] and live' = live' [unfolded this(2), folded sse.push_chunks]
  have "prints_object sample_sse_lib (stream_error_body OpenaiResponses 502 None (Some 7))"
    and "length (to_vec sample_sse_lib (stream_error_body OpenaiResponses 502 None (Some 7))) + 100
      \<le> MAX_OBSERVED_EVENT_BYTES"
    by (simp_all add: prints_object_def sample_sse_lib_def sample_sse_body_def starts_with_def
        MAX_OBSERVED_EVENT_BYTES_def)
  from error_tail_observed [OF live this] live' show ?thesis by blast
qed

end
