(* ===== verification/Streaming.thy ===== *)
theory Streaming
  imports E2eeFields SseFraming ReceiptStore
begin

text \<open>
  Response streams (\<open>src/aggregator/service/streaming.rs\<close>): the transformer that encrypts the events of a stream, and the
  finaliser that hashes what the client receives, ends a stream that stopped short, and signs and stores the receipt. The
  source of a stream is the list of the answers it will give when polled; \<open>sha2\<close>'s incremental hasher is the bytes it was
  given. Metrics and log lines are not modelled.
\<close>

section \<open>Encrypting the events of a stream\<close>

text \<open>\<open>tr_count\<close> numbers the encrypted events; \<open>rnd n k\<close> is the \<open>k\<close>-th random draw of the \<open>n\<close>-th of them. A transformer that
  failed is never used again, so an error carries no state.\<close>

record e2ee_sse_transformer =
  tr_line_buffer :: bytes
  tr_event_lines :: "bytes list"
  tr_ctx :: e2ee_request_context
  tr_endpoint_path :: string
  tr_count :: nat

definition transformer_new :: "e2ee_request_context \<Rightarrow> string \<Rightarrow> e2ee_sse_transformer" where
  "transformer_new ctx endpoint_path = \<lparr>tr_line_buffer = [], tr_event_lines = [], tr_ctx = ctx, tr_endpoint_path = endpoint_path, tr_count = 0\<rparr>"

definition is_sse_data_line :: "bytes \<Rightarrow> bool" where
  "is_sse_data_line line = (strip_prefix ''data:'' line \<noteq> None)"

definition serialize_original_sse_event :: "bytes list \<Rightarrow> bytes" where
  "serialize_original_sse_event lines = concat (map (\<lambda>line. line @ [LF]) lines) @ [LF]"

text \<open>The loop of \<open>sse_event_data\<close>; \<open>None\<close> is \<open>found == false\<close>.\<close>

fun sse_event_data :: "bytes option \<Rightarrow> bytes list \<Rightarrow> bytes option" where
  "sse_event_data out [] = out"
| "sse_event_data out (line # lines) =
     (if starts_with '':'' line then sse_event_data out lines
      else case strip_prefix ''data:'' line of
          None \<Rightarrow> sse_event_data out lines
        | Some rest \<Rightarrow>
            let data = (case strip_prefix '' '' rest of Some r \<Rightarrow> r | None \<Rightarrow> rest)
            in sse_event_data (Some (case out of None \<Rightarrow> data | Some o' \<Rightarrow> o' @ [LF] @ data)) lines)"

definition e2ee_dispatch_event ::
  "'x crypto_scheme \<Rightarrow> (nat \<Rightarrow> nat \<Rightarrow> draw) \<Rightarrow> e2ee_sse_transformer \<Rightarrow> e2ee_error + bytes \<times> e2ee_sse_transformer" where
  "e2ee_dispatch_event C rnd tr =
     (let lines = tr_event_lines tr; tr = tr\<lparr>tr_event_lines := []\<rparr>
      in if lines = [] then Inr ([], tr)
         else case sse_event_data None lines of
             None \<Rightarrow> Inr (serialize_original_sse_event lines, tr)
           | Some data \<Rightarrow>
               if data = ''[DONE]'' then Inr (serialize_original_sse_event lines, tr)
               else and_then (encrypt_e2ee_stream_payload C (rnd (tr_count tr)) data (tr_ctx tr) (tr_endpoint_path tr)) (\<lambda>payload.
                 Inr (concat (map (\<lambda>line. line @ [LF]) (filter (\<lambda>line. \<not> is_sse_data_line line) lines))
                        @ ''data: '' @ payload @ [LF, LF], tr\<lparr>tr_count := Suc (tr_count tr)\<rparr>)))"

definition e2ee_observe_line ::
  "'x crypto_scheme \<Rightarrow> (nat \<Rightarrow> nat \<Rightarrow> draw) \<Rightarrow> bytes \<Rightarrow> e2ee_sse_transformer \<Rightarrow> e2ee_error + bytes \<times> e2ee_sse_transformer" where
  "e2ee_observe_line C rnd line tr =
     (if line = [] then e2ee_dispatch_event C rnd tr
      else Inr ([], tr\<lparr>tr_event_lines := tr_event_lines tr @ [line]\<rparr>))"

definition pop_cr :: "bytes \<Rightarrow> bytes" where
  "pop_cr line = (if line \<noteq> [] \<and> last line = CR then butlast line else line)"

fun push_chunk ::
  "'x crypto_scheme \<Rightarrow> (nat \<Rightarrow> nat \<Rightarrow> draw) \<Rightarrow> bytes \<Rightarrow> e2ee_sse_transformer \<Rightarrow> e2ee_error + bytes \<times> e2ee_sse_transformer" where
  "push_chunk C rnd [] tr = Inr ([], tr)"
| "push_chunk C rnd (byte # chunk) tr =
     (if byte = LF then
        and_then (e2ee_observe_line C rnd (pop_cr (tr_line_buffer tr)) (tr\<lparr>tr_line_buffer := []\<rparr>)) (\<lambda>(out, tr).
        and_then (push_chunk C rnd chunk tr) (\<lambda>(out', tr). Inr (out @ out', tr)))
      else push_chunk C rnd chunk (tr\<lparr>tr_line_buffer := tr_line_buffer tr @ [byte]\<rparr>))"

definition transformer_finish ::
  "'x crypto_scheme \<Rightarrow> (nat \<Rightarrow> nat \<Rightarrow> draw) \<Rightarrow> e2ee_sse_transformer \<Rightarrow> e2ee_error + bytes \<times> e2ee_sse_transformer" where
  "transformer_finish C rnd tr =
     and_then (if tr_line_buffer tr \<noteq> []
       then e2ee_observe_line C rnd (pop_cr (tr_line_buffer tr)) (tr\<lparr>tr_line_buffer := []\<rparr>) else Inr ([], tr)) (\<lambda>(out, tr).
     and_then (if tr_event_lines tr \<noteq> [] then e2ee_dispatch_event C rnd tr else Inr ([], tr)) (\<lambda>(out', tr).
     Inr (out @ out', tr)))"

definition encrypt_e2ee_final_response ::
  "'x crypto_scheme \<Rightarrow> (nat \<Rightarrow> nat \<Rightarrow> draw) \<Rightarrow> bytes \<Rightarrow> e2ee_request_context \<Rightarrow> string \<Rightarrow> bool \<Rightarrow> e2ee_error + bytes" where
  "encrypt_e2ee_final_response C rnd cleartext_body ctx endpoint_path is_sse =
     (if \<not> is_sse then encrypt_e2ee_response_body C (rnd 0) cleartext_body ctx endpoint_path
      else and_then (push_chunk C rnd cleartext_body (transformer_new ctx endpoint_path)) (\<lambda>(out, tr).
        and_then (transformer_finish C rnd tr) (\<lambda>(out', _). Inr (out @ out'))))"

section \<open>The finaliser\<close>

datatype stream_fault =
    E2eeFault e2ee_error
  | ReceiptFault receipt_error
  | StoreFault service_error
  | UpstreamFault string

datatype poll = Pending | Ready "(stream_fault + bytes) option"

datatype inner_item = InnerPending | InnerChunk bytes | InnerError string | InnerEnd

text \<open>\<open>wire_hasher\<close> is the bytes the hasher was given.\<close>

record finalizer =
  wire_hasher :: bytes
  fz_endpoint_path :: string
  sse_parser :: sse_framing_observer
  e2ee_transformer :: "e2ee_sse_transformer option"
  fz_request_id :: "string option"
  upstream_ended :: bool
  finished :: bool
  error_tail_settled :: bool
  broken :: bool

definition finalizer_new :: "string \<Rightarrow> e2ee_sse_transformer option \<Rightarrow> string option \<Rightarrow> bool \<Rightarrow> finalizer" where
  "finalizer_new endpoint_path transformer request_id is_sse =
     \<lparr>wire_hasher = [], fz_endpoint_path = endpoint_path,
      sse_parser = (if is_sse then observer_new endpoint_path else identifiers_only),
      e2ee_transformer = transformer, fz_request_id = request_id, upstream_ended = False, finished = False,
      error_tail_settled = False, broken = False\<rparr>"

text \<open>\<open>take_synthesized_tail\<close> after \<open>error_tail_settled\<close> was found unset.\<close>

definition synthesized_tail :: "'x lib_scheme \<Rightarrow> finalizer \<Rightarrow> bytes option" where
  "synthesized_tail L f =
     (let p = sse_parser f
      in Option.bind (protocol p) (\<lambda>proto.
         if saw_terminal p \<or> saw_error p then None
         else if \<not> at_event_boundary p \<or> \<not> observation_usable p then None
         else if \<not> broken f then stream_success_terminator proto
         else if proto = OpenaiResponses \<and> last_sequence_number p = Some (- 1) then None
         else Some (stream_error_tail L proto (fz_request_id f) (last_sequence_number p))))"

definition take_synthesized_tail :: "'x lib_scheme \<Rightarrow> finalizer \<Rightarrow> finalizer \<times> bytes option" where
  "take_synthesized_tail L f =
     (f\<lparr>error_tail_settled := True\<rparr>, if error_tail_settled f then None else synthesized_tail L f)"

definition wire_hash :: "'x lib_scheme \<Rightarrow> finalizer \<Rightarrow> string" where
  "wire_hash L f = ''sha256:'' @ hex_encode L (sha256 L (wire_hasher f))"

text \<open>Emission of bytes: they are hashed and handed to the client.\<close>

definition emit :: "bytes \<Rightarrow> finalizer \<Rightarrow> 'f \<Rightarrow> finalizer \<times> 'f \<times> poll" where
  "emit wire f own = (f\<lparr>wire_hasher := wire_hasher f @ wire\<rparr>, own, Ready (Some (Inr wire)))"

definition fail :: "stream_fault \<Rightarrow> finalizer \<Rightarrow> 'f \<Rightarrow> finalizer \<times> 'f \<times> poll" where
  "fail e f own = (f\<lparr>finished := True\<rparr>, own, Ready (Some (Inl e)))"

text \<open>\<open>fin\<close> is \<open>finalize_receipt\<close> of the stream, acting on its own state \<open>'f\<close>.\<close>

definition conclude :: "(finalizer \<Rightarrow> 'f \<Rightarrow> 'f \<times> (stream_fault + unit)) \<Rightarrow> finalizer \<Rightarrow> 'f \<Rightarrow> finalizer \<times> 'f \<times> poll" where
  "conclude fin f own =
     (case fin (f\<lparr>finished := True\<rparr>) own of
        (own, Inr _) \<Rightarrow> (f\<lparr>finished := True\<rparr>, own, Ready None)
      | (own, Inl e) \<Rightarrow> (f\<lparr>finished := True\<rparr>, own, Ready (Some (Inl e))))"

definition flush ::
  "'x crypto_scheme \<Rightarrow> (nat \<Rightarrow> nat \<Rightarrow> draw) \<Rightarrow> (finalizer \<Rightarrow> 'f \<Rightarrow> 'f \<times> (stream_fault + unit)) \<Rightarrow> finalizer \<Rightarrow> 'f \<Rightarrow> finalizer \<times> 'f \<times> poll" where
  "flush C rnd fin f own =
     (let may_finish = (\<not> broken f \<and> observation_usable (sse_parser f) \<and> at_event_boundary (sse_parser f));
          taken = e2ee_transformer f; f = f\<lparr>e2ee_transformer := None\<rparr>
      in case taken of
           Some transformer \<Rightarrow>
             if may_finish then
               (case transformer_finish C rnd transformer of
                  Inl e \<Rightarrow> fail (E2eeFault e) f own
                | Inr (wire, _) \<Rightarrow> if wire \<noteq> [] then emit wire f own else conclude fin f own)
             else conclude fin f own
         | None \<Rightarrow> conclude fin f own)"

definition end_of_stream ::
  "'x crypto_scheme \<Rightarrow> (nat \<Rightarrow> nat \<Rightarrow> draw) \<Rightarrow> (finalizer \<Rightarrow> 'f \<Rightarrow> 'f \<times> (stream_fault + unit)) \<Rightarrow> finalizer \<Rightarrow> 'f \<Rightarrow> finalizer \<times> 'f \<times> poll" where
  "end_of_stream C rnd fin f own =
     (case take_synthesized_tail C f of
        (f, None) \<Rightarrow> flush C rnd fin f own
      | (f, Some tail) \<Rightarrow>
          (case e2ee_transformer f of
             Some transformer \<Rightarrow>
               (case push_chunk C rnd tail transformer of
                  Inl e \<Rightarrow> fail (E2eeFault e) f own
                | Inr (wire, transformer) \<Rightarrow>
                    let f = f\<lparr>e2ee_transformer := Some transformer\<rparr>
                    in if wire \<noteq> [] then emit wire f own else flush C rnd fin f own)
           | None \<Rightarrow> if tail \<noteq> [] then emit tail f own else flush C rnd fin f own))"

text \<open>The loop of \<open>poll_finalizing_stream\<close>. A source that has no answer left is pending.\<close>

function poll_loop ::
  "'x crypto_scheme \<Rightarrow> (nat \<Rightarrow> nat \<Rightarrow> draw) \<Rightarrow> (finalizer \<Rightarrow> 'f \<Rightarrow> 'f \<times> (stream_fault + unit)) \<Rightarrow> finalizer \<Rightarrow> 'f \<Rightarrow> inner_item list
     \<Rightarrow> (finalizer \<times> 'f \<times> poll) \<times> inner_item list" where
  "poll_loop C rnd fin f own src =
     (if upstream_ended f then (end_of_stream C rnd fin f own, src)
      else case src of
          [] \<Rightarrow> ((f, own, Pending), [])
        | InnerPending # src \<Rightarrow> ((f, own, Pending), src)
        | InnerChunk chunk # src \<Rightarrow>
            let f = f\<lparr>sse_parser := observe C (sse_parser f) chunk\<rparr>
            in (case e2ee_transformer f of
                  None \<Rightarrow> (emit chunk f own, src)
                | Some transformer \<Rightarrow>
                    (case push_chunk C rnd chunk transformer of
                       Inl e \<Rightarrow> (fail (E2eeFault e) f own, src)
                     | Inr (wire, transformer) \<Rightarrow>
                         let f = f\<lparr>e2ee_transformer := Some transformer\<rparr>
                         in if wire = [] then poll_loop C rnd fin f own src else (emit wire f own, src)))
        | InnerError e # src \<Rightarrow> poll_loop C rnd fin (f\<lparr>broken := True, upstream_ended := True\<rparr>) own src
        | InnerEnd # src \<Rightarrow> poll_loop C rnd fin (f\<lparr>upstream_ended := True\<rparr>) own src)"
  by pat_completeness auto
termination
  by (relation "measure (\<lambda>(_, _, _, _, _, src). length src)") auto

declare poll_loop.simps [simp del]

definition poll_finalizing_stream ::
  "'x crypto_scheme \<Rightarrow> (nat \<Rightarrow> nat \<Rightarrow> draw) \<Rightarrow> (finalizer \<Rightarrow> 'f \<Rightarrow> 'f \<times> (stream_fault + unit)) \<Rightarrow> finalizer \<Rightarrow> 'f \<Rightarrow> inner_item list
     \<Rightarrow> (finalizer \<times> 'f \<times> poll) \<times> inner_item list" where
  "poll_finalizing_stream C rnd fin f own src =
     (if finished f then ((f, own, Ready None), src) else poll_loop C rnd fin f own src)"

section \<open>The two streams\<close>

text \<open>What a stream that signs a receipt shares with the service, with the receipt store and the session store as state.\<close>

record 's publisher =
  pb_keys :: key_provider
  pb_key_id :: string
  pb_requester :: "receipt_owner option"
  pb_ttl :: u64
  pb_extend :: "session_lease \<Rightarrow> u64 \<Rightarrow> 's \<Rightarrow> 's \<times> (store_error + unit)"

record 's stores =
  so_sessions :: 's
  so_receipts :: receipt_store

definition sign_and_store ::
  "'x lib_scheme \<Rightarrow> 's publisher \<Rightarrow> u64 \<Rightarrow> receipt_builder \<Rightarrow> session_lease option \<Rightarrow> 's stores \<Rightarrow> 's stores \<times> (stream_fault + unit)" where
  "sign_and_store L pb now builder lease st =
     (case finalize L (pb_keys pb) builder (pb_key_id pb) of
        Inl e \<Rightarrow> (st, Inl (ReceiptFault e))
      | Inr receipt \<Rightarrow>
          (case store_receipt (pb_extend pb) receipt (pb_requester pb) now (pb_ttl pb) lease (so_sessions st) (so_receipts st) of
             (sessions, receipts, r) \<Rightarrow> (\<lparr>so_sessions = sessions, so_receipts = receipts\<rparr>, map_err StoreFault r)))"

record 's receipt_stream =
  rs_builder :: "receipt_builder option"
  rs_lease :: "session_lease option"
  rs_stores :: "'s stores"

text \<open>\<open>ReceiptFinalizingStream::finalize_receipt\<close>.\<close>

definition finalize_stream_receipt ::
  "'x lib_scheme \<Rightarrow> 's publisher \<Rightarrow> u64 \<Rightarrow> finalizer \<Rightarrow> 's receipt_stream \<Rightarrow> 's receipt_stream \<times> (stream_fault + unit)" where
  "finalize_stream_receipt L pb now f own =
     (case rs_builder own of
        None \<Rightarrow> (own, Inl (ReceiptFault EmptyReceipt))
      | Some builder \<Rightarrow>
          let own = own\<lparr>rs_builder := None\<rparr>;
              builder = set_chat_id builder (chat_id (sse_parser f));
              builder = set_upstream_verified_model_id builder (model_id (sse_parser f))
          in case add_response_returned_hash builder (wire_hash L f) of
               Inl e \<Rightarrow> (own, Inl (ReceiptFault e))
             | Inr builder \<Rightarrow>
                 (case sign_and_store L pb now builder (rs_lease own) (rs_stores own) of
                    (st, r) \<Rightarrow> (own\<lparr>rs_lease := None, rs_stores := st\<rparr>, r)))"

datatype request_mode = Buffered | Streamed

record middleware_receipt_draft =
  dr_session_lease :: "session_lease option"
  dr_receipt_id :: string
  dr_builder :: receipt_builder
  dr_endpoint_path :: string
  dr_request_mode :: request_mode
  dr_response_model :: "string option"

text \<open>The receipt half of the journal that the forwarder and the response stream share.\<close>

record receipt_journal =
  jn_receipt_id :: "string option"
  jn_draft :: "middleware_receipt_draft option"

definition journal_set :: "middleware_receipt_draft \<Rightarrow> receipt_journal \<Rightarrow> receipt_journal" where
  "journal_set draft j = j\<lparr>jn_receipt_id := Some (dr_receipt_id draft), jn_draft := Some draft\<rparr>"

definition journal_take :: "receipt_journal \<Rightarrow> receipt_journal \<times> middleware_receipt_draft option" where
  "journal_take j = (j\<lparr>jn_draft := None\<rparr>, jn_draft j)"

record 's middleware_stream =
  ms_journal :: receipt_journal
  ms_stores :: "'s stores"

text \<open>\<open>MiddlewareResponseFinalizingStream::finalize_receipt\<close>.\<close>

definition finalize_middleware_receipt ::
  "'x lib_scheme \<Rightarrow> 's publisher \<Rightarrow> u64 \<Rightarrow> finalizer \<Rightarrow> 's middleware_stream \<Rightarrow> 's middleware_stream \<times> (stream_fault + unit)" where
  "finalize_middleware_receipt L pb now f own =
     (case journal_take (ms_journal own) of
        (j, None) \<Rightarrow> (own\<lparr>ms_journal := j\<rparr>, Inr ())
      | (j, Some draft) \<Rightarrow>
          let own = own\<lparr>ms_journal := j\<rparr>;
              builder = (if chat_id (sse_parser f) \<noteq> None then set_chat_id (dr_builder draft) (chat_id (sse_parser f)) else dr_builder draft)
          in case add_response_returned_hash builder (wire_hash L f) of
               Inl e \<Rightarrow> (own, Inl (ReceiptFault e))
             | Inr builder \<Rightarrow>
                 (case sign_and_store L pb now builder (dr_session_lease draft) (ms_stores own) of
                    (st, r) \<Rightarrow> (own\<lparr>ms_stores := st\<rparr>, r)))"

section \<open>Drafting the receipt of a forwarded response\<close>

record drafting_stream =
  df_draft :: "middleware_receipt_draft option"
  provider_response_hasher :: bytes
  df_sse_parser :: sse_framing_observer
  df_upstream_ended :: bool
  df_finished :: bool

definition drafting_new :: "middleware_receipt_draft \<Rightarrow> drafting_stream" where
  "drafting_new draft = \<lparr>df_draft = Some draft, provider_response_hasher = [], df_sse_parser = identifiers_only,
     df_upstream_ended = False, df_finished = False\<rparr>"

definition publish_draft :: "'x lib_scheme \<Rightarrow> drafting_stream \<Rightarrow> receipt_journal \<Rightarrow> drafting_stream \<times> receipt_journal \<times> (stream_fault + unit)" where
  "publish_draft L d j =
     (let h = ''sha256:'' @ hex_encode L (sha256 L (provider_response_hasher d));
          response_model = model_id (df_sse_parser d)
      in case df_draft d of
           None \<Rightarrow> (d, j, Inl (ReceiptFault EmptyReceipt))
         | Some draft \<Rightarrow>
             let d = d\<lparr>df_draft := None\<rparr>;
                 builder = set_chat_id (dr_builder draft) (chat_id (df_sse_parser d));
                 builder = set_upstream_verified_model_id builder response_model
             in case add_response_received_hash builder h of
                  Inl e \<Rightarrow> (d, j, Inl (ReceiptFault e))
                | Inr builder \<Rightarrow>
                    (d, journal_set (draft\<lparr>dr_builder := builder, dr_response_model := response_model\<rparr>) j, Inr ()))"

text \<open>One poll: chunks pass through unchanged, the end of the stream publishes the draft, an error publishes nothing.\<close>

definition draft_end :: "'x lib_scheme \<Rightarrow> drafting_stream \<Rightarrow> receipt_journal \<Rightarrow> drafting_stream \<times> receipt_journal \<times> poll" where
  "draft_end L d j =
     (case publish_draft L (d\<lparr>df_finished := True\<rparr>) j of
        (d, j, Inr _) \<Rightarrow> (d, j, Ready None)
      | (d, j, Inl e) \<Rightarrow> (d, j, Ready (Some (Inl e))))"

definition poll_drafting ::
  "'x lib_scheme \<Rightarrow> drafting_stream \<Rightarrow> receipt_journal \<Rightarrow> inner_item list \<Rightarrow> (drafting_stream \<times> receipt_journal \<times> poll) \<times> inner_item list" where
  "poll_drafting L d j src =
     (if df_finished d then ((d, j, Ready None), src)
      else if df_upstream_ended d then (draft_end L d j, src)
      else case src of
          [] \<Rightarrow> ((d, j, Pending), [])
        | InnerPending # src \<Rightarrow> ((d, j, Pending), src)
        | InnerChunk chunk # src \<Rightarrow>
            ((d\<lparr>provider_response_hasher := provider_response_hasher d @ chunk, df_sse_parser := observe L (df_sse_parser d) chunk\<rparr>,
              j, Ready (Some (Inr chunk))), src)
        | InnerError e # src \<Rightarrow> ((d\<lparr>df_finished := True\<rparr>, j, Ready (Some (Inl (UpstreamFault e)))), src)
        | InnerEnd # src \<Rightarrow> (draft_end L (d\<lparr>df_upstream_ended := True\<rparr>) j, src))"

section \<open>Lemmas\<close>

subsection \<open>One poll\<close>

text \<open>What one poll of an unfinished stream that has hashed \<open>w\<close> does: to the hashed bytes, to the stream's own state and to the
  finished flag.\<close>

fun poll_ok :: "(finalizer \<Rightarrow> 'f \<Rightarrow> 'f \<times> (stream_fault + unit)) \<Rightarrow> bytes \<Rightarrow> 'f \<Rightarrow> finalizer \<times> 'f \<times> poll \<Rightarrow> bool" where
  "poll_ok fin w own (f', own', Pending) = (\<not> finished f' \<and> own' = own \<and> wire_hasher f' = w)"
| "poll_ok fin w own (f', own', Ready (Some (Inr b))) = (\<not> finished f' \<and> own' = own \<and> wire_hasher f' = w @ b)"
| "poll_ok fin w own (f', own', Ready (Some (Inl e))) = (finished f' \<and> (own' = own \<or> fin f' own = (own', Inl e)))"
| "poll_ok fin w own (f', own', Ready None) = (finished f' \<and> wire_hasher f' = w \<and> fin f' own = (own', Inr ()))"

lemma emit_ok: "\<not> finished f \<Longrightarrow> poll_ok fin (wire_hasher f) own (emit wire f own)"
  by (simp add: emit_def)

lemma fail_ok: "poll_ok fin w own (fail e f own)"
  by (simp add: fail_def)

lemma conclude_ok: "poll_ok fin (wire_hasher f) own (conclude fin f own)"
  by (auto simp: conclude_def split: prod.split sum.split)

lemma flush_ok: "\<not> finished f \<Longrightarrow> poll_ok fin (wire_hasher f) own (flush C rnd fin f own)"
  using conclude_ok [of fin "f\<lparr>e2ee_transformer := None\<rparr>"] emit_ok [of "f\<lparr>e2ee_transformer := None\<rparr>"]
  by (auto simp: flush_def Let_def fail_ok split: option.split sum.split)

lemma end_of_stream_ok:
  assumes "\<not> finished f"
  shows "poll_ok fin (wire_hasher f) own (end_of_stream C rnd fin f own)"
proof -
  have g: "wire_hasher g = wire_hasher f \<Longrightarrow> finished g = finished f \<Longrightarrow> poll_ok fin (wire_hasher f) own (flush C rnd fin g own)"
    "wire_hasher g = wire_hasher f \<Longrightarrow> finished g = finished f \<Longrightarrow> poll_ok fin (wire_hasher f) own (emit wire g own)" for g wire
    using assms flush_ok [of g] emit_ok [of g] by auto
  show ?thesis
    by (auto simp: end_of_stream_def take_synthesized_tail_def Let_def fail_ok g split: option.split sum.split)
qed

lemma poll_loop_ok: "\<not> finished f \<Longrightarrow> poll_ok fin (wire_hasher f) own (fst (poll_loop C rnd fin f own src))"
proof (induction "length src" arbitrary: f src rule: less_induct)
  case less
  have emit: "wire_hasher g = wire_hasher f \<Longrightarrow> finished g = finished f \<Longrightarrow> poll_ok fin (wire_hasher f) own (emit wire g own)" for g wire
    using less.prems emit_ok [of g] by auto
  have more: "wire_hasher g = wire_hasher f \<Longrightarrow> finished g = finished f \<Longrightarrow> length rest < length src \<Longrightarrow>
      poll_ok fin (wire_hasher f) own (fst (poll_loop C rnd fin g own rest))" for g rest
    using less.hyps [of rest g] less.prems by auto
  show ?case
    using less.prems end_of_stream_ok [OF less.prems]
    by (subst poll_loop.simps) (auto simp: Let_def fail_ok emit more split: list.split inner_item.split option.split sum.split)
qed

text \<open>Progress: the answers the source still has, and the stages of the ending that are left.\<close>

definition remaining :: "finalizer \<Rightarrow> inner_item list \<Rightarrow> nat" where
  "remaining f src = (if upstream_ended f then 0 else length src) +
     (if error_tail_settled f then 0 else 1) + (if e2ee_transformer f = None then 0 else 1) + 1"

definition will_end :: "finalizer \<Rightarrow> inner_item list \<Rightarrow> bool" where
  "will_end f src = (upstream_ended f \<or> InnerEnd \<in> set src \<or> (\<exists>e. InnerError e \<in> set src))"

text \<open>A poll finishes the stream, or leaves it on its way to its end with less to do than \<open>n\<close>.\<close>

fun progress :: "nat \<Rightarrow> (finalizer \<times> 'f \<times> poll) \<times> inner_item list \<Rightarrow> bool" where
  "progress n ((f, own, p), src) = (finished f \<or> (will_end f src \<and> remaining f src < n))"

lemma conclude_progress: "progress n (conclude fin f own, src)"
  by (auto simp: conclude_def split: prod.split sum.split)

lemma fail_progress: "progress n (fail e f own, src)"
  by (simp add: fail_def)

lemma end_of_stream_progress:
  assumes "upstream_ended f"
  shows "progress (remaining f src) (end_of_stream C rnd fin f own, src)"
proof -
  have flush: "upstream_ended g \<Longrightarrow> error_tail_settled g \<Longrightarrow> e2ee_transformer f = None \<longrightarrow> e2ee_transformer g = None \<Longrightarrow>
      progress (remaining f src) (flush C rnd fin g own, src)" for g
    using assms by (auto simp: flush_def Let_def fail_progress conclude_progress emit_def remaining_def will_end_def
        split: option.split sum.split)
  show ?thesis
  proof (cases "error_tail_settled f")
    case True
    with assms flush show ?thesis by (simp add: end_of_stream_def take_synthesized_tail_def)
  next
    case False
    with assms flush show ?thesis
      by (auto simp: end_of_stream_def take_synthesized_tail_def Let_def fail_progress emit_def remaining_def will_end_def
          split: option.split sum.split)
  qed
qed

lemma progress_mono: "progress m r \<Longrightarrow> m \<le> n \<Longrightarrow> progress n r"
  by (cases "(m, r)" rule: progress.cases) auto

lemma poll_loop_progress:
  "\<not> finished f \<Longrightarrow> will_end f src \<Longrightarrow> progress (remaining f src) (poll_loop C rnd fin f own src)"
proof (induction "length src" arbitrary: f src rule: less_induct)
  case less
  show ?case
  proof (cases "upstream_ended f")
    case True
    then show ?thesis using end_of_stream_progress by (subst poll_loop.simps) simp
  next
    case False
    then obtain item rest where src: "src = item # rest" using less.prems(2) by (cases src) (auto simp: will_end_def)
    have more: "progress (remaining f src) (poll_loop C rnd fin g own rest)"
      if g: "\<not> finished g" "will_end g rest" "error_tail_settled g = error_tail_settled f"
        "e2ee_transformer g = None \<longleftrightarrow> e2ee_transformer f = None" for g
    proof -
      have "length rest < length src" using src by simp
      then have "progress (remaining g rest) (poll_loop C rnd fin g own rest)" using g(1,2) by (rule less.hyps)
      moreover have "remaining g rest \<le> remaining f src" using False src g(3,4) by (simp add: remaining_def)
      ultimately show ?thesis by (rule progress_mono)
    qed
    have unfold: "poll_loop C rnd fin f own src = (case item of
        InnerPending \<Rightarrow> ((f, own, Pending), rest)
      | InnerChunk chunk \<Rightarrow>
          let f = f\<lparr>sse_parser := observe C (sse_parser f) chunk\<rparr>
          in (case e2ee_transformer f of
                None \<Rightarrow> (emit chunk f own, rest)
              | Some transformer \<Rightarrow>
                  (case push_chunk C rnd chunk transformer of
                     Inl e \<Rightarrow> (fail (E2eeFault e) f own, rest)
                   | Inr (wire, transformer) \<Rightarrow>
                       let f = f\<lparr>e2ee_transformer := Some transformer\<rparr>
                       in if wire = [] then poll_loop C rnd fin f own rest else (emit wire f own, rest)))
      | InnerError e \<Rightarrow> poll_loop C rnd fin (f\<lparr>broken := True, upstream_ended := True\<rparr>) own rest
      | InnerEnd \<Rightarrow> poll_loop C rnd fin (f\<lparr>upstream_ended := True\<rparr>) own rest)"
      using False src by (subst poll_loop.simps) simp
    have later: "will_end g rest" if "item = InnerPending \<or> (\<exists>c. item = InnerChunk c)" "upstream_ended g = upstream_ended f" for g
      using less.prems(2) src that by (auto simp: will_end_def)
    have fewer: "remaining g rest < remaining f src"
      if "upstream_ended g = upstream_ended f" "error_tail_settled g = error_tail_settled f"
        "e2ee_transformer g = None \<longleftrightarrow> e2ee_transformer f = None" for g
      using that False src by (simp add: remaining_def)
    have ended: "will_end g rest" if "upstream_ended g" for g using that by (simp add: will_end_def)
    show ?thesis
      unfolding unfold using less.prems(1)
      by (auto simp: Let_def fail_progress emit_def fewer later ended intro!: more split: inner_item.split option.split sum.split)
  qed
qed

subsection \<open>Polling to the end\<close>

fun polls ::
  "'x crypto_scheme \<Rightarrow> (nat \<Rightarrow> nat \<Rightarrow> draw) \<Rightarrow> (finalizer \<Rightarrow> 'f \<Rightarrow> 'f \<times> (stream_fault + unit)) \<Rightarrow> nat \<Rightarrow> finalizer \<Rightarrow> 'f \<Rightarrow> inner_item list
     \<Rightarrow> (finalizer \<times> 'f) \<times> poll list" where
  "polls C rnd fin 0 f own src = ((f, own), [])"
| "polls C rnd fin (Suc n) f own src =
     (case poll_finalizing_stream C rnd fin f own src of ((f, own, p), src) \<Rightarrow>
        (case polls C rnd fin n f own src of (st, ps) \<Rightarrow> (st, p # ps)))"

definition delivered :: "poll list \<Rightarrow> bytes" where
  "delivered ps = concat (map (\<lambda>p. case p of Ready (Some (Inr b)) \<Rightarrow> b | _ \<Rightarrow> []) ps)"

definition clean_end :: "poll list \<Rightarrow> bool" where
  "clean_end ps = (Ready None \<in> set ps \<and> (\<forall>e. Ready (Some (Inl e)) \<notin> set ps))"

lemma poll_cases:
  obtains g own1 p rest where "poll_finalizing_stream C rnd fin f own src = ((g, own1, p), rest)"
  by (cases "poll_finalizing_stream C rnd fin f own src") auto

lemma delivered_simps [simp]:
  "delivered [] = []" "delivered (Pending # ps) = delivered ps" "delivered (Ready None # ps) = delivered ps"
  "delivered (Ready (Some (Inr b)) # ps) = b @ delivered ps" "delivered (Ready (Some (Inl e)) # ps) = delivered ps"
  by (simp_all add: delivered_def)

lemma clean_end_simps [simp]:
  "\<not> clean_end []" "clean_end (Pending # ps) = clean_end ps" "clean_end (Ready (Some (Inr b)) # ps) = clean_end ps"
  "\<not> clean_end (Ready (Some (Inl e)) # ps)"
  by (auto simp: clean_end_def)

lemma polls_finished: "finished f \<Longrightarrow> polls C rnd fin n f own src = ((f, own), replicate n (Ready None))"
  by (induction n) (simp_all add: poll_finalizing_stream_def)

lemma delivered_finished [simp]: "delivered (replicate n (Ready None)) = []"
  by (induction n) simp_all

lemma clean_end_finished [simp]: "clean_end (Ready None # replicate n (Ready None))"
  by (auto simp: clean_end_def)

text \<open>The receipt is finalised at most once, at the clean end, over the bytes delivered by then.\<close>

lemma polls_exact:
  assumes "\<not> finished f" and "polls C rnd fin n f own src = ((f', own'), ps)"
  shows "if clean_end ps then wire_hasher f' = wire_hasher f @ delivered ps \<and> fin f' own = (own', Inr ())
    else own' = own \<or> (\<exists>g e. fin g own = (own', Inl e))"
  using assms
proof (induction n arbitrary: f src ps)
  case (Suc n)
  obtain g own1 p rest where step: "poll_finalizing_stream C rnd fin f own src = ((g, own1, p), rest)" by (rule poll_cases)
  then have "poll_loop C rnd fin f own src = ((g, own1, p), rest)" using Suc.prems(1) by (simp add: poll_finalizing_stream_def)
  then have ok: "poll_ok fin (wire_hasher f) own (g, own1, p)" using poll_loop_ok [OF Suc.prems(1), of fin own C rnd src] by simp
  obtain qs where qs: "polls C rnd fin n g own1 rest = ((f', own'), qs)" "ps = p # qs"
    using Suc.prems(2) step by (auto split: prod.splits)
  show ?case
  proof (cases "(fin, wire_hasher f, own, (g, own1, p))" rule: poll_ok.cases)
    case 1
    then show ?thesis using ok qs Suc.IH [of g rest qs] by (auto split: if_splits)
  next
    case 2
    then show ?thesis using ok qs Suc.IH [of g rest qs] by (auto split: if_splits)
  next
    case 3
    then show ?thesis using ok qs by (auto simp: polls_finished)
  next
    case 4
    then show ?thesis using ok qs by (auto simp: polls_finished)
  qed
qed simp

lemma polls_end:
  assumes "\<not> finished f" and "will_end f src" and "remaining f src \<le> n" and "polls C rnd fin n f own src = ((f', own'), ps)"
  shows "finished f' \<and> (Ready None \<in> set ps \<or> (\<exists>e. Ready (Some (Inl e)) \<in> set ps))"
  using assms
proof (induction n arbitrary: f own src ps)
  case 0
  then show ?case by (simp add: remaining_def)
next
  case (Suc n)
  obtain g own1 p rest where "poll_finalizing_stream C rnd fin f own src = ((g, own1, p), rest)" by (rule poll_cases)
  then have step: "poll_loop C rnd fin f own src = ((g, own1, p), rest)" "poll_finalizing_stream C rnd fin f own src = ((g, own1, p), rest)"
    using Suc.prems(1) by (simp_all add: poll_finalizing_stream_def)
  obtain qs where qs: "polls C rnd fin n g own1 rest = ((f', own'), qs)" "ps = p # qs"
    using Suc.prems(4) step(2) by (auto split: prod.splits)
  have ok: "poll_ok fin (wire_hasher f) own (g, own1, p)" using poll_loop_ok [OF Suc.prems(1), of fin own C rnd src] step(1) by simp
  have prog: "finished g \<or> (will_end g rest \<and> remaining g rest < remaining f src)"
    using poll_loop_progress [OF Suc.prems(1,2), of C rnd fin own] step(1) by simp
  show ?case
  proof (cases "finished g")
    case True
    then have "p = Ready None \<or> (\<exists>e. p = Ready (Some (Inl e)))"
      using ok by (cases "(fin, wire_hasher f, own, (g, own1, p))" rule: poll_ok.cases) auto
    then show ?thesis using True qs by (auto simp: polls_finished)
  next
    case False
    then show ?thesis using Suc.IH [OF False _ _ qs(1)] prog Suc.prems(3) qs(2) by auto
  qed
qed


subsection \<open>The receipt of a stream\<close>

text \<open>The builder a finished stream signs: its identifiers filled in and the digest of the bytes returned appended.\<close>

definition returned_builder :: "'x lib_scheme \<Rightarrow> receipt_builder \<Rightarrow> string option \<Rightarrow> string option \<Rightarrow> bytes \<Rightarrow> receipt_builder" where
  "returned_builder L b chat model wire =
     (let b = set_upstream_verified_model_id (set_chat_id b chat) model
      in b\<lparr>events := events b @ [\<lparr>re_type = EVENT_RESPONSE_RETURNED, re_fields = [(''body_hash'', JString (sha256_hex L wire))]\<rparr>]\<rparr>)"

lemma wire_hash_eq: "wire_hash L f = sha256_hex L (wire_hasher f)"
  by (simp add: wire_hash_def sha256_hex_def sha256_bare_hex_def)

lemma sign_and_store_ok:
  assumes "sign_and_store L pb now builder lease st = (st', Inr u)"
  shows "\<exists>r. finalize L (pb_keys pb) builder (pb_key_id pb) = Inr r \<and>
    so_receipts st' = receipt_put r (pb_requester pb) now (saturating_add now (pb_ttl pb)) (so_receipts st)"
  using assms by (auto simp: sign_and_store_def store_receipt_def Let_def split: sum.splits prod.splits option.splits)

lemma sign_and_store_failed:
  assumes "sign_and_store L pb now builder lease st = (st', Inl e)"
  shows "so_receipts st' = so_receipts st"
  using assms by (auto simp: sign_and_store_def store_receipt_def Let_def split: sum.splits prod.splits option.splits)

lemma finalize_stream_ok:
  assumes "finalize_stream_receipt L pb now f own = (own', Inr u)" and "rs_builder own = Some b"
  shows "\<exists>r. finalize L (pb_keys pb) (returned_builder L b (chat_id (sse_parser f)) (model_id (sse_parser f)) (wire_hasher f)) (pb_key_id pb) = Inr r \<and>
    so_receipts (rs_stores own') = receipt_put r (pb_requester pb) now (saturating_add now (pb_ttl pb)) (so_receipts (rs_stores own))"
  using assms by (auto simp: finalize_stream_receipt_def add_response_returned_hash_def append_hash_def append_event_Inr returned_builder_def
      wire_hash_eq Let_def dest!: sign_and_store_ok split: sum.splits prod.splits)

lemma finalize_stream_failed:
  assumes "finalize_stream_receipt L pb now f own = (own', Inl e)"
  shows "so_receipts (rs_stores own') = so_receipts (rs_stores own)"
  using assms by (auto simp: finalize_stream_receipt_def Let_def dest!: sign_and_store_failed split: option.splits sum.splits prod.splits)

lemma finalizer_new_state [simp]:
  "\<not> finished (finalizer_new path tr rid sse)" "wire_hasher (finalizer_new path tr rid sse) = []"
  "\<not> upstream_ended (finalizer_new path tr rid sse)" "\<not> error_tail_settled (finalizer_new path tr rid sse)"
  by (simp_all add: finalizer_new_def)


subsection \<open>Encrypted events\<close>

text \<open>The specification of the transformer: the lines of the whole stream, grouped into events, each sealed on its own.\<close>

fun stream_lines :: "bytes \<Rightarrow> bytes \<Rightarrow> bytes list" where
  "stream_lines buf [] = (if buf = [] then [] else [pop_cr buf])"
| "stream_lines buf (b # bs) = (if b = LF then pop_cr buf # stream_lines [] bs else stream_lines (buf @ [b]) bs)"

fun sse_events :: "bytes list \<Rightarrow> bytes list \<Rightarrow> bytes list list" where
  "sse_events cur [] = (if cur = [] then [] else [cur])"
| "sse_events cur (line # lines) =
     (if line = [] then (if cur = [] then [] else [cur]) @ sse_events [] lines else sse_events (cur @ [line]) lines)"

definition needs_seal :: "bytes list \<Rightarrow> bool" where
  "needs_seal lines = (case sse_event_data None lines of None \<Rightarrow> False | Some data \<Rightarrow> data \<noteq> ''[DONE]'')"

definition seal_event ::
  "'x crypto_scheme \<Rightarrow> (nat \<Rightarrow> draw) \<Rightarrow> e2ee_request_context \<Rightarrow> string \<Rightarrow> bytes list \<Rightarrow> e2ee_error + bytes" where
  "seal_event C rnd ctx path lines =
     (if needs_seal lines
      then and_then (encrypt_e2ee_stream_payload C rnd (the (sse_event_data None lines)) ctx path) (\<lambda>payload.
        Inr (concat (map (\<lambda>line. line @ [LF]) (filter (\<lambda>line. \<not> is_sse_data_line line) lines)) @ ''data: '' @ payload @ [LF, LF]))
      else Inr (serialize_original_sse_event lines))"

fun seal_events ::
  "'x crypto_scheme \<Rightarrow> (nat \<Rightarrow> nat \<Rightarrow> draw) \<Rightarrow> e2ee_request_context \<Rightarrow> string \<Rightarrow> nat \<Rightarrow> bytes list list \<Rightarrow> e2ee_error + bytes" where
  "seal_events C rnd ctx path n [] = Inr []"
| "seal_events C rnd ctx path n (e # es) =
     and_then (seal_event C (rnd n) ctx path e) (\<lambda>out.
     and_then (seal_events C rnd ctx path (if needs_seal e then Suc n else n) es) (\<lambda>out'. Inr (out @ out')))"

lemma and_then_assoc: "and_then (and_then r f) g = and_then r (\<lambda>x. and_then (f x) g)"
  by (cases r) simp_all

lemma and_then_Inr: "and_then r Inr = r"
  by (cases r) simp_all

lemma dispatch_seals:
  "e2ee_dispatch_event C rnd tr =
     (if tr_event_lines tr = [] then Inr ([], tr\<lparr>tr_event_lines := []\<rparr>)
      else and_then (seal_event C (rnd (tr_count tr)) (tr_ctx tr) (tr_endpoint_path tr) (tr_event_lines tr)) (\<lambda>out.
        Inr (out, tr\<lparr>tr_event_lines := [],
          tr_count := (if needs_seal (tr_event_lines tr) then Suc (tr_count tr) else tr_count tr)\<rparr>)))"
  by (auto simp: e2ee_dispatch_event_def seal_event_def needs_seal_def Let_def and_then_assoc split: option.split)

abbreviation push_finish :: "'x crypto_scheme \<Rightarrow> (nat \<Rightarrow> nat \<Rightarrow> draw) \<Rightarrow> bytes \<Rightarrow> e2ee_sse_transformer \<Rightarrow> e2ee_error + bytes" where
  "push_finish C rnd bs tr \<equiv> and_then (push_chunk C rnd bs tr) (\<lambda>(out, tr). and_then (transformer_finish C rnd tr) (\<lambda>(out', _). Inr (out @ out')))"

abbreviation seal_from :: "'x crypto_scheme \<Rightarrow> (nat \<Rightarrow> nat \<Rightarrow> draw) \<Rightarrow> e2ee_sse_transformer \<Rightarrow> bytes list list \<Rightarrow> e2ee_error + bytes" where
  "seal_from C rnd tr es \<equiv> seal_events C rnd (tr_ctx tr) (tr_endpoint_path tr) (tr_count tr) es"

lemma push_finish_line:
  assumes "\<And>tr'. tr_line_buffer tr' = [] \<Longrightarrow> push_finish C rnd bs tr' = seal_from C rnd tr' (sse_events (tr_event_lines tr') (stream_lines [] bs))"
  shows "push_finish C rnd (LF # bs) tr = seal_from C rnd tr (sse_events (tr_event_lines tr) (pop_cr (tr_line_buffer tr) # stream_lines [] bs))"
proof -
  let ?line = "pop_cr (tr_line_buffer tr)" and ?tr = "tr\<lparr>tr_line_buffer := []\<rparr>"
  have split: "push_finish C rnd (LF # bs) tr =
      and_then (e2ee_observe_line C rnd ?line ?tr) (\<lambda>(out, tr'). and_then (push_finish C rnd bs tr') (\<lambda>out'. Inr (out @ out')))"
    by (auto simp: and_then_assoc split_def intro!: arg_cong [where f = "and_then _"])
  show ?thesis
  proof (cases "?line = []")
    case False
    with assms [of "?tr\<lparr>tr_event_lines := tr_event_lines tr @ [?line]\<rparr>"] show ?thesis
      unfolding split by (simp add: e2ee_observe_line_def and_then_Inr)
  next
    case True
    show ?thesis
    proof (cases "tr_event_lines tr = []")
      case True
      with \<open>?line = []\<close> assms [of "?tr\<lparr>tr_event_lines := []\<rparr>"] show ?thesis unfolding split by (simp add: e2ee_observe_line_def dispatch_seals and_then_Inr)
    next
      case False
      show ?thesis
      proof (cases "seal_event C (rnd (tr_count tr)) (tr_ctx tr) (tr_endpoint_path tr) (tr_event_lines tr)")
        case (Inr out)
        let ?next = "?tr\<lparr>tr_event_lines := [], tr_count := (if needs_seal (tr_event_lines tr) then Suc (tr_count tr) else tr_count tr)\<rparr>"
        have "push_finish C rnd bs ?next = seal_from C rnd ?next (sse_events [] (stream_lines [] bs))" using assms [of ?next] by simp
        then show ?thesis
          unfolding split using Inr False \<open>?line = []\<close> by (cases "needs_seal (tr_event_lines tr)") (simp_all add: e2ee_observe_line_def dispatch_seals)
      qed (use \<open>?line = []\<close> False in \<open>simp add: split e2ee_observe_line_def dispatch_seals del: push_chunk.simps\<close>)
    qed
  qed
qed

lemma push_finish_seals:
  "push_finish C rnd bs tr = seal_from C rnd tr (sse_events (tr_event_lines tr) (stream_lines (tr_line_buffer tr) bs))"
proof (induction bs arbitrary: tr)
  case Nil
  show ?case
    by (auto simp: transformer_finish_def e2ee_observe_line_def dispatch_seals and_then_assoc and_then_Inr)
next
  case (Cons b bs)
  show ?case
  proof (cases "b = LF")
    case True
    then show ?thesis using push_finish_line [of C rnd bs tr] Cons.IH by simp
  next
    case False
    then show ?thesis using Cons.IH [of "tr\<lparr>tr_line_buffer := tr_line_buffer tr @ [b]\<rparr>"] by simp
  qed
qed

lemma push_chunk_append:
  "push_chunk C rnd (xs @ ys) tr =
     and_then (push_chunk C rnd xs tr) (\<lambda>(out, tr). and_then (push_chunk C rnd ys tr) (\<lambda>(out', tr). Inr (out @ out', tr)))"
proof (induction xs arbitrary: tr)
  case Nil
  show ?case by (simp add: and_then_Inr split_def)
next
  case (Cons x xs)
  then show ?case by (simp add: and_then_assoc split_def)
qed

fun push_chunks ::
  "'x crypto_scheme \<Rightarrow> (nat \<Rightarrow> nat \<Rightarrow> draw) \<Rightarrow> bytes list \<Rightarrow> e2ee_sse_transformer \<Rightarrow> e2ee_error + bytes \<times> e2ee_sse_transformer" where
  "push_chunks C rnd [] tr = Inr ([], tr)"
| "push_chunks C rnd (c # cs) tr =
     and_then (push_chunk C rnd c tr) (\<lambda>(out, tr). and_then (push_chunks C rnd cs tr) (\<lambda>(out', tr). Inr (out @ out', tr)))"

lemma push_chunks_concat: "push_chunks C rnd cs tr = push_chunk C rnd (concat cs) tr"
  by (induction cs arbitrary: tr) (simp_all add: push_chunk_append)

lemma strip_prefix_CR:
  assumes "strip_prefix p (line @ CR # r) = Some q" and "CR \<notin> set p"
  shows "strip_prefix p line \<noteq> None"
proof -
  have "line @ CR # r = p @ q" using assms(1) by (simp add: strip_prefix_Some)
  then consider us where "line = p @ us" | us where "p = line @ us" "us @ q = CR # r" by (auto simp: append_eq_append_conv2)
  then show ?thesis
  proof cases
    case 1
    then show ?thesis using strip_prefix_Some [of p line us] by simp
  next
    case 2
    then have "us = []" using assms(2) by (cases us) auto
    then show ?thesis using 2 strip_prefix_Some [of p line "[]"] by simp
  qed
qed

lemma framed_CR_body:
  assumes "line \<noteq> []" and "\<not> is_sse_data_line line"
  shows "\<exists>x. framed [CR] (line # lines) = x @ [CR] \<and> x \<noteq> [] \<and> \<not> is_sse_data_line x"
proof (cases lines)
  case Nil
  then show ?thesis using assms by (auto simp: framed_def)
next
  case (Cons l ls)
  then obtain init m where "lines = init @ [m]" by (metis rev_exhaust list.distinct(1))
  then have "framed [CR] (line # lines) = (line @ CR # framed [CR] init @ m) @ [CR]" by (simp add: framed_def)
  moreover have "\<not> is_sse_data_line (line @ CR # framed [CR] init @ m)"
    using strip_prefix_CR [of "''data:''" line "framed [CR] init @ m"] assms(2)
    by (cases "strip_prefix ''data:'' (line @ CR # framed [CR] init @ m)") (auto simp: is_sse_data_line_def)
  ultimately show ?thesis by blast
qed

section \<open>Properties\<close>

text \<open>C4: The receipt of a stream covers exactly what the client received. However the stream is polled and however its source
  behaves, a receipt is stored exactly when the stream ended without an error, and then it is the one receipt signed over a log
  that ends with the digest of the bytes delivered, in order: upstream chunks, encrypted events, a synthesized ending. After an
  error, or before the end, the receipt store is untouched.\<close>

theorem stream_receipt_exact:
  "case polls C rnd (finalize_stream_receipt C pb now) n (finalizer_new path transformer request_id is_sse)
      \<lparr>rs_builder = Some b, rs_lease = lease, rs_stores = st\<rparr> src of
     ((f, own), ps) \<Rightarrow>
       if clean_end ps then \<exists>chat model r.
         finalize C (pb_keys pb) (returned_builder C b chat model (delivered ps)) (pb_key_id pb) = Inr r \<and>
         so_receipts (rs_stores own) = receipt_put r (pb_requester pb) now (saturating_add now (pb_ttl pb)) (so_receipts st)
       else so_receipts (rs_stores own) = so_receipts st"
proof -
  let ?f = "finalizer_new path transformer request_id is_sse" and ?own = "\<lparr>rs_builder = Some b, rs_lease = lease, rs_stores = st\<rparr>"
  obtain f own ps where run: "polls C rnd (finalize_stream_receipt C pb now) n ?f ?own src = ((f, own), ps)" by (metis prod.exhaust)
  note exact = polls_exact [OF finalizer_new_state(1) run]
  show ?thesis
  proof (cases "clean_end ps")
    case True
    then have "wire_hasher f = delivered ps" "finalize_stream_receipt C pb now f ?own = (own, Inr ())" using exact by simp_all
    with finalize_stream_ok [of C pb now f ?own own "()" b] run True show ?thesis by auto
  next
    case False
    then have "own = ?own \<or> (\<exists>g e. finalize_stream_receipt C pb now g ?own = (own, Inl e))" using exact by simp
    then have "so_receipts (rs_stores own) = so_receipts st" using finalize_stream_failed [of C pb now _ ?own own] by fastforce
    then show ?thesis using run False by simp
  qed
qed

text \<open>C37: Every stream comes to an end. Once its source has an end or an error to give after \<open>k\<close> answers in all, at most \<open>k + 3\<close>
  polls finish the stream: the client has then seen the end or an error, and every later poll answers with the end and changes
  nothing.\<close>

theorem stream_terminates:
  assumes "InnerEnd \<in> set src \<or> (\<exists>e. InnerError e \<in> set src)" and "length src + 3 \<le> n"
    and "polls C rnd fin n (finalizer_new path transformer request_id is_sse) own src = ((f, own'), ps)"
  shows "(Ready None \<in> set ps \<or> (\<exists>e. Ready (Some (Inl e)) \<in> set ps)) \<and>
    polls C rnd fin m f own' rest = ((f, own'), replicate m (Ready None))"
proof -
  let ?f = "finalizer_new path transformer request_id is_sse"
  have "will_end ?f src" using assms(1) by (simp add: will_end_def)
  moreover have "remaining ?f src \<le> n" using assms(2) by (simp add: remaining_def)
  ultimately have "finished f \<and> (Ready None \<in> set ps \<or> (\<exists>e. Ready (Some (Inl e)) \<in> set ps))"
    by (rule polls_end [OF finalizer_new_state(1) _ _ assms(3)])
  then show ?thesis by (simp add: polls_finished)
qed

theorem stream_terminates_witness:
  "\<exists>f own ps. polls sample_crypto (\<lambda>_ _. ([], [])) (\<lambda>f own. (own, Inr ())) 5 (finalizer_new ''/v1/chat/completions'' None None True) () [InnerChunk ''x'', InnerEnd]
      = ((f, own), ps) \<and> (Ready None \<in> set ps \<or> (\<exists>e. Ready (Some (Inl e)) \<in> set ps)) \<and>
     polls sample_crypto (\<lambda>_ _. ([], [])) (\<lambda>f own. (own, Inr ())) 2 f own [] = ((f, own), replicate 2 (Ready None))"
proof -
  let ?f = "finalizer_new ''/v1/chat/completions'' None None True" and ?fin = "\<lambda>f own. (own, Inr ())" and ?src = "[InnerChunk ''x'', InnerEnd]"
  obtain f own ps where run: "polls sample_crypto (\<lambda>_ _. ([], [])) ?fin 5 ?f () ?src = ((f, own), ps)" by (metis prod.exhaust)
  from stream_terminates [OF _ _ run, of 2 "[]"] run show ?thesis by auto
qed

text \<open>C38: The streaming encryption implements a specification that sees the whole stream: split it into lines at LF, drop a CR before
  it, group the lines into events at empty lines, and seal the events one by one. The chunks the stream arrives in do not matter,
  no event is lost or sealed twice, and the first event that cannot be encrypted fails the whole stream.\<close>

theorem sse_transform_refines:
  "and_then (push_chunks C rnd cs (transformer_new ctx path)) (\<lambda>(out, tr).
     and_then (transformer_finish C rnd tr) (\<lambda>(out', _). Inr (out @ out'))) =
   seal_events C rnd ctx path 0 (sse_events [] (stream_lines [] (concat cs)))"
  using push_finish_seals [of C rnd "concat cs" "transformer_new ctx path"] by (simp add: push_chunks_concat transformer_new_def)

text \<open>C39: A stream framed with bare carriage returns, which SSE allows and the gateway's own observer reads, is not encrypted: when its
  first line is not a data line, the client is sent the whole stream in the clear, data lines included.\<close>

theorem cr_stream_in_clear:
  assumes "plain_lines (line # lines)" and "line \<noteq> []" and "\<not> is_sse_data_line line"
  shows "encrypt_e2ee_final_response C rnd (framed [CR] (line # lines)) ctx path True = Inr (butlast (framed [CR] (line # lines)) @ [LF, LF])"
proof -
  obtain x where x: "framed [CR] (line # lines) = x @ [CR]" "x \<noteq> []" "\<not> is_sse_data_line x"
    using framed_CR_body [OF assms(2,3)] by blast
  have "LF \<notin> set (framed [CR] (line # lines))" using assms(1) by (auto simp: framed_def plain_lines_def list_all_iff)
  then have one: "stream_lines buf bs = (if buf @ bs = [] then [] else [pop_cr (buf @ bs)])" if "set bs \<subseteq> set (x @ [CR])" for buf bs
    using that x(1) by (induction bs arbitrary: buf) auto
  have "stream_lines [] (x @ [CR]) = [x]" using one [of "x @ [CR]" "[]"] by (simp add: pop_cr_def)
  moreover have "sse_event_data None [x] = None" using x(3) by (simp add: is_sse_data_line_def)
  ultimately have "seal_events C rnd ctx path 0 (sse_events [] (stream_lines [] (x @ [CR]))) = Inr (x @ [LF, LF])"
    using x(2) by (simp add: seal_event_def needs_seal_def serialize_original_sse_event_def)
  then show ?thesis
    using push_finish_seals [of C rnd "x @ [CR]" "transformer_new ctx path"] x(1)
    by (simp add: encrypt_e2ee_final_response_def transformer_new_def)
qed

theorem cr_stream_in_clear_witness:
  "encrypt_e2ee_final_response sample_crypto (\<lambda>_ _. (''e'', ''0123456789ab'')) ('': ok'' @ [CR] @ ''data: secret'' @ [CR, CR]) sample_context
     ''/v1/chat/completions'' True = Inr ('': ok'' @ [CR] @ ''data: secret'' @ [CR, LF, LF])"
  using cr_stream_in_clear [of "'': ok''" "[''data: secret'', []]" sample_crypto "\<lambda>_ _. (''e'', ''0123456789ab'')" sample_context "''/v1/chat/completions''"]
  by (simp add: plain_lines_def is_sse_data_line_def framed_def)

end
