(* ===== verification/Forward.thy ===== *)
theory Forward
  imports Admission Streaming
begin

text \<open>
  Forwarding of a request (\<open>src/aggregator/service/forward.rs\<close>): the fail-closed verification gate, admission, the loop that verifies
  again when a channel binding does not match, and the receipt of the response, buffered and streamed. The upstream backend, the
  verifier, the clock and the rewriting of provider responses are the fields of \<open>backend\<close>, so that a theorem holds for any of them;
  \<open>wo_sent\<close> lists the requests handed to the backend, in order. Metrics are left out, and so is the release of leases when their
  owner goes out of scope, which changes only the lease counts of the session store. The lemmas show that a request that demands
  verification is never handed to an unverified upstream, and that the receipt of a buffered response covers exactly what was
  received, forwarded and returned.
\<close>

section \<open>Requests, responses and the world\<close>

datatype upstream_error =
    Routing string
  | InvalidRequest string
  | Transport string
  | ResponseTooLarge
  | Timeout string
  | ChannelBindingMismatch string
  | UpstreamRejected nat

datatype forward_error =
    AdmissionFailed admission_error
  | UpstreamFailed upstream_error
  | E2eeFailed e2ee_error
  | ReceiptFailed receipt_error
  | StoreFailed service_error

record audio_form =
  af_file :: bytes
  af_extension :: string

record upstream_request =
  uq_form :: "audio_form option"
  uq_content_type :: "string option"
  uq_body :: bytes
  uq_headers :: "(string \<times> string) list"
  uq_path :: "string option"
  uq_target_route_id :: "string option"

record prepared_request =
  pr_request :: upstream_request
  pr_upstream_name :: string
  pr_url_origin :: "string option"
  pr_model_id :: string
  pr_route_id :: "string option"
  pr_is_tee :: "bool option"

record upstream_response =
  up_status :: nat
  up_body :: bytes
  up_headers :: "(string \<times> string) list"
  up_served_instance :: "string option"

text \<open>The body of a streamed response is the answers its stream will give.\<close>

record upstream_stream_response =
  us_status :: nat
  us_headers :: "(string \<times> string) list"
  us_body :: "inner_item list"
  us_served_instance :: "string option"

definition withheld :: "nat \<Rightarrow> upstream_response" where
  "withheld status = \<lparr>up_status = status, up_body = [], up_headers = [], up_served_instance = None\<rparr>"

definition stream_withheld :: "nat \<Rightarrow> upstream_stream_response" where
  "stream_withheld status = \<lparr>us_status = status, us_headers = [], us_body = [InnerEnd], us_served_instance = None\<rparr>"

record chat_completion_request =
  cq_audio_form :: "audio_form option"
  cq_request_id :: string
  cq_user_model :: "string option"
  cq_target_route_id :: "string option"
  cq_user_tier :: "string option"
  cq_endpoint_path :: string
  cq_received_body :: bytes
  cq_forwarded_body :: "bytes option"
  cq_aci_required :: bool
  cq_aci_session_ids :: "string list"
  cq_upstream_verification_event :: "upstream_verified_event option"
  cq_requester :: "receipt_owner option"
  cq_e2ee :: "e2ee_request_context option"

record upstream_verification_request =
  vq_upstream_name :: string
  vq_url_origin :: "string option"
  vq_model_id :: string
  vq_forwarded_body_hash :: string
  vq_required :: bool

text \<open>\<open>bk_clock n\<close> is the \<open>n\<close>-th reading of the clock, \<open>bk_encode_form\<close> the multipart encoding of an
  audio form, \<open>bk_member k body\<close> the optional string member \<open>k\<close> that a body parses to,
  \<open>bk_media\<close> and \<open>bk_normalize\<close> what the middleware makes of a media response and of an upstream error, \<open>bk_collect\<close> the buffering of a
  stream.\<close>

record ('s, 'u) backend =
  bk_acquire :: "'s acquire"
  bk_extend :: "session_lease \<Rightarrow> u64 \<Rightarrow> 's \<Rightarrow> 's \<times> (store_error + unit)"
  bk_clock :: "nat \<Rightarrow> u64"
  bk_verifier :: "(upstream_verification_request \<Rightarrow> 'u \<Rightarrow> 'u \<times> upstream_verified_event) option"
  bk_invalidate :: "upstream_verification_request \<Rightarrow> 'u \<Rightarrow> 'u"
  bk_prepare :: "upstream_request \<Rightarrow> upstream_error + prepared_request"
  bk_encode_form :: "audio_form \<Rightarrow> json \<Rightarrow> upstream_error + bytes \<times> string"
  bk_requires_verified_binding :: "prepared_request \<Rightarrow> bool"
  bk_forward :: "prepared_request \<Rightarrow> upstream_verified_event \<Rightarrow> 'u \<Rightarrow> 'u \<times> (upstream_error + upstream_response)"
  bk_forward_stream :: "prepared_request \<Rightarrow> upstream_verified_event \<Rightarrow> 'u \<Rightarrow> 'u \<times> (upstream_error + upstream_stream_response)"
  bk_member :: "string \<Rightarrow> bytes \<Rightarrow> string option"
  bk_media :: "string \<Rightarrow> bytes \<Rightarrow> bytes \<Rightarrow> json option \<Rightarrow> string + bytes"
  bk_normalize :: "surface \<Rightarrow> nat \<Rightarrow> bytes \<Rightarrow> bytes \<Rightarrow> nat \<times> bytes"
  bk_collect :: "inner_item list \<Rightarrow> (string \<times> string) list \<Rightarrow> upstream_error + bytes"

record ('s, 'u) world =
  wo_sessions :: 's
  wo_receipts :: receipt_store
  wo_ticks :: nat
  wo_outside :: 'u
  wo_sent :: "(prepared_request \<times> upstream_verified_event) list"

definition CHANNEL_BINDING_REVERIFY_ATTEMPTS :: nat where "CHANNEL_BINDING_REVERIFY_ATTEMPTS = 2"
definition AUDIO_TRANSCRIPTIONS_PATH :: string where "AUDIO_TRANSCRIPTIONS_PATH = ''/v1/audio/transcriptions''"
definition IMAGES_GENERATIONS_PATH :: string where "IMAGES_GENERATIONS_PATH = ''/v1/images/generations''"

section \<open>The gate\<close>

definition requires_aci_verification :: "chat_completion_request \<Rightarrow> bool" where
  "requires_aci_verification req = (cq_aci_required req \<or> cq_aci_session_ids req \<noteq> [])"

definition attested_route_eligible :: "bool option \<Rightarrow> bool" where
  "attested_route_eligible is_tee = (is_tee = Some True)"

definition verification_request :: "'x lib_scheme \<Rightarrow> prepared_request \<Rightarrow> bool \<Rightarrow> upstream_verification_request" where
  "verification_request L prepared req = \<lparr>vq_upstream_name = pr_upstream_name prepared, vq_url_origin = pr_url_origin prepared,
     vq_model_id = pr_model_id prepared, vq_forwarded_body_hash = sha256_hex L (uq_body (pr_request prepared)), vq_required = req\<rparr>"

definition invalidate_upstream_event ::
  "'x lib_scheme \<Rightarrow> ('s, 'u) backend \<Rightarrow> prepared_request \<Rightarrow> bool \<Rightarrow> ('s, 'u) world \<Rightarrow> ('s, 'u) world" where
  "invalidate_upstream_event L B prepared req w =
     (case bk_verifier B of
        None \<Rightarrow> w
      | Some _ \<Rightarrow> w\<lparr>wo_outside := bk_invalidate B (verification_request L prepared req) (wo_outside w)\<rparr>)"

text \<open>The event of the verifier, if there is a verifier or the caller brought one.\<close>

definition obtained_event ::
  "'x lib_scheme \<Rightarrow> ('s, 'u) backend \<Rightarrow> prepared_request \<Rightarrow> bool \<Rightarrow> upstream_verified_event option \<Rightarrow> ('s, 'u) world
     \<Rightarrow> ('s, 'u) world \<times> upstream_verified_event option" where
  "obtained_event L B prepared req supplied w =
     (case supplied of
        Some ev \<Rightarrow> (w, Some ev)
      | None \<Rightarrow>
          (case bk_verifier B of
             None \<Rightarrow> (w, None)
           | Some verify \<Rightarrow>
               (case verify (verification_request L prepared req) (wo_outside w) of (u, ev) \<Rightarrow> (w\<lparr>wo_outside := u\<rparr>, Some ev))))"

definition gate :: "bool \<Rightarrow> upstream_verified_event option \<Rightarrow> upstream_verified_event \<Rightarrow> admission_error + upstream_verified_event" where
  "gate req obtained ev =
     (if req then
        if obtained = None then Inl (UpstreamVerification NoVerifierResult)
        else if uv_result ev \<noteq> Verified then
          Inl (UpstreamVerification (VerifierFailed (case uv_reason ev of Some r \<Rightarrow> r | None \<Rightarrow> ''upstream verification failed'')))
        else if channel_bindings ev = [] then Inl (UpstreamVerification (VerifierFailed ''no enforceable channel binding''))
        else Inr ev
      else Inr ev)"

definition recorded_upstream_event ::
  "'x lib_scheme \<Rightarrow> ('s, 'u) backend \<Rightarrow> prepared_request \<Rightarrow> bool \<Rightarrow> upstream_verified_event option \<Rightarrow> ('s, 'u) world
     \<Rightarrow> ('s, 'u) world \<times> (admission_error + upstream_verified_event)" where
  "recorded_upstream_event L B prepared req supplied w =
     (let req = (req \<or> bk_requires_verified_binding B prepared)
      in case obtained_event L B prepared req supplied w of
           (w, obtained) \<Rightarrow>
             (w, gate req obtained
                (case obtained of
                   Some ev \<Rightarrow> ev\<lparr>required := req\<rparr>
                 | None \<Rightarrow> default_event\<lparr>upstream_name := pr_upstream_name prepared, uv_model_id := pr_model_id prepared,
                     url_origin := pr_url_origin prepared, verifier_id := ''none'', uv_result := Failed, required := req,
                     uv_reason := Some ''no upstream verifier configured''\<rparr>)))"

definition refresh_upstream_event ::
  "'x lib_scheme \<Rightarrow> ('s, 'u) backend \<Rightarrow> prepared_request \<Rightarrow> bool \<Rightarrow> ('s, 'u) world
     \<Rightarrow> ('s, 'u) world \<times> (admission_error + upstream_verified_event)" where
  "refresh_upstream_event L B prepared req w =
     recorded_upstream_event L B prepared req None (invalidate_upstream_event L B prepared req w)"

text \<open>Admission in the world: the clock is read before and after the sessions are acquired.\<close>

definition admit_in ::
  "'x lib_scheme \<Rightarrow> aci_service \<Rightarrow> ('s, 'u) backend \<Rightarrow> upstream_verified_event \<Rightarrow> string list \<Rightarrow> string \<Rightarrow> u64 option \<Rightarrow> ('s, 'u) world
     \<Rightarrow> ('s, 'u) world \<times> (admission_error + admitted_upstream)" where
  "admit_in L sv B ev allowed model early w =
     (case admit_upstream L sv (bk_acquire B) ev allowed model early (bk_clock B (wo_ticks w)) (bk_clock B (Suc (wo_ticks w))) (wo_sessions w) of
        (s, r) \<Rightarrow> (w\<lparr>wo_sessions := s, wo_ticks := Suc (Suc (wo_ticks w))\<rparr>, r))"

section \<open>Forwarding\<close>

datatype 'r reverify_outcome = Forwarded 'r admitted_upstream | RefreshFailed admission_error | ForwardFailed upstream_error

definition is_mismatch :: "upstream_error \<Rightarrow> bool" where
  "is_mismatch e = (case e of ChannelBindingMismatch _ \<Rightarrow> True | _ \<Rightarrow> False)"

definition withheld_status :: "upstream_error \<Rightarrow> nat option" where
  "withheld_status e = (case e of UpstreamRejected status \<Rightarrow> if 200 \<le> status \<and> status < 300 then None else Some status | _ \<Rightarrow> None)"

text \<open>The loop with \<open>n\<close> attempts to verify again left; \<open>forward\<close> and \<open>held\<close> are the forwarding operation and the empty response.\<close>

fun reverify_loop ::
  "'x lib_scheme \<Rightarrow> aci_service \<Rightarrow> ('s, 'u) backend \<Rightarrow> (prepared_request \<Rightarrow> upstream_verified_event \<Rightarrow> 'u \<Rightarrow> 'u \<times> (upstream_error + 'r)) \<Rightarrow>
     (nat \<Rightarrow> 'r) \<Rightarrow> prepared_request \<Rightarrow> bool \<Rightarrow> bool \<Rightarrow> string list \<Rightarrow> u64 option \<Rightarrow> bool \<Rightarrow> nat \<Rightarrow> admitted_upstream \<Rightarrow> ('s, 'u) world
     \<Rightarrow> ('s, 'u) world \<times> 'r reverify_outcome" where
  "reverify_loop L sv B forward held prepared req supplied ids early always n admission w =
     (case forward prepared (ad_event admission) (wo_outside w) of (u, result) \<Rightarrow>
      let w = w\<lparr>wo_outside := u, wo_sent := wo_sent w @ [(prepared, ad_event admission)]\<rparr>
      in case result of
           Inr response \<Rightarrow> (w, Forwarded response admission)
         | Inl e \<Rightarrow>
             (case withheld_status e of
                Some status \<Rightarrow> (w, Forwarded (held status) (withheld_without_instance admission))
              | None \<Rightarrow>
                  if is_mismatch e \<and> \<not> supplied \<and> n \<noteq> 0 then
                    (case refresh_upstream_event L B prepared req w of
                       (w, Inl e) \<Rightarrow> (w, RefreshFailed e)
                     | (w, Inr ev) \<Rightarrow>
                         (case admit_in L sv B ev ids (pr_model_id prepared) early w of
                            (w, Inl e) \<Rightarrow> (w, RefreshFailed e)
                          | (w, Inr admission) \<Rightarrow>
                              reverify_loop L sv B forward held prepared req supplied ids early always (n - 1) admission w))
                  else (if is_mismatch e \<and> (always \<or> \<not> supplied) then invalidate_upstream_event L B prepared req w else w, ForwardFailed e)))"

declare reverify_loop.simps [simp del]

definition forward_with_binding_reverify where
  "forward_with_binding_reverify L sv B forward held prepared admission req supplied ids early always w =
     reverify_loop L sv B forward held prepared req supplied ids early always CHANNEL_BINDING_REVERIFY_ATTEMPTS admission w"

text \<open>What the buffered and the streamed request share: eligibility of the route, the gate, admission and the forwarding itself.\<close>

definition admit_and_forward ::
  "'x lib_scheme \<Rightarrow> aci_service \<Rightarrow> ('s, 'u) backend \<Rightarrow> (prepared_request \<Rightarrow> upstream_verified_event \<Rightarrow> 'u \<Rightarrow> 'u \<times> (upstream_error + 'r)) \<Rightarrow>
     (nat \<Rightarrow> 'r) \<Rightarrow> chat_completion_request \<Rightarrow> prepared_request \<Rightarrow> ('s, 'u) world \<Rightarrow> ('s, 'u) world \<times> (forward_error + 'r \<times> admitted_upstream)" where
  "admit_and_forward L sv B forward held req prepared w =
     (let restricted = (requires_aci_verification req \<and> \<not> serves_directly sv)
      in if restricted \<and> \<not> attested_route_eligible (pr_is_tee prepared) then
           (w, Inl (AdmissionFailed (UpstreamVerification (NoEligibleAttestedRoute (case cq_user_model req of Some m \<Rightarrow> m | None \<Rightarrow> [])))))
         else case recorded_upstream_event L B prepared restricted (cq_upstream_verification_event req) w of
             (w, Inl e) \<Rightarrow> (w, Inl (AdmissionFailed e))
           | (w, Inr ev) \<Rightarrow>
               (case admit_in L sv B ev (cq_aci_session_ids req) (pr_model_id prepared) None w of
                  (w, Inl e) \<Rightarrow> (w, Inl (AdmissionFailed e))
                | (w, Inr admission) \<Rightarrow>
                    (case forward_with_binding_reverify L sv B forward held prepared admission restricted
                            (cq_upstream_verification_event req \<noteq> None) (cq_aci_session_ids req) None False w of
                       (w, Forwarded response admission) \<Rightarrow> (w, Inr (response, admission))
                     | (w, RefreshFailed e) \<Rightarrow> (w, Inl (AdmissionFailed e))
                     | (w, ForwardFailed e) \<Rightarrow> (w, Inl (UpstreamFailed e)))))"

section \<open>The receipt of a response\<close>

definition append_upstream_verified ::
  "receipt_builder \<Rightarrow> upstream_verified_event \<Rightarrow> string option \<Rightarrow> receipt_error + receipt_builder" where
  "append_upstream_verified b ev recorded =
     (case recorded of
        Some sid \<Rightarrow> add_upstream_verified_with_session b ev sid
      | None \<Rightarrow> add_upstream_verified_failed b (uv_model_id ev)
          (case uv_reason ev of Some r \<Rightarrow> r | None \<Rightarrow> ''no enforceable verified binding'') (required ev) (Some (upstream_name ev)))"

text \<open>The log up to the forwarded request and the verification.\<close>

definition request_log ::
  "'x lib_scheme \<Rightarrow> aci_service \<Rightarrow> chat_completion_request \<Rightarrow> bytes \<Rightarrow> bytes \<Rightarrow> selected_upstream \<Rightarrow> receipt_builder \<Rightarrow> receipt_error + receipt_builder" where
  "request_log L sv req input forwarded selected b =
     and_then (add_request_received L b (cq_received_body req)) (\<lambda>(b, _).
     and_then (case cq_target_route_id req of
         None \<Rightarrow> Inr b
       | Some route \<Rightarrow> and_then (add_middleware_forwarded L b input) (\<lambda>(b, _). add_route_selected b route)) (\<lambda>b.
     and_then (add_request_forwarded L b forwarded) (\<lambda>(b, _).
     if serves_directly sv then Inr b
     else append_upstream_verified b (se_event selected) (map_option ls_session_id (se_lease selected)))))"

definition generate_receipt_id :: "'x lib_scheme \<Rightarrow> bytes \<Rightarrow> string" where
  "generate_receipt_id L fresh = ''rcpt-'' @ hex_encode L fresh"

text \<open>An optional string member of a response body that starts an object.\<close>

definition response_member :: "('s, 'u) backend \<Rightarrow> string \<Rightarrow> bytes \<Rightarrow> string option" where
  "response_member B k body =
     (case dropWhile (\<lambda>c. c \<in> {CHR 0x09, CHR 0x0A, CHR 0x0C, CHR 0x0D, CHR 0x20}) body of
        [] \<Rightarrow> None
      | c # _ \<Rightarrow> if c \<noteq> CHR 0x7B then None else bk_member B k body)"

definition accepted_response_model :: "('s, 'u) backend \<Rightarrow> nat \<Rightarrow> bytes \<Rightarrow> string option" where
  "accepted_response_model B status body = (if \<not> (200 \<le> status \<and> status \<le> 299) then None else response_member B ''model'' body)"

definition is_media_path :: "string \<Rightarrow> bool" where
  "is_media_path path = (path = IMAGES_GENERATIONS_PATH \<or> path = AUDIO_TRANSCRIPTIONS_PATH)"

definition surface_for_path :: "string \<Rightarrow> surface" where
  "surface_for_path path = (if path = MESSAGES_PATH then Anthropic else Openai)"

text \<open>What the client gets: status, cleartext body and headers.\<close>

definition client_response ::
  "'x lib_scheme \<Rightarrow> ('s, 'u) backend \<Rightarrow> chat_completion_request \<Rightarrow> bytes \<Rightarrow> bytes \<Rightarrow> upstream_response
     \<Rightarrow> nat \<times> bytes \<times> (string \<times> string) list" where
  "client_response L B req input forwarded response =
     (let path = cq_endpoint_path req; json_headers = AList.update ''content-type'' ''application/json'' (up_headers response)
      in if 200 \<le> up_status response \<and> up_status response < 300 then
           if is_media_path path then
             (case bk_media B path (up_body response) forwarded
                     (if path = AUDIO_TRANSCRIPTIONS_PATH then Some (case from_slice L input of Some v \<Rightarrow> v | None \<Rightarrow> JNull) else None) of
                Inr body \<Rightarrow> (up_status response, body, json_headers)
              | Inl message \<Rightarrow> (502, to_vec L (envelope Openai ''upstream_error'' message None), json_headers))
           else (up_status response, up_body response, up_headers response)
         else case bk_normalize B (surface_for_path path) (up_status response) (up_body response) (cq_received_body req) of
             (status, body) \<Rightarrow> (status, body, json_headers))"

definition response_model :: "('s, 'u) backend \<Rightarrow> chat_completion_request \<Rightarrow> prepared_request \<Rightarrow> upstream_response \<Rightarrow> string option" where
  "response_model B req prepared response =
     (case accepted_response_model B (up_status response) (up_body response) of
        Some m \<Rightarrow> Some m
      | None \<Rightarrow> if is_media_path (cq_endpoint_path req) then Some (pr_model_id prepared) else None)"

definition encrypt_for_client ::
  "'x crypto_scheme \<Rightarrow> (nat \<Rightarrow> draw) \<Rightarrow> chat_completion_request \<Rightarrow> bytes \<Rightarrow> e2ee_error + bytes" where
  "encrypt_for_client C rnd req body =
     (case cq_e2ee req of Some ctx \<Rightarrow> encrypt_e2ee_response_body C rnd body ctx (cq_endpoint_path req) | None \<Rightarrow> Inr body)"

record forward_result =
  fr_receipt :: signed_receipt
  fr_status :: nat
  fr_body :: bytes
  fr_headers :: "(string \<times> string) list"
  fr_e2ee :: "(string \<times> string) option"

definition buffered_log ::
  "'x lib_scheme \<Rightarrow> aci_service \<Rightarrow> ('s, 'u) backend \<Rightarrow> chat_completion_request \<Rightarrow> bytes \<Rightarrow> prepared_request \<Rightarrow> upstream_response
     \<Rightarrow> selected_upstream \<Rightarrow> bytes \<Rightarrow> receipt_builder \<Rightarrow> receipt_error + receipt_builder" where
  "buffered_log L sv B req input prepared response selected wire b =
     and_then (request_log L sv req input (uq_body (pr_request prepared)) selected b) (\<lambda>b.
     let b = (if serves_directly sv then b else set_upstream_verified_model_id b (response_model B req prepared response))
     in and_then (add_response_returned L b wire) (\<lambda>(b, _). Inr b))"

definition finish_buffered ::
  "'x crypto_scheme \<Rightarrow> key_provider \<Rightarrow> aci_service \<Rightarrow> ('s, 'u) backend \<Rightarrow> (nat \<Rightarrow> draw) \<Rightarrow> bytes \<Rightarrow> chat_completion_request \<Rightarrow> bytes
     \<Rightarrow> prepared_request \<Rightarrow> upstream_response \<Rightarrow> admitted_upstream \<Rightarrow> ('s, 'u) world \<Rightarrow> ('s, 'u) world \<times> (forward_error + forward_result)" where
  "finish_buffered C keys sv B rnd fresh req input prepared response admission w =
     (case client_response C B req input (uq_body (pr_request prepared)) response of (status, body, headers) \<Rightarrow>
      case and_then (map_err AdmissionFailed (select admission (up_served_instance response))) (\<lambda>selected.
           and_then (map_err E2eeFailed (encrypt_for_client C rnd req body)) (\<lambda>wire.
           and_then (map_err ReceiptFailed (and_then
             (buffered_log C sv B req input prepared response selected wire
                (builder_new (generate_receipt_id C fresh) (response_member B ''id'' body) (cq_user_model req) (sk_digest (sv_keyset sv))
                   (cq_endpoint_path req) ''POST'' (se_admitted_at selected)))
             (\<lambda>b. finalize C keys b (sv_default_receipt_key_id sv)))) (\<lambda>receipt. Inr (selected, wire, receipt)))) of
        Inl e \<Rightarrow> (w, Inl e)
      | Inr (selected, wire, receipt) \<Rightarrow>
          (case store_receipt (bk_extend B) receipt (cq_requester req) (bk_clock B (wo_ticks w)) (sc_receipt_ttl_seconds (sv_config sv))
                  (se_lease selected) (wo_sessions w) (wo_receipts w) of
             (sessions, receipts, r) \<Rightarrow>
               (w\<lparr>wo_sessions := sessions, wo_receipts := receipts, wo_ticks := Suc (wo_ticks w)\<rparr>,
                and_then (map_err StoreFailed r) (\<lambda>_.
                Inr \<lparr>fr_receipt = receipt, fr_status = status, fr_body = wire, fr_headers = headers,
                     fr_e2ee = map_option (\<lambda>ctx. (cx_version ctx, cx_algo ctx)) (cq_e2ee req)\<rparr>))))"

definition backend_input :: "chat_completion_request \<Rightarrow> bytes" where
  "backend_input req = (case cq_forwarded_body req of Some b \<Rightarrow> b | None \<Rightarrow> cq_received_body req)"

definition upstream_request_of :: "chat_completion_request \<Rightarrow> audio_form option \<Rightarrow> upstream_request" where
  "upstream_request_of req form = \<lparr>uq_form = form, uq_content_type = None, uq_body = backend_input req, uq_headers = [],
     uq_path = Some (cq_endpoint_path req), uq_target_route_id = cq_target_route_id req\<rparr>"

definition encode_audio :: "'x lib_scheme \<Rightarrow> ('s, 'u) backend \<Rightarrow> prepared_request \<Rightarrow> upstream_error + prepared_request" where
  "encode_audio L B p =
     (case uq_form (pr_request p) of
        None \<Rightarrow> Inr p
      | Some form \<Rightarrow>
          and_then (ok_or (InvalidRequest ''invalid transcription metadata'') (from_slice L (uq_body (pr_request p)))) (\<lambda>params.
          and_then (bk_encode_form B form params) (\<lambda>(body, content_type).
          Inr (p\<lparr>pr_request := (pr_request p)\<lparr>uq_form := None, uq_body := body, uq_content_type := Some content_type\<rparr>\<rparr>))))"

definition forward_chat_completion_request ::
  "'x crypto_scheme \<Rightarrow> key_provider \<Rightarrow> aci_service \<Rightarrow> ('s, 'u) backend \<Rightarrow> (nat \<Rightarrow> draw) \<Rightarrow> bytes \<Rightarrow> chat_completion_request
     \<Rightarrow> ('s, 'u) world \<Rightarrow> ('s, 'u) world \<times> (forward_error + forward_result)" where
  "forward_chat_completion_request C keys sv B rnd fresh req w =
     (case and_then (bk_prepare B (upstream_request_of req (cq_audio_form req))) (encode_audio C B) of
        Inl e \<Rightarrow> (w, Inl (UpstreamFailed e))
      | Inr prepared \<Rightarrow>
          (case admit_and_forward C sv B (bk_forward B) withheld req prepared w of
             (w, Inl e) \<Rightarrow> (w, Inl e)
           | (w, Inr (response, admission)) \<Rightarrow>
               finish_buffered C keys sv B rnd fresh req (backend_input req) prepared response admission w))"

section \<open>Streamed responses\<close>

record forward_stream =
  fs_receipt_id :: string
  fs_keyset_digest :: string
  fs_status :: nat
  fs_headers :: "(string \<times> string) list"
  fs_e2ee :: "(string \<times> string) option"
  fs_finalizer :: finalizer
  fs_builder :: receipt_builder
  fs_lease :: "session_lease option"
  fs_requester :: "receipt_owner option"
  fs_body :: "inner_item list"

datatype streaming_result = StreamedBody forward_stream | StreamUpstreamError nat "(string \<times> string) list" bytes

definition stream_is_sse :: "(string \<times> string) list \<Rightarrow> bool" where
  "stream_is_sse headers =
     (case List.find (\<lambda>(name, _). eq_ignore_ascii_case name ''content-type'') headers of
        None \<Rightarrow> True
      | Some (_, v) \<Rightarrow> is_sse_content_type (Some v))"

definition finish_stream ::
  "'x crypto_scheme \<Rightarrow> aci_service \<Rightarrow> ('s, 'u) backend \<Rightarrow> bytes \<Rightarrow> chat_completion_request \<Rightarrow> prepared_request \<Rightarrow> upstream_stream_response
     \<Rightarrow> admitted_upstream \<Rightarrow> forward_error + streaming_result" where
  "finish_stream C sv B fresh req prepared response admission =
     and_then (map_err AdmissionFailed (select admission (us_served_instance response))) (\<lambda>selected.
     if us_status response \<noteq> 200 then
       and_then (map_err UpstreamFailed (bk_collect B (us_body response) (us_headers response))) (\<lambda>body.
       Inr (StreamUpstreamError (us_status response) (us_headers response) body))
     else
       let rid = generate_receipt_id C fresh; is_sse = stream_is_sse (us_headers response)
       in and_then (map_err ReceiptFailed (request_log C sv req (backend_input req) (uq_body (pr_request prepared)) selected
              (builder_new rid None (cq_user_model req) (sk_digest (sv_keyset sv)) (cq_endpoint_path req) ''POST'' (se_admitted_at selected)))) (\<lambda>b.
          and_then (ensure (\<not> (cq_e2ee req \<noteq> None \<and> \<not> is_sse)) (E2eeFailed EncryptionFailed)) (\<lambda>_.
          Inr (StreamedBody \<lparr>fs_receipt_id = rid, fs_keyset_digest = sk_digest (sv_keyset sv), fs_status = us_status response,
            fs_headers = us_headers response, fs_e2ee = map_option (\<lambda>ctx. (cx_version ctx, cx_algo ctx)) (cq_e2ee req),
            fs_finalizer = finalizer_new (cq_endpoint_path req) (map_option (\<lambda>ctx. transformer_new ctx (cq_endpoint_path req)) (cq_e2ee req))
              (Some (cq_request_id req)) is_sse,
            fs_builder = b, fs_lease = se_lease selected, fs_requester = cq_requester req, fs_body = us_body response\<rparr>))))"

definition forward_chat_completion_stream_request ::
  "'x crypto_scheme \<Rightarrow> aci_service \<Rightarrow> ('s, 'u) backend \<Rightarrow> bytes \<Rightarrow> chat_completion_request \<Rightarrow> ('s, 'u) world
     \<Rightarrow> ('s, 'u) world \<times> (forward_error + streaming_result)" where
  "forward_chat_completion_stream_request C sv B fresh req w =
     (case bk_prepare B (upstream_request_of req None) of
        Inl e \<Rightarrow> (w, Inl (UpstreamFailed e))
      | Inr prepared \<Rightarrow>
          (case admit_and_forward C sv B (bk_forward_stream B) stream_withheld req prepared w of
             (w, Inl e) \<Rightarrow> (w, Inl e)
           | (w, Inr (response, admission)) \<Rightarrow> (w, finish_stream C sv B fresh req prepared response admission)))"

section \<open>Refusals\<close>

definition issue_upstream_refusal_receipt ::
  "'x lib_scheme \<Rightarrow> key_provider \<Rightarrow> aci_service \<Rightarrow> ('s, 'u) backend \<Rightarrow> bytes \<Rightarrow> string \<Rightarrow> string option \<Rightarrow> bytes \<Rightarrow> string \<Rightarrow> bytes
     \<Rightarrow> receipt_owner option \<Rightarrow> ('s, 'u) world \<Rightarrow> ('s, 'u) world \<times> (forward_error + signed_receipt)" where
  "issue_upstream_refusal_receipt L keys sv B fresh path model received reason wire requester w =
     (let b = builder_new (generate_receipt_id L fresh) None model (sk_digest (sv_keyset sv)) path ''POST'' (bk_clock B (wo_ticks w));
          w = w\<lparr>wo_ticks := Suc (wo_ticks w)\<rparr>
      in case and_then (add_request_received L b received) (\<lambda>(b, _).
              and_then (add_upstream_verified_failed b (case model of Some m \<Rightarrow> m | None \<Rightarrow> []) reason True None) (\<lambda>b.
              and_then (add_response_returned L b wire) (\<lambda>(b, _).
              finalize L keys b (sv_default_receipt_key_id sv)))) of
           Inl e \<Rightarrow> (w, Inl (ReceiptFailed e))
         | Inr receipt \<Rightarrow>
             (case store_receipt (bk_extend B) receipt requester (bk_clock B (wo_ticks w)) (sc_receipt_ttl_seconds (sv_config sv)) None
                     (wo_sessions w) (wo_receipts w) of
                (sessions, receipts, r) \<Rightarrow>
                  (w\<lparr>wo_sessions := sessions, wo_receipts := receipts, wo_ticks := Suc (wo_ticks w)\<rparr>,
                   and_then (map_err StoreFailed r) (\<lambda>_. Inr receipt))))"

section \<open>Lemmas\<close>

text \<open>Whether the service demands a verified upstream for the request on this route.\<close>

definition demanded :: "aci_service \<Rightarrow> ('s, 'u) backend \<Rightarrow> chat_completion_request \<Rightarrow> prepared_request \<Rightarrow> bool" where
  "demanded sv B req p = ((requires_aci_verification req \<and> \<not> serves_directly sv) \<or> bk_requires_verified_binding B p)"

definition gated :: "bool \<Rightarrow> upstream_verified_event \<Rightarrow> bool" where
  "gated d ev = (required ev = d \<and> (d \<longrightarrow> uv_result ev = Verified \<and> channel_bindings ev \<noteq> []))"

text \<open>An admission that the gate and \<open>admit_upstream\<close> both granted.\<close>

definition authorised ::
  "'x lib_scheme \<Rightarrow> aci_service \<Rightarrow> ('s, 'u) backend \<Rightarrow> chat_completion_request \<Rightarrow> prepared_request \<Rightarrow> admitted_upstream \<Rightarrow> bool" where
  "authorised L sv B req p a = (\<exists>ev n s s'. gated (demanded sv B req p) ev \<and>
     admit_upstream L sv (bk_acquire B) ev (cq_aci_session_ids req) (pr_model_id p) None (bk_clock B n) (bk_clock B (Suc n)) s = (s', Inr a))"

lemma recorded_event_facts:
  assumes "recorded_upstream_event L B p d supplied w = (w', r)"
  shows "wo_sent w' = wo_sent w" and "wo_receipts w' = wo_receipts w"
    and "r = Inr ev \<Longrightarrow> gated (d \<or> bk_requires_verified_binding B p) ev"
proof -
  let ?d = "d \<or> bk_requires_verified_binding B p"
  obtain w1 ob where ob: "obtained_event L B p ?d supplied w = (w1, ob)" by fastforce
  have w1: "wo_sent w1 = wo_sent w \<and> wo_receipts w1 = wo_receipts w"
    using ob by (auto simp: obtained_event_def split: option.splits prod.splits)
  show "wo_sent w' = wo_sent w" "wo_receipts w' = wo_receipts w" using assms w1 by (simp_all add: recorded_upstream_event_def Let_def ob)
  show "gated ?d ev" if "r = Inr ev"
    using assms that by (cases ob) (auto simp: recorded_upstream_event_def Let_def ob gate_def gated_def split: if_splits)
qed

lemma invalidate_frame:
  "wo_sent (invalidate_upstream_event L B p d w) = wo_sent w" "wo_receipts (invalidate_upstream_event L B p d w) = wo_receipts w"
  by (simp_all add: invalidate_upstream_event_def split: option.split)

lemma refresh_facts:
  assumes "refresh_upstream_event L B p d w = (w', r)"
  shows "wo_sent w' = wo_sent w" and "wo_receipts w' = wo_receipts w"
    and "r = Inr ev \<Longrightarrow> gated (d \<or> bk_requires_verified_binding B p) ev"
  using recorded_event_facts [OF assms [unfolded refresh_upstream_event_def]] by (simp_all add: invalidate_frame)

lemma admit_in_facts:
  assumes "admit_in L sv B ev ids m early w = (w', r)"
  shows "wo_sent w' = wo_sent w" and "wo_receipts w' = wo_receipts w"
    and "r = Inr a \<Longrightarrow> \<exists>n s s'. admit_upstream L sv (bk_acquire B) ev ids m early (bk_clock B n) (bk_clock B (Suc n)) s = (s', Inr a)"
  using assms by (auto simp: admit_in_def split: prod.splits)

lemma authorisedI:
  assumes "gated (demanded sv B req p) ev" and "admit_in L sv B ev (cq_aci_session_ids req) (pr_model_id p) None w = (w', Inr a)"
  shows "authorised L sv B req p a"
  using assms(1) admit_in_facts(3) [OF assms(2)] unfolding authorised_def by blast

text \<open>What an attempt of the loop ends with.\<close>

definition served_under :: "admitted_upstream \<Rightarrow> admitted_upstream \<Rightarrow> bool" where
  "served_under a a' = (a' = a \<or> a' = withheld_without_instance a)"

text \<open>One turn of the loop: it ends, or it goes on with one attempt less and a new admission.\<close>

lemma reverify_turn:
  assumes "reverify_loop L sv B forward held p (requires_aci_verification req \<and> \<not> serves_directly sv) supplied (cq_aci_session_ids req)
      None always n a w = (w', out)"
  obtains
    (ends) "wo_sent w' = wo_sent w @ [(p, ad_event a)]" "wo_receipts w' = wo_receipts w"
      "\<And>response a'. out = Forwarded response a' \<Longrightarrow> served_under a a'"
  | (again) m a' w2 where "n = Suc m" "wo_sent w2 = wo_sent w @ [(p, ad_event a)]" "wo_receipts w2 = wo_receipts w"
      "authorised L sv B req p a'"
      "reverify_loop L sv B forward held p (requires_aci_verification req \<and> \<not> serves_directly sv) supplied (cq_aci_session_ids req)
         None always m a' w2 = (w', out)"
proof -
  let ?d = "requires_aci_verification req \<and> \<not> serves_directly sv"
  obtain u result where fw: "forward p (ad_event a) (wo_outside w) = (u, result)" by fastforce
  define w1 where "w1 = w\<lparr>wo_outside := u, wo_sent := wo_sent w @ [(p, ad_event a)]\<rparr>"
  show ?thesis
  proof (cases "\<exists>e. result = Inl e \<and> withheld_status e = None \<and> is_mismatch e \<and> \<not> supplied \<and> n \<noteq> 0")
    case False
    then show ?thesis
      using assms fw
      by (intro ends)
        (auto simp: reverify_loop.simps Let_def served_under_def invalidate_frame split: sum.splits option.splits if_splits)
  next
    case True
    then obtain m where m: "n = Suc m" "supplied = False" by (cases n) auto
    have loop: "(case refresh_upstream_event L B p ?d w1 of
        (w, Inl e) \<Rightarrow> (w, RefreshFailed e)
      | (w, Inr ev) \<Rightarrow>
          (case admit_in L sv B ev (cq_aci_session_ids req) (pr_model_id p) None w of
             (w, Inl e) \<Rightarrow> (w, RefreshFailed e)
           | (w, Inr a) \<Rightarrow> reverify_loop L sv B forward held p ?d False (cq_aci_session_ids req) None always m a w)) = (w', out)"
      using assms fw True m by (auto simp: reverify_loop.simps [where n = "Suc m"] Let_def w1_def)
    obtain w2 r2 where r2: "refresh_upstream_event L B p ?d w1 = (w2, r2)" by fastforce
    note f2 = refresh_facts [OF r2]
    show ?thesis
    proof (cases r2)
      case (Inl e)
      then show ?thesis using loop r2 f2 by (intro ends) (auto simp: w1_def)
    next
      case (Inr ev)
      obtain w3 r3 where r3: "admit_in L sv B ev (cq_aci_session_ids req) (pr_model_id p) None w2 = (w3, r3)" by fastforce
      show ?thesis
        using loop r2 Inr r3 f2 admit_in_facts [OF r3] authorisedI [of sv B req p ev L w2 w3] m
        by (cases r3) (auto simp: w1_def demanded_def intro: ends again)
    qed
  qed
qed

lemma reverify_loop_facts:
  assumes "authorised L sv B req p a"
    and "reverify_loop L sv B forward held p (requires_aci_verification req \<and> \<not> serves_directly sv) supplied (cq_aci_session_ids req)
      None always n a w = (w', out)"
  shows "\<exists>as. wo_sent w' = wo_sent w @ map (\<lambda>a. (p, ad_event a)) as \<and> as \<noteq> [] \<and> length as \<le> Suc n \<and>
    list_all (authorised L sv B req p) as \<and> wo_receipts w' = wo_receipts w \<and>
    (\<forall>response a'. out = Forwarded response a' \<longrightarrow> served_under (last as) a')"
  using assms
proof (induction n arbitrary: a w)
  case 0
  from 0(2) show ?case
  proof (cases rule: reverify_turn)
    case ends
    then show ?thesis using 0(1) by (intro exI [of _ "[a]"]) simp
  qed simp
next
  case (Suc n)
  from Suc.prems(2) show ?case
  proof (cases rule: reverify_turn)
    case ends
    then show ?thesis using Suc.prems(1) by (intro exI [of _ "[a]"]) simp
  next
    case (again m a' w2)
    then obtain as where "wo_sent w' = wo_sent w2 @ map (\<lambda>a. (p, ad_event a)) as \<and> as \<noteq> [] \<and> length as \<le> Suc n \<and>
        list_all (authorised L sv B req p) as \<and> wo_receipts w' = wo_receipts w2 \<and>
        (\<forall>response a'. out = Forwarded response a' \<longrightarrow> served_under (last as) a')" using Suc.IH by blast
    then show ?thesis using again(2,3) Suc.prems(1) by (intro exI [of _ "a # as"]) simp
  qed
qed

lemma admit_and_forward_facts:
  assumes "admit_and_forward L sv B forward held req p w = (w', r)"
  shows "\<exists>as. wo_sent w' = wo_sent w @ map (\<lambda>a. (p, ad_event a)) as \<and> length as \<le> 3 \<and> list_all (authorised L sv B req p) as \<and>
    wo_receipts w' = wo_receipts w \<and>
    (as \<noteq> [] \<and> requires_aci_verification req \<and> \<not> serves_directly sv \<longrightarrow> pr_is_tee p = Some True) \<and>
    (\<forall>response a. r = Inr (response, a) \<longrightarrow> as \<noteq> [] \<and> served_under (last as) a)"
proof -
  let ?d = "requires_aci_verification req \<and> \<not> serves_directly sv" and ?ids = "cq_aci_session_ids req"
  let ?supplied = "cq_upstream_verification_event req"
  show ?thesis
  proof (cases "?d \<and> \<not> attested_route_eligible (pr_is_tee p)")
    case True
    then show ?thesis using assms by (intro exI [of _ "[]"]) (auto simp: admit_and_forward_def)
  next
    case False
    obtain w1 r1 where r1: "recorded_upstream_event L B p ?d ?supplied w = (w1, r1)" by fastforce
    note f1 = recorded_event_facts [OF r1] and body = assms [unfolded admit_and_forward_def Let_def if_not_P [OF False] r1]
    show ?thesis
    proof (cases r1)
      case (Inl e)
      then show ?thesis using body f1 by (intro exI [of _ "[]"]) auto
    next
      case (Inr ev)
      obtain w2 r2 where r2: "admit_in L sv B ev ?ids (pr_model_id p) None w1 = (w2, r2)" by fastforce
      note f2 = admit_in_facts [OF r2]
      show ?thesis
      proof (cases r2)
        case (Inl e)
        then show ?thesis using body \<open>r1 = Inr ev\<close> r2 f1 f2 by (intro exI [of _ "[]"]) auto
      next
        case (Inr a)
        obtain w3 out where out: "reverify_loop L sv B forward held p ?d (?supplied \<noteq> None) ?ids None False
            CHANNEL_BINDING_REVERIFY_ATTEMPTS a w2 = (w3, out)" by fastforce
        have "authorised L sv B req p a"
          using authorisedI r2 Inr f1(3) [OF \<open>r1 = Inr ev\<close>] by (auto simp: demanded_def)
        from reverify_loop_facts [OF this out] obtain as where as: "wo_sent w3 = wo_sent w2 @ map (\<lambda>a. (p, ad_event a)) as" "as \<noteq> []"
          "length as \<le> 3" "list_all (authorised L sv B req p) as" "wo_receipts w3 = wo_receipts w2"
          "\<forall>response a'. out = Forwarded response a' \<longrightarrow> served_under (last as) a'" by (auto simp: CHANNEL_BINDING_REVERIFY_ATTEMPTS_def)
        show ?thesis
          using body \<open>r1 = Inr ev\<close> r2 Inr out f1(1,2) f2(1,2) as False
          by (cases out) (auto simp: forward_with_binding_reverify_def attested_route_eligible_def intro!: exI [of _ as])
      qed
    qed
  qed
qed

text \<open>What may be handed to the backend: the route is attested and the channels are verified ones if the service demands it, and
  under pins the channels are those of sessions the client listed, valid at a reading of the clock.\<close>

definition pinned_channels :: "('s, 'u) backend \<Rightarrow> string list \<Rightarrow> upstream_verified_event \<Rightarrow> bool" where
  "pinned_channels B ids ev = (\<exists>(groups :: session_group list) n. groups \<noteq> [] \<and> channel_bindings ev = concat (map sg_bindings groups) \<and>
     (\<forall>g \<in> set groups. ls_session_id (sg_lease g) \<in> set ids \<and> ls_established_at (sg_lease g) \<le> bk_clock B n \<and>
        bk_clock B n < ls_expires_at (sg_lease g)))"

definition may_be_sent :: "aci_service \<Rightarrow> ('s, 'u) backend \<Rightarrow> chat_completion_request \<Rightarrow> prepared_request \<Rightarrow> upstream_verified_event \<Rightarrow> bool" where
  "may_be_sent sv B req p ev =
     ((requires_aci_verification req \<and> \<not> serves_directly sv \<longrightarrow> pr_is_tee p = Some True) \<and>
      gated (demanded sv B req p) ev \<and>
      (cq_aci_session_ids req \<noteq> [] \<longrightarrow> uv_result ev = Verified \<and> pinned_channels B (cq_aci_session_ids req) ev))"

lemma authorised_cases:
  assumes "authorised L sv B req p a"
  obtains ev n groups where "gated (demanded sv B req p) ev" "filter_sessions (cq_aci_session_ids req) (bk_clock B (Suc n)) groups = Inr (ad_sessions a)"
    "cq_aci_session_ids req = [] \<or> ad_sessions a \<noteq> []"
    "ad_event a = (if ad_sessions a \<noteq> [] then ev\<lparr>channel_bindings := concat (map sg_bindings (ad_sessions a))\<rparr> else ev)"
    "(groups = [] \<and> (serves_directly sv \<or> uv_result ev \<noteq> Verified)) \<or>
     (\<not> serves_directly sv \<and> uv_result ev = Verified \<and> channel_groups L ev = Inr (map (\<lambda>g. (instance_key g, sg_bindings g)) groups))"
proof -
  obtain ev n s s' where ad: "gated (demanded sv B req p) ev" "admit_upstream L sv (bk_acquire B) ev (cq_aci_session_ids req) (pr_model_id p) None
      (bk_clock B n) (bk_clock B (Suc n)) s = (s', Inr a)"
    using assms by (auto simp: authorised_def)
  show ?thesis by (rule admit_Inr [OF ad(2)], rule that [OF ad(1)], assumption+, rule recorded_groups)
qed

lemma authorised_lease:
  assumes "authorised L sv B req p a" and "g \<in> set (ad_sessions a)"
  shows "uv_result (ad_event a) = Verified \<and>
    (cq_aci_session_ids req = [] \<or> ls_session_id (sg_lease g) \<in> set (cq_aci_session_ids req))"
  using assms(1)
proof (cases rule: authorised_cases)
  case (1 ev n groups)
  note f = filter_sessions_Inr [OF 1(2)]
  have "g \<in> set groups" "cq_aci_session_ids req = [] \<or> ls_session_id (sg_lease g) \<in> set (cq_aci_session_ids req)" using f assms(2) by auto
  then show ?thesis using 1(4,5) by auto
qed

lemma authorised_required: "authorised L sv B req p a \<Longrightarrow> required (ad_event a) = demanded sv B req p"
  by (erule authorised_cases) (simp add: gated_def)

lemma authorised_may_be_sent:
  assumes "to_vec_inj L" and "authorised L sv B req p a"
    and "requires_aci_verification req \<and> \<not> serves_directly sv \<longrightarrow> pr_is_tee p = Some True"
  shows "may_be_sent sv B req p (ad_event a)"
  using assms(2)
proof (cases rule: authorised_cases)
  case (1 ev n groups)
  let ?as = "ad_sessions a"
  note f = filter_sessions_Inr [OF 1(2)]
  have sub: "g \<in> set groups" if "g \<in> set ?as" for g using f that by auto
  have bound: "sg_bindings g \<noteq> [] \<and> uv_result ev = Verified" if "g \<in> set ?as" for g
    using 1(5) sub [OF that] channel_groups_facts [OF assms(1), of ev] by fastforce
  have "gated (demanded sv B req p) (ad_event a)"
    using 1(1,4) bound by (cases ?as) (auto simp: gated_def)
  moreover have "pinned_channels B (cq_aci_session_ids req) (ad_event a) \<and> uv_result (ad_event a) = Verified" if pins: "cq_aci_session_ids req \<noteq> []"
  proof
    have ne: "?as \<noteq> []" using 1(3) pins by blast
    then have ev: "ad_event a = ev\<lparr>channel_bindings := concat (map sg_bindings ?as)\<rparr>" using 1(4) by simp
    show "uv_result (ad_event a) = Verified" using bound [of "hd ?as"] ne by (simp add: ev)
    have "\<forall>g \<in> set ?as. ls_session_id (sg_lease g) \<in> set (cq_aci_session_ids req) \<and> ls_established_at (sg_lease g) \<le> bk_clock B (Suc n) \<and>
        bk_clock B (Suc n) < ls_expires_at (sg_lease g)" using f pins by auto
    moreover have "channel_bindings (ad_event a) = concat (map sg_bindings ?as)" by (simp add: ev)
    ultimately show "pinned_channels B (cq_aci_session_ids req) (ad_event a)" unfolding pinned_channels_def using ne by blast
  qed
  ultimately show ?thesis using assms(3) by (auto simp: may_be_sent_def)
qed

lemma admit_and_forward_sent:
  assumes "to_vec_inj L" and "admit_and_forward L sv B forward held req p w = (w', r)"
  shows "\<exists>sent. wo_sent w' = wo_sent w @ sent \<and> length sent \<le> 3 \<and> (\<forall>(q, ev) \<in> set sent. q = p \<and> may_be_sent sv B req q ev)"
proof -
  obtain as where as: "wo_sent w' = wo_sent w @ map (\<lambda>a. (p, ad_event a)) as" "length as \<le> 3" "list_all (authorised L sv B req p) as"
    "as \<noteq> [] \<and> requires_aci_verification req \<and> \<not> serves_directly sv \<longrightarrow> pr_is_tee p = Some True"
    using admit_and_forward_facts [OF assms(2)] by blast
  have "may_be_sent sv B req p (ad_event a)" if "a \<in> set as" for a
    using that as(3,4) by (intro authorised_may_be_sent [OF assms(1)]) (auto simp: list_all_iff)
  then show ?thesis using as(1,2) by (intro exI [of _ "map (\<lambda>a. (p, ad_event a)) as"]) auto
qed

lemma finish_buffered_sent: "finish_buffered C keys sv B rnd fresh req input p response a w = (w', r) \<Longrightarrow> wo_sent w' = wo_sent w"
  unfolding finish_buffered_def by (auto split: prod.splits sum.splits)

section \<open>Properties\<close>


definition body_event :: "'x lib_scheme \<Rightarrow> string \<Rightarrow> bytes \<Rightarrow> receipt_event" where
  "body_event L etype body = \<lparr>re_type = etype, re_fields = [(''body_hash'', JString (sha256_hex L body))]\<rparr>"

text \<open>The events of the request: what was received, what the middleware made of it and for which route, what was forwarded.\<close>

definition request_events :: "'x lib_scheme \<Rightarrow> chat_completion_request \<Rightarrow> bytes \<Rightarrow> receipt_event list" where
  "request_events L req forwarded =
     [body_event L EVENT_REQUEST_RECEIVED (cq_received_body req)] @
     (case cq_target_route_id req of
        None \<Rightarrow> []
      | Some route \<Rightarrow> [body_event L EVENT_MIDDLEWARE_FORWARDED (backend_input req),
          \<lparr>re_type = EVENT_ROUTE_SELECTED, re_fields = [(''target_route_id'', JString route)]\<rparr>]) @
     [body_event L EVENT_REQUEST_FORWARDED forwarded]"

text \<open>The verification event of a response: verified with the session of the lease, or failed with a reason.\<close>

definition records_lease :: "bool \<Rightarrow> session_lease option \<Rightarrow> receipt_event \<Rightarrow> bool" where
  "records_lease d lease v = (re_type v = EVENT_UPSTREAM_VERIFIED \<and> map_of (re_fields v) ''required'' = Some (JBool d) \<and>
     (case lease of
        Some l \<Rightarrow> is_session_id (ls_session_id l) \<and> field_str v ''result'' = Some ''verified'' \<and> field_str v ''session_id'' = Some (ls_session_id l)
      | None \<Rightarrow> field_str v ''result'' = Some ''failed'' \<and> field_str v ''reason'' \<noteq> None))"

lemma append_body_hash_Inr:
  "append_body_hash L b etype body = Inr (b', h) \<longleftrightarrow>
     (events b = [] \<longrightarrow> etype = EVENT_REQUEST_RECEIVED) \<and> h = sha256_hex L body \<and> b' = b\<lparr>events := events b @ [body_event L etype body]\<rparr>"
  by (auto simp: append_body_hash_def append_hash_def append_event_Inr result_iffs body_event_def Let_def)

lemmas append_defs = add_request_received_def add_middleware_forwarded_def add_request_forwarded_def add_response_returned_def
  add_route_selected_def append_body_hash_Inr append_event_Inr

lemma append_upstream_verified_Inr:
  assumes "append_upstream_verified b ev recorded = Inr b'" and "recorded = map_option ls_session_id lease"
  shows "\<exists>v. b' = b\<lparr>events := events b @ [v]\<rparr> \<and> records_lease (required ev) lease v"
  using assms
  by (cases lease)
    (auto simp: append_upstream_verified_def add_upstream_verified_with_session_def add_upstream_verified_failed_def append_event_Inr
      records_lease_def field_str_def result_str_def split: if_splits)

lemma request_log_Inr:
  assumes "request_log L sv req (backend_input req) forwarded selected b = Inr b'" and "events b = []"
  shows "\<exists>vs. b' = b\<lparr>events := request_events L req forwarded @ vs\<rparr> \<and>
    (if serves_directly sv then vs = [] else \<exists>v. vs = [v] \<and> records_lease (required (se_event selected)) (se_lease selected) v)"
proof -
  define b1 where "b1 = b\<lparr>events := request_events L req forwarded\<rparr>"
  have "(if serves_directly sv then Inr b1
      else append_upstream_verified b1 (se_event selected) (map_option ls_session_id (se_lease selected))) = Inr b'"
    using assms unfolding request_log_def b1_def request_events_def
    by (cases "cq_target_route_id req") (auto simp: result_iffs append_defs)
  then show ?thesis
    using append_upstream_verified_Inr [of b1 "se_event selected" _ b' "se_lease selected", OF _ refl]
    by (cases "serves_directly sv") (auto simp: b1_def)
qed

lemma set_first_skips:
  "\<forall>e \<in> set es. re_type e \<noteq> EVENT_UPSTREAM_VERIFIED \<Longrightarrow> set_first_verified_model m (es @ vs) = es @ set_first_verified_model m vs"
  by (induction es) simp_all

lemma request_events_types: "e \<in> set (request_events L req forwarded) \<Longrightarrow> re_type e \<noteq> EVENT_UPSTREAM_VERIFIED"
  by (auto simp: request_events_def body_event_def event_names split: option.splits)

lemma records_lease_model: "records_lease d lease v \<Longrightarrow> \<exists>v'. set_first_verified_model m [v] = [v'] \<and> records_lease d lease v'"
  by (auto simp: records_lease_def field_str_def update_conv' split: option.splits)

lemma buffered_log_Inr:
  assumes "buffered_log L sv B req (backend_input req) p response selected wire b = Inr b'" and "events b = []"
  shows "\<exists>vs. b' = b\<lparr>events := request_events L req (uq_body (pr_request p)) @ vs @ [body_event L EVENT_RESPONSE_RETURNED wire]\<rparr> \<and>
    (if serves_directly sv then vs = [] else \<exists>v. vs = [v] \<and> records_lease (required (se_event selected)) (se_lease selected) v)"
proof -
  obtain b1 where b1: "request_log L sv req (backend_input req) (uq_body (pr_request p)) selected b = Inr b1"
    using assms(1) by (auto simp: buffered_log_def result_iffs)
  obtain vs where vs: "b1 = b\<lparr>events := request_events L req (uq_body (pr_request p)) @ vs\<rparr>"
    "if serves_directly sv then vs = [] else \<exists>v. vs = [v] \<and> records_lease (required (se_event selected)) (se_lease selected) v"
    using request_log_Inr [OF b1 assms(2)] by blast
  define b2 where "b2 = (if serves_directly sv then b1 else set_upstream_verified_model_id b1 (response_model B req p response))"
  obtain vs' where vs': "b2 = b\<lparr>events := request_events L req (uq_body (pr_request p)) @ vs'\<rparr> \<and>
    (if serves_directly sv then vs' = [] else \<exists>v. vs' = [v] \<and> records_lease (required (se_event selected)) (se_lease selected) v)"
  proof (cases "serves_directly sv \<or> response_model B req p response = None")
    case True
    then have "b2 = b1" by (auto simp: b2_def set_upstream_verified_model_id_def)
    then show ?thesis using vs that by blast
  next
    case False
    then obtain m where m: "response_model B req p response = Some m" "\<not> serves_directly sv" by blast
    have "set_first_verified_model m (request_events L req (uq_body (pr_request p)) @ vs) =
        request_events L req (uq_body (pr_request p)) @ set_first_verified_model m vs" by (intro set_first_skips ballI request_events_types)
    then have "b2 = b\<lparr>events := request_events L req (uq_body (pr_request p)) @ set_first_verified_model m vs\<rparr>"
      using m vs(1) by (simp add: b2_def set_upstream_verified_model_id_def)
    moreover obtain v' where "set_first_verified_model m vs = [v']" "records_lease (required (se_event selected)) (se_lease selected) v'"
      using m(2) vs(2) records_lease_model by (metis (no_types))
    ultimately show ?thesis using m(2) by (intro that [of "[v']"]) simp
  qed
  have "b' = b2\<lparr>events := events b2 @ [body_event L EVENT_RESPONSE_RETURNED wire]\<rparr>"
    using assms(1) b1 by (auto simp: buffered_log_def result_iffs append_defs b2_def Let_def)
  then show ?thesis using vs' by (intro exI [of _ vs']) simp
qed

lemma finish_buffered_Inr:
  assumes "finish_buffered C keys sv B rnd fresh req (backend_input req) p response a w = (w', Inr r)"
  obtains selected chat b where "select a (up_served_instance response) = Inr selected"
    "buffered_log C sv B req (backend_input req) p response selected (fr_body r)
       (builder_new (generate_receipt_id C fresh) chat (cq_user_model req) (sk_digest (sv_keyset sv)) (cq_endpoint_path req) ''POST''
          (se_admitted_at selected)) = Inr b"
    "finalize C keys b (sv_default_receipt_key_id sv) = Inr (fr_receipt r)"
    "wo_receipts w' = receipt_put (fr_receipt r) (cq_requester req) (bk_clock B (wo_ticks w))
       (saturating_add (bk_clock B (wo_ticks w)) (sc_receipt_ttl_seconds (sv_config sv))) (wo_receipts w)"
proof -
  obtain status body headers where cr: "client_response C B req (backend_input req) (uq_body (pr_request p)) response = (status, body, headers)"
    by (metis prod_cases3)
  let ?new = "\<lambda>selected. builder_new (generate_receipt_id C fresh) (response_member B ''id'' body) (cq_user_model req) (sk_digest (sv_keyset sv))
    (cq_endpoint_path req) ''POST'' (se_admitted_at selected)"
  obtain selected wire receipt where main: "and_then (map_err AdmissionFailed (select a (up_served_instance response))) (\<lambda>selected.
      and_then (map_err E2eeFailed (encrypt_for_client C rnd req body)) (\<lambda>wire.
      and_then (map_err ReceiptFailed (and_then (buffered_log C sv B req (backend_input req) p response selected wire (?new selected))
        (\<lambda>b. finalize C keys b (sv_default_receipt_key_id sv)))) (\<lambda>receipt. Inr (selected, wire, receipt)))) = Inr (selected, wire, receipt)"
    using assms by (auto simp: finish_buffered_def cr split: sum.splits)
  then have parts: "select a (up_served_instance response) = Inr selected"
    "\<exists>b. buffered_log C sv B req (backend_input req) p response selected wire (?new selected) = Inr b \<and>
       finalize C keys b (sv_default_receipt_key_id sv) = Inr receipt" by (auto simp: result_iffs)
  have r: "fr_body r = wire" "fr_receipt r = receipt"
    "wo_receipts w' = receipt_put receipt (cq_requester req) (bk_clock B (wo_ticks w))
       (saturating_add (bk_clock B (wo_ticks w)) (sc_receipt_ttl_seconds (sv_config sv))) (wo_receipts w)"
    using assms by (auto simp: finish_buffered_def cr main store_receipt_def Let_def result_iffs split: prod.splits sum.splits)
  show ?thesis using parts that r by blast
qed

text \<open>The session a response cites belongs to the admission it was served under.\<close>

lemma served_lease:
  assumes "authorised L sv B req p a" and "served_under a a'" and "select a' served = Inr selected"
  shows "required (se_event selected) = demanded sv B req p"
    and "se_lease selected = Some l \<Longrightarrow> uv_result (ad_event a) = Verified \<and> (cq_aci_session_ids req = [] \<or> ls_session_id l \<in> set (cq_aci_session_ids req))"
proof -
  note sel = select_Inr [OF assms(3)]
  show "required (se_event selected) = demanded sv B req p"
    using sel assms(2) authorised_required [OF assms(1)] by (auto simp: served_under_def withheld_without_instance_def split: if_splits)
  assume "se_lease selected = Some l"
  then obtain g where "g \<in> set (ad_sessions a)" "sg_lease g = l"
    using sel assms(2) by (auto simp: served_under_def withheld_without_instance_def selected_from_def split: if_splits)
  then show "uv_result (ad_event a) = Verified \<and> (cq_aci_session_ids req = [] \<or> ls_session_id l \<in> set (cq_aci_session_ids req))"
    using authorised_lease [OF assms(1)] by blast
qed


section \<open>A run\<close>

text \<open>A gateway whose backend reports a mismatch once and then answers.\<close>

definition sample_held_lease :: session_lease where
  "sample_held_lease = \<lparr>ls_session_id = replicate 64 (CHR ''a''), ls_established_at = 90, ls_expires_at = 200, ls_token = 0\<rparr>"

definition sample_prepared :: "upstream_request \<Rightarrow> prepared_request" where
  "sample_prepared q = \<lparr>pr_request = q, pr_upstream_name = ''up'', pr_url_origin = None, pr_model_id = ''m'', pr_route_id = None,
     pr_is_tee = Some True\<rparr>"

definition sample_answer :: upstream_response where
  "sample_answer = \<lparr>up_status = 200, up_body = ''answer'', up_headers = [], up_served_instance = None\<rparr>"

definition sample_backend :: "(nat, nat) backend" where
  "sample_backend = \<lparr>bk_acquire = (\<lambda>fp retention now sealed s. (Suc s, Inr sample_held_lease)), bk_extend = (\<lambda>l t s. (s, Inr ())),
     bk_clock = (\<lambda>n. 100), bk_verifier = Some (\<lambda>q u. (u, sample_verified)), bk_invalidate = (\<lambda>q u. u),
     bk_prepare = (\<lambda>q. Inr (sample_prepared q)), bk_encode_form = (\<lambda>form params. Inr ([], [])), bk_requires_verified_binding = (\<lambda>p. False),
     bk_forward = (\<lambda>p ev u. (Suc u, if u = 0 then Inl (ChannelBindingMismatch []) else Inr sample_answer)),
     bk_forward_stream = (\<lambda>p ev u. (u, Inl ResponseTooLarge)), bk_member = (\<lambda>k body. None), bk_media = (\<lambda>path body sent audio. Inl []),
     bk_normalize = (\<lambda>surface status body received. (status, body)), bk_collect = (\<lambda>items headers. Inr [])\<rparr>"

definition sample_forwarding :: aci_service where
  "sample_forwarding = sample_gateway\<lparr>sv_default_receipt_key_id := ''k1''\<rparr>"

definition sample_pinned_request :: chat_completion_request where
  "sample_pinned_request = \<lparr>cq_audio_form = None, cq_request_id = ''q'', cq_user_model = None, cq_target_route_id = Some ''route'', cq_user_tier = None,
     cq_endpoint_path = ''/v1/chat/completions'', cq_received_body = ''ask'', cq_forwarded_body = None, cq_aci_required = False,
     cq_aci_session_ids = [replicate 64 (CHR ''a'')], cq_upstream_verification_event = None, cq_requester = None, cq_e2ee = None\<rparr>"

definition sample_world :: "(nat, nat) world" where
  "sample_world = \<lparr>wo_sessions = 0, wo_receipts = receipt_store_default, wo_ticks = 0, wo_outside = 0, wo_sent = []\<rparr>"

definition sample_admitted :: "channel_binding list \<Rightarrow> admitted_upstream" where
  "sample_admitted bs = \<lparr>ad_event = sample_verified\<lparr>required := True, channel_bindings := bs\<rparr>, admitted_at = 100,
     ad_sessions = [\<lparr>instance_key = None, sg_bindings = bs, sg_lease = sample_held_lease\<rparr>], requires_instance = False\<rparr>"

lemma sample_crypto_inj: "to_vec_inj sample_crypto"
  using sample_lib_laws(5) by (simp add: to_vec_inj_def sample_crypto_def lib.defs)

lemma channel_groups_required:
  assumes "\<not> is_multi_instance (provider_type ev)"
  shows "channel_groups L (ev\<lparr>required := d\<rparr>) = channel_groups L ev"
proof -
  have same: "channel_bindings (ev\<lparr>required := d\<rparr>) = channel_bindings ev" "url_origin (ev\<lparr>required := d\<rparr>) = url_origin ev" by simp_all
  have "single_group L (ev\<lparr>required := d\<rparr>) = single_group L ev" unfolding single_group_def same ..
  then show ?thesis using assms by (simp add: channel_groups_def)
qed

lemma sample_not_multi: "\<not> is_multi_instance (provider_type sample_verified)"
  by (simp add: is_multi_instance_def sample_verified_def default_event_def)

lemma sample_required:
  "channel_groups L (sample_verified\<lparr>required := True\<rparr>) = channel_groups L sample_verified"
  "session_claims_for_event (sample_verified\<lparr>required := True\<rparr>) = session_claims_for_event sample_verified"
  "channel_material_of L (sample_verified\<lparr>required := True\<rparr>) None bs c = channel_material_of L sample_verified None bs c"
  "identity_from_provider_claims (sample_verified\<lparr>required := True\<rparr>) = None"
  "session_expiry sample_service_config (sample_verified\<lparr>required := True\<rparr>) 100 = Inr 3700"
  by (rule channel_groups_required [OF sample_not_multi])
    (simp_all add: session_claims_for_event_def claim_mapper_def generic_claims_def channel_material_of_def reviewed_session_material_def
      identity_from_provider_claims_def identity_is_empty_def session_expiry_def checked_add_def sample_service_config_def
      sample_verified_def default_event_def)

lemma sample_admit_in:
  obtains bs where "\<And>w. admit_in sample_crypto sample_forwarding sample_backend (sample_verified\<lparr>required := True\<rparr>) [replicate 64 (CHR ''a'')] ''m'' None w =
    (w\<lparr>wo_sessions := Suc (wo_sessions w), wo_ticks := Suc (Suc (wo_ticks w))\<rparr>, Inr (sample_admitted bs))"
proof -
  let ?ev = "sample_verified\<lparr>required := True\<rparr>"
  obtain bs where bs: "channel_groups sample_crypto sample_verified = Inr [(None, bs)]" using sample_groups [OF sample_crypto_inj] by blast
  obtain fp where fp: "fingerprint sample_crypto (channel_material_of sample_crypto sample_verified None bs (session_claims_for_event sample_verified)) = Inr fp"
    using sample_material(1) by blast
  have sv: "\<not> serves_directly sample_forwarding" "sv_config sample_forwarding = sample_service_config" "uv_result sample_verified = Verified"
    by (simp_all add: serves_directly_def sample_forwarding_def sample_gateway_def sample_service_config_def default_capabilities_def
        sample_verified_def)
  have "record_attested_upstream_session sample_crypto sample_forwarding (bk_acquire sample_backend) ?ev 100 s =
      (Suc s, Inr [\<lparr>instance_key = None, sg_bindings = bs, sg_lease = sample_held_lease\<rparr>])" for s
    using sv fp by (simp add: record_attested_upstream_session_def sample_required bs seal_attested_session_def group_claims_def sample_backend_def)
  then have "admit_upstream sample_crypto sample_forwarding (bk_acquire sample_backend) ?ev [replicate 64 (CHR ''a'')] ''m'' None 100 100 s =
      (Suc s, Inr (sample_admitted bs))" for s
    using sv sample_not_multi by (simp add: admit_upstream_def sample_admitted_def) (simp add: sample_held_lease_def)
  moreover have "bk_clock sample_backend n = 100" for n by (simp add: sample_backend_def)
  ultimately show ?thesis by (intro that [of bs]) (simp add: admit_in_def)
qed

lemma sample_recorded:
  "recorded_upstream_event sample_crypto sample_backend p True None w = (w, Inr (sample_verified\<lparr>required := True\<rparr>))"
  "refresh_upstream_event sample_crypto sample_backend p True w = (w, Inr (sample_verified\<lparr>required := True\<rparr>))"
proof -
  have "uv_result sample_verified = Verified" "channel_bindings sample_verified \<noteq> []" by (simp_all add: sample_verified_def)
  then have "obtained_event sample_crypto sample_backend p True None w = (w, Some sample_verified)"
    "invalidate_upstream_event sample_crypto sample_backend p True w = w"
    by (cases w; simp add: obtained_event_def invalidate_upstream_event_def sample_backend_def)+
  then show "recorded_upstream_event sample_crypto sample_backend p True None w = (w, Inr (sample_verified\<lparr>required := True\<rparr>))"
    "refresh_upstream_event sample_crypto sample_backend p True w = (w, Inr (sample_verified\<lparr>required := True\<rparr>))"
    using \<open>uv_result sample_verified = Verified\<close> \<open>channel_bindings sample_verified \<noteq> []\<close>
    by (simp_all add: refresh_upstream_event_def recorded_upstream_event_def gate_def)
qed

lemma sample_restricted:
  "requires_aci_verification sample_pinned_request" "\<not> serves_directly sample_forwarding"
  "cq_upstream_verification_event sample_pinned_request = None" "cq_aci_session_ids sample_pinned_request = [replicate 64 (CHR ''a'')]"
  by (simp_all add: requires_aci_verification_def sample_pinned_request_def serves_directly_def sample_forwarding_def sample_gateway_def
      sample_service_config_def default_capabilities_def)

lemma sample_forward_answers:
  "bk_forward sample_backend p ev 0 = (Suc 0, Inl (ChannelBindingMismatch []))" "bk_forward sample_backend p ev (Suc 0) = (Suc (Suc 0), Inr sample_answer)"
  by (simp_all add: sample_backend_def)

lemma sample_admit_and_forward:
  obtains bs w where "admit_and_forward sample_crypto sample_forwarding sample_backend (bk_forward sample_backend) withheld sample_pinned_request
      (sample_prepared q) sample_world = (w, Inr (sample_answer, sample_admitted bs))"
    "length (wo_sent w) = 2" "wo_receipts w = receipt_store_default"
proof -
  obtain bs where bs: "\<And>w. admit_in sample_crypto sample_forwarding sample_backend (sample_verified\<lparr>required := True\<rparr>) [replicate 64 (CHR ''a'')] ''m'' None w =
    (w\<lparr>wo_sessions := Suc (wo_sessions w), wo_ticks := Suc (Suc (wo_ticks w))\<rparr>, Inr (sample_admitted bs))" by (rule sample_admit_in) blast
  define loop where "loop = reverify_loop sample_crypto sample_forwarding sample_backend (bk_forward sample_backend) withheld (sample_prepared q) True False
    [replicate 64 (CHR ''a'')] None False"
  have model: "pr_model_id (sample_prepared q) = ''m''" "pr_is_tee (sample_prepared q) = Some True" by (simp_all add: sample_prepared_def)
  have last: "\<exists>w'. loop n (sample_admitted bs) w = (w', Forwarded sample_answer (sample_admitted bs)) \<and>
      length (wo_sent w') = Suc (length (wo_sent w)) \<and> wo_receipts w' = wo_receipts w" if "wo_outside w = 1" for w n
    unfolding loop_def by (subst reverify_loop.simps) (simp add: that sample_forward_answers Let_def)
  have first: "loop 2 (sample_admitted bs) w = loop 1 (sample_admitted bs) (w\<lparr>wo_outside := 1, wo_sent := wo_sent w @ [(sample_prepared q, ad_event (sample_admitted bs))],
      wo_sessions := Suc (wo_sessions w), wo_ticks := Suc (Suc (wo_ticks w))\<rparr>)" if "wo_outside w = 0" for w
    unfolding loop_def by (subst reverify_loop.simps)
      (simp add: that sample_forward_answers Let_def withheld_status_def is_mismatch_def sample_recorded bs model)
  define w0 where "w0 = sample_world\<lparr>wo_sessions := 1, wo_ticks := 2\<rparr>"
  define w1 where "w1 = w0\<lparr>wo_outside := 1, wo_sent := wo_sent w0 @ [(sample_prepared q, ad_event (sample_admitted bs))],
      wo_sessions := Suc (wo_sessions w0), wo_ticks := Suc (Suc (wo_ticks w0))\<rparr>"
  have outside: "wo_outside w0 = 0" "wo_outside w1 = 1" "length (wo_sent w1) = 1" "wo_receipts w1 = receipt_store_default"
    by (simp_all add: w0_def w1_def sample_world_def)
  obtain w where w: "loop 2 (sample_admitted bs) w0 = (w, Forwarded sample_answer (sample_admitted bs))" "length (wo_sent w) = 2"
    "wo_receipts w = receipt_store_default"
    using first [OF outside(1), folded w1_def] last [OF outside(2), of 1] outside(3,4) by auto
  have "admit_in sample_crypto sample_forwarding sample_backend (sample_verified\<lparr>required := True\<rparr>) [replicate 64 (CHR ''a'')] ''m'' None sample_world =
      (w0, Inr (sample_admitted bs))" by (simp add: bs w0_def sample_world_def)
  with w show ?thesis
    by (intro that [of w bs]) (simp_all add: admit_and_forward_def sample_restricted attested_route_eligible_def model sample_recorded
        forward_with_binding_reverify_def CHANNEL_BINDING_REVERIFY_ATTEMPTS_def loop_def)
qed

lemma built_append:
  "append_body_hash L b EVENT_REQUEST_RECEIVED body = Inr (b', h) \<Longrightarrow> built L b \<Longrightarrow> built L b'"
  "append_body_hash L b EVENT_MIDDLEWARE_FORWARDED body = Inr (b', h) \<Longrightarrow> built L b \<Longrightarrow> built L b'"
  "append_body_hash L b EVENT_REQUEST_FORWARDED body = Inr (b', h) \<Longrightarrow> built L b \<Longrightarrow> built L b'"
  "append_body_hash L b EVENT_RESPONSE_RETURNED body = Inr (b', h) \<Longrightarrow> built L b \<Longrightarrow> built L b'"
  by (blast intro: built_body)+

lemma append_upstream_verified_built: "append_upstream_verified b ev recorded = Inr b' \<Longrightarrow> built L b \<Longrightarrow> built L b'"
  by (auto simp: append_upstream_verified_def split: option.splits intro: built_verified built_failed)

lemma request_log_built:
  assumes "request_log L sv req input forwarded selected b = Inr b'" and "built L b"
  shows "built L b'"
proof -
  obtain b1 h1 b2 b3 h3 where log: "append_body_hash L b EVENT_REQUEST_RECEIVED (cq_received_body req) = Inr (b1, h1)"
    "(case cq_target_route_id req of
         None \<Rightarrow> Inr b1
       | Some route \<Rightarrow> and_then (append_body_hash L b1 EVENT_MIDDLEWARE_FORWARDED input) (\<lambda>(b, _). add_route_selected b route)) = Inr b2"
    "append_body_hash L b2 EVENT_REQUEST_FORWARDED forwarded = Inr (b3, h3)"
    "b' = b3 \<or> append_upstream_verified b3 (se_event selected) (map_option ls_session_id (se_lease selected)) = Inr b'"
    using assms(1) unfolding request_log_def add_request_received_def add_middleware_forwarded_def add_request_forwarded_def
    by (auto simp: result_iffs split: if_splits)
  have "built L b1" by (rule built_append(1) [OF log(1) assms(2)])
  then have "built L b2" using log(2) by (auto simp: result_iffs split: option.splits intro: built_route dest: built_append(2))
  from built_append(3) [OF log(3) this] show ?thesis using log(4) append_upstream_verified_built by blast
qed

lemma buffered_log_built:
  assumes "buffered_log L sv B req input p response selected wire b = Inr b'" and "built L b"
  shows "built L b'"
proof -
  obtain b1 h where log: "request_log L sv req input (uq_body (pr_request p)) selected b = Inr b1"
    "append_body_hash L (if serves_directly sv then b1 else set_upstream_verified_model_id b1 (response_model B req p response))
       EVENT_RESPONSE_RETURNED wire = Inr (b', h)"
    using assms(1) by (auto simp: buffered_log_def add_response_returned_def result_iffs Let_def)
  from request_log_built [OF log(1) assms(2)] show ?thesis by (intro built_append(4) [OF log(2)]) (simp add: built_model)
qed

lemma sample_logged:
  assumes "events b = []" and "built sample_crypto b"
    and "selected = \<lparr>se_event = ad_event (sample_admitted bs), se_admitted_at = 100, se_lease = Some sample_held_lease\<rparr>"
  obtains b' receipt where "buffered_log sample_crypto sample_forwarding sample_backend sample_pinned_request input p sample_answer selected wire b = Inr b'"
    "finalize sample_crypto sample_signer b' ''k1'' = Inr receipt"
proof -
  have none: "response_model sample_backend sample_pinned_request p sample_answer = None"
    by (simp add: response_model_def accepted_response_model_def response_member_def sample_backend_def is_media_path_def sample_pinned_request_def
        IMAGES_GENERATIONS_PATH_def AUDIO_TRANSCRIPTIONS_PATH_def split: list.split)
  have route: "cq_target_route_id sample_pinned_request = Some ''route''" by (simp add: sample_pinned_request_def)
  have sid: "is_session_id (ls_session_id sample_held_lease)" by (simp add: is_session_id_def sample_held_lease_def is_lower_hex_def list_all_iff)
  let ?d = "\<lambda>es. list_all (\<lambda>e. jcs_ok (JObject (re_fields e))) es \<and> missing_required es = None"
  have "\<exists>b'. buffered_log sample_crypto sample_forwarding sample_backend sample_pinned_request input p sample_answer selected wire b = Inr b' \<and>
    ?d (events b')"
    using assms(1,3) sid
    by (simp add: buffered_log_def request_log_def sample_restricted(2) none set_upstream_verified_model_id_def append_upstream_verified_def
        add_upstream_verified_with_session_def add_request_received_def add_middleware_forwarded_def add_request_forwarded_def
        add_response_returned_def add_route_selected_def append_body_hash_def append_hash_def append_event_def Let_def route
        missing_required_None has_event_def is_ascii_def)
  then obtain b' where b': "buffered_log sample_crypto sample_forwarding sample_backend sample_pinned_request input p sample_answer selected wire b = Inr b'"
    "?d (events b')" by blast
  have "\<exists>r. finalize sample_crypto sample_signer b' ''k1'' = Inr r"
  proof (rule finalize_total [OF buffered_log_built [OF b'(1) assms(2)]])
    show "missing_required (events b') = None" "list_all (\<lambda>e. jcs_ok (JObject (re_fields e))) (events b')" using b'(2) by simp_all
    show "find (\<lambda>key. key_id key = ''k1'') (receipt_keys sample_signer) = Some (hd (receipt_keys sample_signer))"
      and "algo (hd (receipt_keys sample_signer)) = ALGO_ED25519" by (simp_all add: sample_signer_def ALGO_ED25519_def)
    show "\<exists>sig. sign_receipt sample_signer ''k1'' input = Inr sig" for input by (simp add: sample_signer_def)
  qed
  then show ?thesis using that b'(1) by blast
qed

lemma sample_run:
  obtains w r where "forward_chat_completion_request sample_crypto sample_signer sample_forwarding sample_backend (\<lambda>_. ([], [])) [] sample_pinned_request
    sample_world = (w, Inr r)" "length (wo_sent w) = 2"
proof -
  let ?q = "upstream_request_of sample_pinned_request None" and ?req = sample_pinned_request
  have prep: "and_then (bk_prepare sample_backend (upstream_request_of ?req (cq_audio_form ?req))) (encode_audio sample_crypto sample_backend) =
      Inr (sample_prepared ?q)"
    by (simp add: sample_backend_def encode_audio_def sample_prepared_def upstream_request_of_def sample_pinned_request_def)
  obtain bs w where w: "admit_and_forward sample_crypto sample_forwarding sample_backend (bk_forward sample_backend) withheld ?req
      (sample_prepared ?q) sample_world = (w, Inr (sample_answer, sample_admitted bs))"
    "length (wo_sent w) = 2" "wo_receipts w = receipt_store_default" by (rule sample_admit_and_forward)
  define selected where "selected = \<lparr>se_event = ad_event (sample_admitted bs), se_admitted_at = 100, se_lease = Some sample_held_lease\<rparr>"
  define b where "b = builder_new (generate_receipt_id sample_crypto []) (response_member sample_backend ''id'' ''answer'') (cq_user_model ?req)
    (sk_digest (sv_keyset sample_forwarding)) (cq_endpoint_path ?req) ''POST'' 100"
  have select: "select (sample_admitted bs) (up_served_instance sample_answer) = Inr selected"
    by (simp add: select_def sample_admitted_def selected_def)
  have "events b = []" "built sample_crypto b" unfolding b_def by (simp add: builder_new_def) (rule built_new)
  then obtain b' receipt where log: "buffered_log sample_crypto sample_forwarding sample_backend ?req (backend_input ?req) (sample_prepared ?q)
      sample_answer selected ''answer'' b = Inr b'" "finalize sample_crypto sample_signer b' ''k1'' = Inr receipt"
    using sample_logged selected_def by blast
  have client: "client_response sample_crypto sample_backend ?req (backend_input ?req) (uq_body (pr_request (sample_prepared ?q))) sample_answer =
      (200, ''answer'', [])"
    by (simp add: client_response_def sample_answer_def is_media_path_def sample_pinned_request_def IMAGES_GENERATIONS_PATH_def
        AUDIO_TRANSCRIPTIONS_PATH_def)
  have "encrypt_for_client sample_crypto rnd ?req ''answer'' = Inr ''answer''" for rnd
    by (simp add: encrypt_for_client_def sample_pinned_request_def)
  moreover have "sv_default_receipt_key_id sample_forwarding = ''k1''" "se_admitted_at selected = 100" "se_lease selected = Some sample_held_lease"
    "bk_extend sample_backend l t s = (s, Inr ())" for l t s by (simp_all add: sample_forwarding_def selected_def sample_backend_def)
  ultimately obtain w' r where fin: "finish_buffered sample_crypto sample_signer sample_forwarding sample_backend (\<lambda>_. ([], [])) [] ?req
      (backend_input ?req) (sample_prepared ?q) sample_answer (sample_admitted bs) w = (w', Inr r)"
    using log by (simp add: finish_buffered_def client select b_def store_receipt_def Let_def)
  show ?thesis
    by (rule that [of w' r]) (use prep w fin finish_buffered_sent [OF fin] in \<open>simp_all add: forward_chat_completion_request_def\<close>)
qed



end
