(* ===== verification/Spec2Isabelle.thy ===== *)
theory Spec2Isabelle
  imports Dstack SessionCrash ReceiptApi E2eeService Forward
begin

text \<open>
  \<^bold>\<open>The private AI gateway.\<close> The gateway runs in a trusted execution environment between clients and model providers. It proves who it is
  with an attestation report over its keyset, verifies the provider before it forwards a request, keeps what it verified as an
  attested session, and signs a receipt over the bytes it received, forwarded and returned. Clients may encrypt the fields of
  requests and responses end to end. Paths below are relative to \<open>src/\<close>.

  \<^bold>\<open>How the parts interact.\<close> A client checks a report (\<open>Report\<close>, \<open>Dstack\<close>) and pins a TLS key (\<open>Channel\<close>). Its request is decrypted
  (\<open>E2eeService\<close>, \<open>E2eeFields\<close>, \<open>E2ee\<close>) and forwarded (\<open>Forward\<close>): the gate obtains a verification event, admission (\<open>Admission\<close>)
  turns the event into leased sessions (\<open>SessionMaterial\<close>, \<open>Claims\<close>, \<open>Session\<close> and the stores), the backend answers, and the answer
  is returned whole or as a stream (\<open>Streaming\<close>, \<open>SseFraming\<close>, \<open>SseProtocol\<close>). The receipt (\<open>Receipt\<close>) goes to the receipt store
  (\<open>ReceiptStore\<close>), from where its owner fetches it (\<open>ReceiptApi\<close>).

  \<^bold>\<open>Theories and sources.\<close>

  \<^item> \<open>Prelude\<close>, \<open>Json\<close>, \<open>Samples\<close>: machine types, results, byte strings and maps of the Rust standard library; \<open>serde_json\<close> values and the
    record \<open>lib\<close> of operations of other packages (SHA-2, hexadecimal, Base64, printing and parsing of JSON) with the laws relied on;
    and a concrete \<open>lib\<close> for the witnesses.
  \<^item> \<open>Jcs\<close>, \<open>Protocol\<close>: \<open>crates/aci-protocol/src/digest.rs\<close>, \<open>types.rs\<close>, \<open>identity.rs\<close>, \<open>receipt.rs\<close>. Canonical JSON, keysets, the
    attestation statement. Lemmas: two values have the same canonical bytes exactly if they are equal up to member order.
  \<^item> \<open>Report\<close>, \<open>Channel\<close>, \<open>Dstack\<close>: \<open>crates/aci-verify/src/report.rs\<close>, \<open>lib.rs\<close>, \<open>channel.rs\<close>, \<open>dstack.rs\<close>. The gate over a report, TLS pins,
    replay of the event log, key custody. Lemmas: what an accepted report, pin, log or custody chain guarantees, collisions named.
  \<^item> \<open>Receipt\<close>: \<open>src/aci/receipt.rs\<close> and the signing interface of \<open>keys.rs\<close>. The builder and finalisation; the rules every log obeys and
    that the signature covers the served document.
  \<^item> \<open>Session\<close>, \<open>SessionIndex\<close>, \<open>SessionInv\<close>, \<open>SessionMem\<close>, \<open>SessionLog\<close>, \<open>SessionDurable\<close>, \<open>SessionCrash\<close>: \<open>src/aggregator/session.rs\<close>
    and \<open>session_store.rs\<close>. Documents and content addresses; the index with leases and retention; the in-memory and the logged store.
    The locale \<open>session_store\<close> is their contract; both stores are interpretations of it. Lemmas: the invariant of the index, that
    a promised session is served until its deadline, and that it survives failed writes, compaction and crashes.
  \<^item> \<open>ReceiptStore\<close>, \<open>ReceiptApi\<close>: \<open>src/aggregator/service/receipt_store.rs\<close>, \<open>receipts.rs\<close>, \<open>helpers.rs\<close>, and the retrieval handlers and
    guards of \<open>src/http/app/\<close>. Refinement of a map with deadlines; who may fetch what.
  \<^item> \<open>E2ee\<close>, \<open>E2eeFields\<close>, \<open>E2eeService\<close>: \<open>src/aci/e2ee.rs\<close>, \<open>src/aggregator/service/e2ee_crypto.rs\<close>, \<open>e2ee.rs\<close>. Cipher suites, the encrypted
    fields with their associated data, admission of a call and the replay cache. Lemmas: round trips, binding of a ciphertext to its
    place, refinement of the replay cache.
  \<^item> \<open>Service\<close>: \<open>src/aggregator/service/mod.rs\<close>, \<open>config.rs\<close>, \<open>src/aci/identity.rs\<close>. Construction, keyset renewal, served reports; what the
    service serves passes the client's gate.
  \<^item> \<open>SseProtocol\<close>, \<open>SseFraming\<close>, \<open>Streaming\<close>: \<open>src/error_payload.rs\<close>, \<open>sse_protocol.rs\<close>, \<open>sse_framing.rs\<close>, \<open>aggregator/service/streaming.rs\<close>. The
    observer (the locale \<open>byte_sink\<close> gives independence of chunking), the finalising stream and the encrypting transformer. Lemmas:
    refinement of line-based dispatch, bounded memory, exact receipts, termination.
  \<^item> \<open>SessionMaterial\<close>, \<open>Claims\<close>: \<open>src/aci/verifier/session_material.rs\<close>, \<open>src/aggregator/service/claims.rs\<close>. The reviewed evidence of each
    provider and the claims made of it.
  \<^item> \<open>Admission\<close>, \<open>Forward\<close>: \<open>src/aggregator/service/forward.rs\<close>. Grouping and sealing of verified channels, pins, selection, the gate, the
    loop that verifies again, buffered and streamed forwarding, refusal receipts. Lemmas: only granted requests reach the backend, the
    cited session is about the verified channel, the receipt records exactly what happened.

  \<^bold>\<open>Conventions.\<close> A Rust string or byte vector is a list of characters; \<open>u64\<close> is \<open>64 word\<close>, with checked and saturating arithmetic
  written out; a \<open>Result\<close> is a sum with the error on the left; a hash map is an association list with distinct keys; an ordered map is
  sorted by key. State is passed explicitly; each reading of the clock is an argument or an index. Code of other packages and the
  outside world (network, file system, random draws) are arguments; what is relied on of them is a named hypothesis, satisfied in the
  witnesses by concrete functions. SHA-256 is never assumed injective: where it matters the conclusion names a collision.

  \<^bold>\<open>Bounds.\<close> No definition takes fuel. The loops that are not structural have termination proofs (eviction by the number of buckets, the
  lines of a log by the bytes left, a stream by the answers its source has left). The loop that verifies again counts down the two attempts of
  \<open>CHANNEL_BINDING_REVERIFY_ATTEMPTS\<close>, so three forwards are the most. The observer's cap is \<open>MAX_OBSERVED_EVENT_BYTES\<close>.

  \<^bold>\<open>Not modelled.\<close> Failover over candidate routes (\<open>src/aggregator/service/middleware.rs\<close>) races asynchronous attempts over the forwarding
  operations; it needs a model of cancellation. The request, response and stream transforms under \<open>src/middleware/\<close> are tables of
  product rules without a stated contract; the receipt covers the bytes on both sides of them, and in \<open>Forward\<close> they are arguments. The
  upstream adapters (\<open>src/aci/upstream/\<close>) and verifiers (\<open>src/aci/verifier/\<close>) are network and process clients, the arguments \<open>bk_forward\<close>
  and \<open>bk_verifier\<close>. Quote verification is a vendor library. Configuration, HTTP serving, start-up, metrics, the desktop proxy,
  the TypeScript verifier and the scripts are input and output around the modelled parts or separate programs. Within the modelled parts,
  metrics and log messages are left out, and so is the release of leases when their owner goes out of scope.
\<close>

end
